(* ===== verification/Prelude.thy ===== *)
theory Prelude
  imports Main "HOL-Library.AList" "HOL-Library.Word"
begin

unbundle bit_operations_syntax

text \<open>
  Shared vocabulary of the development: the hash tables of the server, Rust's clocks and
  durations, the \<open>?\<close> operator on results, and the facts about them that the component
  theories use.

  A \<open>HashMap\<close> is an association list with distinct keys (\<open>hm_ok\<close>). The order of the
  list stands for one iteration order of the table; the source never relies on a particular
  one. \<open>len()\<close> is the length of the list, \<open>get\<close> is \<open>map_of\<close>, \<open>insert\<close> is
  \<open>hm_put\<close>, \<open>remove\<close> is \<open>hm_del\<close> and \<open>retain\<close> is \<open>hm_retain\<close>.

  An \<open>Instant\<close> is a number of nanoseconds on the monotonic clock and a \<open>Duration\<close> a
  number of nanoseconds. \<open>Instant + Duration\<close> panics when the result is not representable;
  \<open>instant_add\<close> is \<open>None\<close> there. \<open>duration_since\<close> saturates at zero, as the
  subtraction of naturals does.
\<close>

named_theorems hm_simps "facts about hash tables"
named_theorems time_defs "definitions of the clock operations"

subsection \<open>Results\<close>

type_synonym ('e, 'a) res = "'e + 'a"

text \<open>The \<open>?\<close> operator: an error returns early, a value is passed on.\<close>

definition res_bind :: "('e, 'a) res \<Rightarrow> ('a \<Rightarrow> ('e, 'b) res) \<Rightarrow> ('e, 'b) res" where
  "res_bind r f = (case r of Inl e \<Rightarrow> Inl e | Inr a \<Rightarrow> f a)"

lemma res_bind_simps [simp]:
  "res_bind (Inl e) f = Inl e"
  "res_bind (Inr a) f = f a"
  by (simp_all add: res_bind_def)

lemma res_bind_eq_Inr: "res_bind r f = Inr b \<longleftrightarrow> (\<exists>a. r = Inr a \<and> f a = Inr b)"
  by (cases r) simp_all

lemma res_bind_eq_Inl: "res_bind r f = Inl e \<longleftrightarrow> r = Inl e \<or> (\<exists>a. r = Inr a \<and> f a = Inl e)"
  by (cases r) auto

text \<open>A call that may panic: \<open>Panics\<close> carries no value.\<close>

datatype 'a may_panic = Returns 'a | Panics

subsection \<open>Hash tables\<close>

type_synonym ('k, 'v) hmap = "('k \<times> 'v) list"

definition hm_ok :: "('k, 'v) hmap \<Rightarrow> bool" where
  "hm_ok m \<longleftrightarrow> distinct (map fst m)"

definition hm_put :: "'k \<Rightarrow> 'v \<Rightarrow> ('k, 'v) hmap \<Rightarrow> ('k, 'v) hmap" where
  "hm_put k v m = AList.update k v m"

definition hm_del :: "'k \<Rightarrow> ('k, 'v) hmap \<Rightarrow> ('k, 'v) hmap" where
  "hm_del k m = filter (\<lambda>p. fst p \<noteq> k) m"

definition hm_retain :: "('k \<Rightarrow> 'v \<Rightarrow> bool) \<Rightarrow> ('k, 'v) hmap \<Rightarrow> ('k, 'v) hmap" where
  "hm_retain P m = filter (\<lambda>p. P (fst p) (snd p)) m"

definition hm_has :: "('k, 'v) hmap \<Rightarrow> 'k \<Rightarrow> bool" where
  "hm_has m k \<longleftrightarrow> map_of m k \<noteq> None"

text \<open>\<open>entry(k).or_insert(d)\<close>: the value under \<open>k\<close>, or \<open>d\<close> when there is none.\<close>

definition hm_entry :: "('k, 'v) hmap \<Rightarrow> 'k \<Rightarrow> 'v \<Rightarrow> 'v" where
  "hm_entry m k d = (case map_of m k of Some v \<Rightarrow> v | None \<Rightarrow> d)"

lemma hm_ok_Nil [simp]: "hm_ok []"
  by (simp add: hm_ok_def)

lemma hm_ok_put [simp, hm_simps]: "hm_ok m \<Longrightarrow> hm_ok (hm_put k v m)"
  by (simp add: hm_ok_def hm_put_def distinct_update)

lemma hm_ok_filter: "hm_ok m \<Longrightarrow> hm_ok (filter P m)"
  by (induction m) (auto simp: hm_ok_def)

lemma hm_ok_del [simp, hm_simps]: "hm_ok m \<Longrightarrow> hm_ok (hm_del k m)"
  by (simp add: hm_del_def hm_ok_filter)

lemma hm_ok_retain [simp, hm_simps]: "hm_ok m \<Longrightarrow> hm_ok (hm_retain P m)"
  by (simp add: hm_retain_def hm_ok_filter)

lemma map_of_hm_put [simp, hm_simps]: "map_of (hm_put k v m) = (map_of m)(k \<mapsto> v)"
  by (simp add: hm_put_def update_conv')

lemma map_of_hm_del [simp, hm_simps]: "map_of (hm_del k m) x = (if x = k then None else map_of m x)"
  unfolding hm_del_def by (induction m) auto

lemma map_of_hm_retain [hm_simps]:
  "hm_ok m \<Longrightarrow> map_of (hm_retain P m) x =
     (case map_of m x of Some v \<Rightarrow> if P x v then Some v else None | None \<Rightarrow> None)"
proof (induction m)
  case Nil
  then show ?case by (simp add: hm_retain_def)
next
  case (Cons p m)
  from Cons.prems have ok: "hm_ok m" and notin: "map_of m (fst p) = None"
    by (auto simp: hm_ok_def map_of_eq_None_iff)
  from Cons.IH [OF ok] notin show ?case
    by (cases p) (auto simp: hm_retain_def split: option.splits if_splits)
qed

lemma hm_retain_all: "(\<And>k v. (k, v) \<in> set m \<Longrightarrow> P k v) \<Longrightarrow> hm_retain P m = m"
  unfolding hm_retain_def by (induction m) auto

lemma length_hm_retain [simp, hm_simps]: "length (hm_retain P m) \<le> length m"
  by (simp add: hm_retain_def)

lemma length_hm_del [simp, hm_simps]: "length (hm_del k m) \<le> length m"
  by (simp add: hm_del_def)

lemma length_hm_put [hm_simps]:
  "length (hm_put k v m) = (if hm_has m k then length m else Suc (length m))"
  unfolding hm_put_def hm_has_def by (induction m) auto

lemma hm_has_put [simp, hm_simps]: "hm_has (hm_put k v m) x \<longleftrightarrow> x = k \<or> hm_has m x"
  by (auto simp: hm_has_def)

lemma hm_has_Nil [simp]: "\<not> hm_has [] k"
  by (simp add: hm_has_def)

lemma map_of_in_set: "map_of m k = Some v \<Longrightarrow> (k, v) \<in> set m"
  by (rule map_of_SomeD)

lemma hm_ok_map_of_iff: "hm_ok m \<Longrightarrow> map_of m k = Some v \<longleftrightarrow> (k, v) \<in> set m"
  by (simp add: hm_ok_def map_of_eq_Some_iff)

lemma hm_ok_distinct: "hm_ok m \<Longrightarrow> distinct m"
  by (simp add: hm_ok_def distinct_map)

lemma hm_put_same_keys: "hm_has m k \<Longrightarrow> map fst (hm_put k v m) = map fst m"
  unfolding hm_put_def hm_has_def by (induction m) auto

lemma hm_put_put [simp, hm_simps]: "hm_put k v (hm_put k w m) = hm_put k v m"
  unfolding hm_put_def by (induction m) auto

lemma hm_entry_Some [simp]: "map_of m k = Some v \<Longrightarrow> hm_entry m k d = v"
  by (simp add: hm_entry_def)

lemma hm_entry_None [simp]: "map_of m k = None \<Longrightarrow> hm_entry m k d = d"
  by (simp add: hm_entry_def)

subsection \<open>Clocks and durations\<close>

type_synonym instant = nat
type_synonym duration = nat

definition from_secs :: "nat \<Rightarrow> duration" where
  [time_defs]: "from_secs s = s * 1000000000"

definition from_millis :: "nat \<Rightarrow> duration" where
  [time_defs]: "from_millis ms = ms * 1000000"

definition as_secs :: "duration \<Rightarrow> nat" where
  [time_defs]: "as_secs d = d div 1000000000"

definition as_millis :: "duration \<Rightarrow> nat" where
  [time_defs]: "as_millis d = d div 1000000"

definition duration_since :: "instant \<Rightarrow> instant \<Rightarrow> duration" where
  [time_defs]: "duration_since a b = a - b"

text \<open>
  On the unix targets an \<open>Instant\<close> counts seconds in a signed 64-bit integer, so the last
  representable instant is one nanosecond before second \<open>2 ^ 63\<close>.
\<close>

definition instant_max :: instant where
  "instant_max = 2 ^ 63 * 1000000000 - 1"

definition instant_add :: "instant \<Rightarrow> duration \<Rightarrow> instant option" where
  "instant_add t d = (if t + d \<le> instant_max then Some (t + d) else None)"

lemma instant_add_Some: "instant_add t d = Some u \<longleftrightarrow> u = t + d \<and> t + d \<le> instant_max"
  by (auto simp: instant_add_def)

lemma as_secs_from_secs [simp]: "as_secs (from_secs s) = s"
  by (simp add: time_defs)

lemma from_secs_mono [simp]: "from_secs a \<le> from_secs b \<longleftrightarrow> a \<le> b"
  by (simp add: time_defs)

subsection \<open>Fixed-width arithmetic\<close>

definition u64_max :: nat where "u64_max = 2 ^ 64 - 1"
definition u32_max :: nat where "u32_max = 2 ^ 32 - 1"
definition i64_max :: int where "i64_max = 2 ^ 63 - 1"
definition i64_min :: int where "i64_min = - (2 ^ 63)"

definition in_i64 :: "int \<Rightarrow> bool" where
  "in_i64 x \<longleftrightarrow> i64_min \<le> x \<and> x \<le> i64_max"

definition as_u32 :: "nat \<Rightarrow> nat" where "as_u32 n = n mod 2 ^ 32"
definition as_u64 :: "nat \<Rightarrow> nat" where "as_u64 n = n mod 2 ^ 64"

definition u64_saturating_mul :: "nat \<Rightarrow> nat \<Rightarrow> nat" where
  "u64_saturating_mul a b = min (a * b) u64_max"

text \<open>\<open>Ord::clamp\<close> asserts \<open>min <= max\<close> and panics otherwise.\<close>

definition clamp :: "nat \<Rightarrow> nat \<Rightarrow> nat \<Rightarrow> nat may_panic" where
  "clamp lo hi x = (if lo \<le> hi then Returns (max lo (min x hi)) else Panics)"

lemma clamp_Returns: "clamp lo hi x = Returns y \<Longrightarrow> lo \<le> y \<and> y \<le> hi"
  by (auto simp: clamp_def split: if_splits)

subsection \<open>Bytes\<close>

type_synonym byte = "8 word"
type_synonym bytes = "byte list"

lemma byte_less_256 [simp]: "unat (b :: byte) < 256"
proof -
  have "unat b < 2 ^ LENGTH(8)" by (rule unsigned_less)
  then show ?thesis by simp
qed

lemma byte_256 [simp]: "(256 :: byte) * w = 0"
proof -
  have "(256 :: byte) = 0" by simp
  then show ?thesis by (simp only: mult_zero_left)
qed

lemma byte_15_mask: "(15 :: byte) = mask 4"
  by (simp add: mask_eq_exp_minus_1)

lemma unat_hi_nibble: "unat (drop_bit 4 (b :: byte)) = unat b div 16"
  by (simp add: drop_bit_eq_div unat_div)

lemma unat_lo_nibble: "unat ((b :: byte) AND 0xf) = unat b mod 16"
proof -
  have "unat (b AND 0xf) = unat (take_bit 4 b)" by (simp only: take_bit_eq_mask byte_15_mask)
  also have "\<dots> = take_bit 4 (unat b)" by (rule unsigned_take_bit_eq)
  also have "\<dots> = unat b mod 16" by (simp add: take_bit_eq_mod)
  finally show ?thesis .
qed

lemma nibbles: "push_bit 4 (drop_bit 4 b) OR (b AND 0xf) = (b :: byte)"
proof -
  have "push_bit 4 (drop_bit 4 b) OR (b AND 0xf) = push_bit 4 (drop_bit 4 b) OR take_bit 4 b"
    by (simp only: take_bit_eq_mask byte_15_mask)
  also have "\<dots> = b" by (rule bit_word_eqI) (auto simp: bit_simps)
  finally show ?thesis .
qed

lemma nibble_bounds [simp]: "unat (drop_bit 4 (b :: byte)) < 16" "unat ((b :: byte) AND 0xf) < 16"
proof -
  have "unat b div 16 < 16" by (rule less_mult_imp_div_less) simp
  then show "unat (drop_bit 4 b) < 16" by (simp only: unat_hi_nibble)
  have "unat b mod 16 < 16" by simp
  then show "unat (b AND 0xf) < 16" by (simp only: unat_lo_nibble)
qed

end
