(* ===== verification/Rust_Text.thy ===== *)
theory Rust_Text
  imports Prelude
begin

text \<open>
  Rust's \<open>str\<close> operations that the source uses. A \<open>String\<close> is a list of \<open>char\<close>, one
  per byte of its UTF-8 encoding, so \<open>len()\<close> is \<open>length\<close>; \<open>codes\<close> reads the bytes as
  numbers. Modelled here: the decimal \<open>Display\<close> of integers, \<open>str::from_utf8\<close>,
  \<open>char::is_control\<close>, \<open>str::trim\<close>, \<open>str::replace\<close> with a non-empty pattern, slicing
  with its character-boundary check, and the hexadecimal digits of \<open>char::from_digit\<close> and
  \<open>u8::from_str_radix\<close>.
\<close>

subsection \<open>Strings and bytes\<close>

definition codes :: "string \<Rightarrow> nat list" where
  "codes s = map of_char s"

definition str_bytes :: "string \<Rightarrow> bytes" where
  "str_bytes s = map (\<lambda>c. word_of_nat (of_char c)) s"

definition bytes_str :: "bytes \<Rightarrow> string" where
  "bytes_str bs = map (\<lambda>b. char_of (unat b)) bs"

lemma of_char_less_256 [simp]: "(of_char c :: nat) < 256"
  by simp

lemma length_codes [simp]: "length (codes s) = length s"
  by (simp add: codes_def)

lemma codes_Nil [simp]: "codes [] = []" and codes_Cons [simp]: "codes (c # s) = of_char c # codes s"
  by (simp_all add: codes_def)

lemma codes_append [simp]: "codes (s @ t) = codes s @ codes t"
  by (simp add: codes_def)

lemma unat_of_char [simp]: "unat (word_of_nat (of_char c) :: byte) = of_char c"
  by (simp add: unat_of_nat take_bit_nat_eq_self)

lemma bytes_str_inverse [simp]: "bytes_str (str_bytes s) = s"
  by (simp add: bytes_str_def str_bytes_def comp_def)

lemma str_bytes_inverse [simp]: "str_bytes (bytes_str bs) = bs"
proof -
  have "word_of_nat (of_char (char_of (unat b) :: char)) = (b :: byte)" for b
  proof -
    have "(of_char (char_of (unat b) :: char) :: nat) = unat b"
      by simp
    then show ?thesis by simp
  qed
  then show ?thesis by (simp add: bytes_str_def str_bytes_def comp_def)
qed

lemma str_bytes_inj [simp]: "str_bytes s = str_bytes t \<longleftrightarrow> s = t"
  by (metis bytes_str_inverse)

lemma length_str_bytes [simp]: "length (str_bytes s) = length s"
  by (simp add: str_bytes_def)

lemma length_bytes_str [simp]: "length (bytes_str s) = length s"
  by (simp add: bytes_str_def)

lemma str_bytes_append [simp]: "str_bytes (s @ t) = str_bytes s @ str_bytes t"
  by (simp add: str_bytes_def)

subsection \<open>Decimal rendering\<close>

definition digit :: "nat \<Rightarrow> char" where
  "digit d = char_of (48 + d)"

fun show_nat :: "nat \<Rightarrow> string" where
  "show_nat n = (if n < 10 then [digit n] else show_nat (n div 10) @ [digit (n mod 10)])"

declare show_nat.simps [simp del]

definition show_int :: "int \<Rightarrow> string" where
  "show_int i = (if i < 0 then CHR ''-'' # show_nat (nat (- i)) else show_nat (nat i))"

definition digit_val :: "char \<Rightarrow> nat" where
  "digit_val c = of_char c - 48"

definition nat_of_digits :: "string \<Rightarrow> nat" where
  "nat_of_digits s = foldl (\<lambda>a c. 10 * a + digit_val c) 0 s"

lemma of_char_digit: "d < 10 \<Longrightarrow> (of_char (digit d) :: nat) = 48 + d"
  by (simp add: digit_def take_bit_nat_eq_self)

lemma digit_val_digit [simp]: "d < 10 \<Longrightarrow> digit_val (digit d) = d"
  by (simp add: digit_val_def of_char_digit)

lemma nat_of_digits_show_nat [simp]: "nat_of_digits (show_nat n) = n"
proof (induction n rule: show_nat.induct)
  case (1 n)
  show ?case
  proof (cases "n < 10")
    case True
    then show ?thesis by (simp add: show_nat.simps [of n] nat_of_digits_def)
  next
    case False
    with 1 have "nat_of_digits (show_nat (n div 10)) = n div 10" by simp
    with False show ?thesis by (simp add: show_nat.simps [of n] nat_of_digits_def)
  qed
qed

lemma show_nat_inj [simp]: "show_nat m = show_nat n \<longleftrightarrow> m = n"
  by (metis nat_of_digits_show_nat)

lemma show_nat_chars: "c \<in> set (show_nat n) \<Longrightarrow> 48 \<le> (of_char c :: nat) \<and> (of_char c :: nat) \<le> 57"
proof (induction n rule: show_nat.induct)
  case (1 n)
  have d: "48 \<le> (of_char (digit k) :: nat) \<and> (of_char (digit k) :: nat) \<le> 57" if "k < 10" for k
    using that by (simp add: of_char_digit)
  from "1.prems" consider "n < 10" "c = digit n" | "\<not> n < 10" "c \<in> set (show_nat (n div 10))"
    | "\<not> n < 10" "c = digit (n mod 10)"
    by (cases "n < 10") (auto simp: show_nat.simps [of n])
  then show ?case
    by cases (use d "1.IH" in auto)
qed

lemma show_nat_nonempty [simp]: "show_nat n \<noteq> []"
  by (subst show_nat.simps) simp

lemma show_int_chars:
  "c \<in> set (show_int i) \<Longrightarrow> c = CHR ''-'' \<or> 48 \<le> (of_char c :: nat) \<and> (of_char c :: nat) \<le> 57"
  by (auto simp: show_int_def split: if_splits dest: show_nat_chars)

lemma minus_not_digit: "CHR ''-'' \<notin> set (show_nat n)"
  by (auto dest: show_nat_chars)

lemma show_int_inj [simp]: "show_int i = show_int j \<longleftrightarrow> i = j"
proof -
  have "CHR ''-'' # s \<noteq> show_nat n" for s n
    using minus_not_digit [of n] by (metis list.set_intros(1))
  then show ?thesis by (auto simp: show_int_def eq_nat_nat_iff dest: sym)
qed

lemma show_nat_no_newline [simp]: "CHR 0x0A \<notin> set (show_nat n)"
  by (auto dest: show_nat_chars)

lemma show_int_no_newline [simp]: "CHR 0x0A \<notin> set (show_int i)"
  by (auto dest: show_int_chars)

subsection \<open>UTF-8\<close>

text \<open>
  \<open>str::from_utf8\<close>: the code points of a well-formed byte sequence, \<open>None\<close> otherwise.
  The bounds on the second byte exclude overlong forms, surrogates and values above 0x10FFFF.
\<close>

definition is_cont :: "nat \<Rightarrow> bool" where
  "is_cont b \<longleftrightarrow> 128 \<le> b \<and> b < 192"

definition second_ok3 :: "nat \<Rightarrow> nat \<Rightarrow> bool" where
  "second_ok3 a b \<longleftrightarrow>
     (if a = 224 then 160 \<le> b \<and> b < 192
      else if a = 237 then 128 \<le> b \<and> b < 160
      else 225 \<le> a \<and> a \<le> 239 \<and> is_cont b)"

definition second_ok4 :: "nat \<Rightarrow> nat \<Rightarrow> bool" where
  "second_ok4 a b \<longleftrightarrow>
     (if a = 240 then 144 \<le> b \<and> b < 192
      else if a = 244 then 128 \<le> b \<and> b < 144
      else 241 \<le> a \<and> a \<le> 243 \<and> is_cont b)"

fun utf8_next :: "nat \<Rightarrow> nat list \<Rightarrow> (nat \<times> nat list) option" where
  "utf8_next a s =
     (if a < 128 then Some (a, s)
      else if 194 \<le> a \<and> a \<le> 223 then
        (case s of
           b # r \<Rightarrow> if is_cont b then Some ((a - 192) * 64 + (b - 128), r) else None
         | _ \<Rightarrow> None)
      else if 224 \<le> a \<and> a \<le> 239 then
        (case s of
           b # c # r \<Rightarrow>
             if second_ok3 a b \<and> is_cont c
             then Some ((a - 224) * 4096 + (b - 128) * 64 + (c - 128), r) else None
         | _ \<Rightarrow> None)
      else
        (case s of
           b # c # d # r \<Rightarrow>
             if second_ok4 a b \<and> is_cont c \<and> is_cont d
             then Some ((a - 240) * 262144 + (b - 128) * 4096 + (c - 128) * 64 + (d - 128), r) else None
         | _ \<Rightarrow> None))"

declare utf8_next.simps [simp del]

lemma utf8_next_length: "utf8_next a s = Some (cp, r) \<Longrightarrow> length r \<le> length s"
  by (auto simp: utf8_next.simps split: if_splits list.splits)

lemma utf8_next_ascii [simp]: "a < 128 \<Longrightarrow> utf8_next a s = Some (a, s)"
  by (simp add: utf8_next.simps)

lemma second_ok_ge: "second_ok3 a b \<Longrightarrow> 128 \<le> b" "second_ok4 a b \<Longrightarrow> 128 \<le> b" "is_cont b \<Longrightarrow> 128 \<le> b"
  by (auto simp: second_ok3_def second_ok4_def is_cont_def split: if_splits)

lemma utf8_next_keeps:
  "utf8_next a s = Some (cp, r) \<Longrightarrow> b \<in> set (a # s) \<Longrightarrow> b < 128 \<Longrightarrow> b = cp \<or> b \<in> set r"
  by (auto simp: utf8_next.simps split: if_splits list.splits dest!: second_ok_ge)

function utf8_decode :: "nat list \<Rightarrow> nat list option" where
  "utf8_decode [] = Some []"
| "utf8_decode (a # s) =
     (case utf8_next a s of
        Some (cp, r) \<Rightarrow> map_option (Cons cp) (utf8_decode r)
      | None \<Rightarrow> None)"
  by pat_completeness auto
termination
  by (relation "measure length") (auto dest: utf8_next_length simp: less_Suc_eq_le)

definition valid_utf8 :: "string \<Rightarrow> bool" where
  "valid_utf8 s \<longleftrightarrow> utf8_decode (codes s) \<noteq> None"

text \<open>\<open>char::is_control\<close>: general category Cc.\<close>

definition is_control :: "nat \<Rightarrow> bool" where
  "is_control cp \<longleftrightarrow> cp < 32 \<or> 127 \<le> cp \<and> cp < 160"

definition has_control :: "string \<Rightarrow> bool" where
  "has_control s = (case utf8_decode (codes s) of Some cps \<Rightarrow> list_ex is_control cps | None \<Rightarrow> False)"

lemma utf8_decode_ascii: "(\<forall>b \<in> set xs. b < 128) \<Longrightarrow> utf8_decode xs = Some xs"
  by (induction xs) auto

text \<open>A byte below 128 is a code point of its own wherever it occurs in well-formed text.\<close>

lemma utf8_decode_keeps_ascii:
  "utf8_decode xs = Some cps \<Longrightarrow> b \<in> set xs \<Longrightarrow> b < 128 \<Longrightarrow> b \<in> set cps"
proof (induction xs arbitrary: cps rule: utf8_decode.induct)
  case 1
  then show ?case by simp
next
  case (2 a s)
  then obtain cp r cps' where n: "utf8_next a s = Some (cp, r)"
    and d: "utf8_decode r = Some cps'" "cps = cp # cps'"
    by (auto split: option.splits)
  from utf8_next_keeps [OF n "2.prems"(2,3)] "2.IH" [OF n _ d(1) _ "2.prems"(3)] d(2)
  show ?case by auto
qed

lemma no_control_no_ascii_control:
  "valid_utf8 s \<Longrightarrow> \<not> has_control s \<Longrightarrow> c \<in> set s \<Longrightarrow> 32 \<le> (of_char c :: nat)"
proof (rule ccontr)
  assume v: "valid_utf8 s" and n: "\<not> has_control s" and c: "c \<in> set s" and "\<not> 32 \<le> (of_char c :: nat)"
  then have lt: "(of_char c :: nat) < 32" by simp
  from v obtain cps where d: "utf8_decode (codes s) = Some cps" by (auto simp: valid_utf8_def)
  from c have "of_char c \<in> set (codes s)" by (simp add: codes_def)
  with d lt have "of_char c \<in> set cps" by (auto dest: utf8_decode_keeps_ascii)
  with lt d n show False by (auto simp: has_control_def list_ex_iff is_control_def)
qed

subsection \<open>Trimming\<close>

text \<open>
  \<open>str::trim\<close> removes Unicode \<open>White_Space\<close> at both ends. \<open>ws_width\<close> is the number of
  bytes of the white-space character at the front of a byte sequence, 0 when there is none;
  \<open>ws_width_rev\<close> reads a reversed sequence.
\<close>

definition ws1 :: "nat \<Rightarrow> bool" where
  "ws1 a \<longleftrightarrow> 9 \<le> a \<and> a \<le> 13 \<or> a = 32"

definition ws2 :: "nat \<Rightarrow> nat \<Rightarrow> bool" where
  "ws2 a b \<longleftrightarrow> a = 194 \<and> (b = 133 \<or> b = 160)"

definition ws3 :: "nat \<Rightarrow> nat \<Rightarrow> nat \<Rightarrow> bool" where
  "ws3 a b c \<longleftrightarrow>
     a = 225 \<and> b = 154 \<and> c = 128
   \<or> a = 226 \<and> b = 128 \<and> (128 \<le> c \<and> c \<le> 138 \<or> c = 168 \<or> c = 169 \<or> c = 175)
   \<or> a = 226 \<and> b = 129 \<and> c = 159
   \<or> a = 227 \<and> b = 128 \<and> c = 128"

fun ws_width :: "nat list \<Rightarrow> nat" where
  "ws_width (a # b # c # s) = (if ws1 a then 1 else if ws2 a b then 2 else if ws3 a b c then 3 else 0)"
| "ws_width [a, b] = (if ws1 a then 1 else if ws2 a b then 2 else 0)"
| "ws_width [a] = (if ws1 a then 1 else 0)"
| "ws_width [] = 0"

fun ws_width_rev :: "nat list \<Rightarrow> nat" where
  "ws_width_rev (c # b # a # s) = (if ws1 c then 1 else if ws2 b c then 2 else if ws3 a b c then 3 else 0)"
| "ws_width_rev [b, a] = (if ws1 b then 1 else if ws2 a b then 2 else 0)"
| "ws_width_rev [a] = (if ws1 a then 1 else 0)"
| "ws_width_rev [] = 0"

fun trim_by :: "(nat list \<Rightarrow> nat) \<Rightarrow> string \<Rightarrow> string" where
  "trim_by w [] = []"
| "trim_by w (c # s) = (if w (codes (c # s)) = 0 then c # s else trim_by w (drop (w (codes (c # s)) - 1) s))"

definition trim :: "string \<Rightarrow> string" where
  "trim s = rev (trim_by ws_width_rev (rev (trim_by ws_width s)))"

text \<open>Text whose bytes are all above the space and below 128 is not changed by \<open>trim\<close>.\<close>

definition graphic :: "string \<Rightarrow> bool" where
  "graphic s \<longleftrightarrow> (\<forall>c \<in> set s. 33 \<le> (of_char c :: nat) \<and> (of_char c :: nat) < 128)"

lemma ws_width_graphic: "33 \<le> a \<Longrightarrow> a < 128 \<Longrightarrow> ws_width (a # s) = 0"
  by (cases "(a # s)" rule: ws_width.cases) (auto simp: ws1_def ws2_def ws3_def)

lemma ws_width_rev_graphic: "33 \<le> a \<Longrightarrow> a < 128 \<Longrightarrow> ws_width_rev (a # s) = 0"
  by (cases "(a # s)" rule: ws_width_rev.cases) (auto simp: ws1_def ws2_def ws3_def)

lemma trim_ends:
  assumes "s \<noteq> []" and "33 \<le> (of_char (hd s) :: nat)" "(of_char (hd s) :: nat) < 128"
    and "33 \<le> (of_char (last s) :: nat)" "(of_char (last s) :: nat) < 128"
  shows "trim s = s"
proof -
  have 1: "trim_by ws_width s = s"
    using assms(1-3) by (cases s) (simp_all add: ws_width_graphic)
  have "trim_by ws_width_rev (rev s) = rev s"
    using assms(1,4,5) by (cases s rule: rev_cases) (simp_all add: ws_width_rev_graphic)
  with 1 show ?thesis by (simp add: trim_def)
qed

lemma trim_graphic: "graphic s \<Longrightarrow> trim s = s"
  by (cases "s = []") (auto simp: graphic_def trim_ends, simp add: trim_def)

subsection \<open>Slicing and searching\<close>

text \<open>
  \<open>&s[i..j]\<close> panics when an end is past the string, when \<open>j < i\<close>, or when an end falls
  inside a multi-byte character.
\<close>

definition char_boundary :: "string \<Rightarrow> nat \<Rightarrow> bool" where
  "char_boundary s i \<longleftrightarrow> i = 0 \<or> i = length s \<or> (i < length s \<and> \<not> is_cont (of_char (s ! i)))"

definition str_slice :: "string \<Rightarrow> nat \<Rightarrow> nat \<Rightarrow> string may_panic" where
  "str_slice s i j =
     (if i \<le> j \<and> char_boundary s i \<and> char_boundary s j then Returns (take (j - i) (drop i s)) else Panics)"

definition starts_with :: "string \<Rightarrow> string \<Rightarrow> bool" where
  "starts_with s p \<longleftrightarrow> take (length p) s = p"

text \<open>\<open>str::replace\<close> with a non-empty pattern: left to right, without overlaps.\<close>

fun replace_str :: "string \<Rightarrow> string \<Rightarrow> string \<Rightarrow> string" where
  "replace_str pat to [] = []"
| "replace_str pat to (c # s) =
     (if pat \<noteq> [] \<and> starts_with (c # s) pat
      then to @ replace_str pat to (drop (length pat - 1) s)
      else c # replace_str pat to s)"

lemma char_boundary_ascii:
  assumes "\<forall>c \<in> set s. (of_char c :: nat) < 128" and "i \<le> length s"
  shows "char_boundary s i"
proof (cases "i < length s")
  case True
  then have "s ! i \<in> set s" by (rule nth_mem)
  with assms(1) have "(of_char (s ! i) :: nat) < 128" by blast
  with True show ?thesis by (simp add: char_boundary_def is_cont_def)
next
  case False
  with assms(2) show ?thesis by (simp add: char_boundary_def)
qed

lemma str_slice_ascii:
  "\<forall>c \<in> set s. (of_char c :: nat) < 128 \<Longrightarrow> i \<le> j \<Longrightarrow> j \<le> length s \<Longrightarrow>
   str_slice s i j = Returns (take (j - i) (drop i s))"
  by (simp add: str_slice_def char_boundary_ascii)

text \<open>Text without the pattern's first character is left alone.\<close>

lemma replace_str_absent: "pat \<noteq> [] \<Longrightarrow> hd pat \<notin> set s \<Longrightarrow> replace_str pat to s = s"
  by (induction s) (auto simp: starts_with_def neq_Nil_conv)

lemma replace_str_whole [simp]: "pat \<noteq> [] \<Longrightarrow> replace_str pat to pat = to"
  by (cases pat) (simp_all add: starts_with_def)

subsection \<open>Hexadecimal\<close>

definition hex_char :: "nat \<Rightarrow> char" where
  "hex_char d = (if d < 10 then char_of (48 + d) else char_of (87 + d))"

definition hex_val :: "char \<Rightarrow> nat option" where
  "hex_val c =
     (let n = of_char c in
      if 48 \<le> n \<and> n \<le> 57 then Some (n - 48)
      else if 97 \<le> n \<and> n \<le> 102 then Some (n - 87)
      else if 65 \<le> n \<and> n \<le> 70 then Some (n - 55)
      else None)"

text \<open>
  \<open>u8::from_str_radix(s, 16)\<close>: a single sign is an error, a leading plus is dropped, and a
  value above 255 is an error.
\<close>

fun hex_digits :: "nat \<Rightarrow> string \<Rightarrow> nat option" where
  "hex_digits acc [] = Some acc"
| "hex_digits acc (c # s) =
     (case hex_val c of
        None \<Rightarrow> None
      | Some d \<Rightarrow> if 16 * acc + d > 255 then None else hex_digits (16 * acc + d) s)"

fun u8_from_str_radix16 :: "string \<Rightarrow> nat option" where
  "u8_from_str_radix16 [] = None"
| "u8_from_str_radix16 (c # s) =
     (if (c = CHR ''+'' \<or> c = CHR ''-'') \<and> s = [] then None
      else if c = CHR ''+'' then hex_digits 0 s
      else hex_digits 0 (c # s))"

lemma of_char_hex_char: "d < 16 \<Longrightarrow> (of_char (hex_char d) :: nat) = (if d < 10 then 48 + d else 87 + d)"
  by (simp add: hex_char_def take_bit_nat_eq_self)

lemma hex_val_hex_char [simp]: "d < 16 \<Longrightarrow> hex_val (hex_char d) = Some d"
  by (simp add: hex_val_def of_char_hex_char)

lemma hex_val_less: "hex_val c = Some d \<Longrightarrow> d < 16"
  by (auto simp: hex_val_def Let_def split: if_splits)

lemma hex_char_graphic: "d < 16 \<Longrightarrow> 33 \<le> (of_char (hex_char d) :: nat) \<and> (of_char (hex_char d) :: nat) < 128"
  by (simp add: of_char_hex_char)

lemma hex_char_not_plus: "d < 16 \<Longrightarrow> hex_char d \<noteq> CHR ''+''"
  using of_char_hex_char [of d] by (auto split: if_splits)

lemma u8_from_str_radix16_pair [simp]:
  "h < 16 \<Longrightarrow> l < 16 \<Longrightarrow> u8_from_str_radix16 [hex_char h, hex_char l] = Some (16 * h + l)"
  by (simp add: hex_char_not_plus)

lemma hex_digits_less: "acc < 256 \<Longrightarrow> hex_digits acc t = Some n \<Longrightarrow> n < 256"
  by (induction acc t rule: hex_digits.induct) (auto split: option.splits if_splits)

lemma u8_from_str_radix16_less: "u8_from_str_radix16 s = Some n \<Longrightarrow> n < 256"
  by (cases s) (auto split: if_splits simp del: hex_digits.simps dest: hex_digits_less [rotated])

declare u8_from_str_radix16.simps [simp del]

text \<open>\<open>to_lowercase\<close> on ASCII text.\<close>

definition ascii_lower :: "char \<Rightarrow> char" where
  "ascii_lower c = (let n = (of_char c :: nat) in if 65 \<le> n \<and> n \<le> 90 then char_of (n + 32) else c)"

lemma hex_val_lower: "hex_val c = Some d \<Longrightarrow> ascii_lower c = hex_char d"
proof -
  assume "hex_val c = Some d"
  moreover have "char_of (of_char c :: nat) = c" by simp
  ultimately show ?thesis
    by (auto simp: hex_val_def ascii_lower_def hex_char_def Let_def simp del: char_of_char split: if_splits)
qed

text \<open>A pair of characters without a sign that reads as a byte is its lower-cased digits.\<close>

lemma u8_pair_digits:
  assumes "u8_from_str_radix16 [a, b] = Some n" and "a \<noteq> CHR ''+''"
  obtains h l where "h < 16" "l < 16" "n = 16 * h + l" "ascii_lower a = hex_char h" "ascii_lower b = hex_char l"
proof -
  from assms obtain h l where "hex_val a = Some h" "hex_val b = Some l" "n = 16 * h + l"
    by (auto simp: u8_from_str_radix16.simps split: option.splits if_splits)
  then show thesis using that hex_val_less hex_val_lower by blast
qed

end
