(* ===== verification/Interfaces.thy ===== *)
theory Interfaces
  imports Prelude
begin

text \<open>
  The contracts that several components share, as locales; each is interpreted on the model's
  own operations in the theory of the component that provides them.

  \<^item> \<open>codec\<close> and \<open>canonical_codec\<close>: an encoder with a decoder (packets, client
    identifiers, little-endian integers);
  \<^item> \<open>ttl_table\<close>: a table whose entries lapse with time and a purge that drops lapsed
    entries (nonces, seen HELLOs, rate-limit windows, cooldowns, active addresses);
  \<^item> \<open>capped_table\<close>: a table that refuses new keys when it is full (rate limiter, blacklist,
    active addresses, leases);
  \<^item> \<open>token_table\<close>: a table of tokens that an operation takes at most once for each time
    one was put (nonces, leases);
  \<^item> \<open>simulation\<close>: a system whose steps are steps of an abstract one (the server's tasks and the
    gatekeeper).
\<close>

subsection \<open>Encoders and decoders\<close>

locale codec =
  fixes wf :: "'a \<Rightarrow> bool"
    and enc :: "'a \<Rightarrow> 'b"
    and dec :: "'b \<Rightarrow> 'e + 'a"
  assumes dec_enc: "wf x \<Longrightarrow> dec (enc x) = Inr x"
begin

lemma enc_inj: "wf x \<Longrightarrow> wf y \<Longrightarrow> enc x = enc y \<longleftrightarrow> x = y"
  by (metis dec_enc sum.inject(2))

end

locale canonical_codec = codec +
  assumes enc_dec: "dec b = Inr x \<Longrightarrow> wf x \<and> enc x = b"
begin

lemma dec_iff: "dec b = Inr x \<longleftrightarrow> wf x \<and> b = enc x"
  using dec_enc enc_dec by blast

lemma dec_inj: "dec b = Inr x \<Longrightarrow> dec c = Inr x \<Longrightarrow> b = c"
  by (metis enc_dec)

end

subsection \<open>Tables with expiry\<close>

text \<open>What a table shows of an entry that may have lapsed.\<close>

definition live_at :: "('v \<Rightarrow> bool) \<Rightarrow> 'v option \<Rightarrow> 'v option" where
  "live_at P x = (case x of Some v \<Rightarrow> if P v then Some v else None | None \<Rightarrow> None)"

lemma live_at_simps [simp]:
  "live_at P None = None"
  "P v \<Longrightarrow> live_at P (Some v) = Some v"
  "\<not> P v \<Longrightarrow> live_at P (Some v) = None"
  by (simp_all add: live_at_def)

lemma live_at_eq_Some: "live_at P x = Some v \<longleftrightarrow> x = Some v \<and> P v"
  by (auto simp: live_at_def split: option.splits)

lemma map_of_retain_live: "hm_ok m \<Longrightarrow> map_of (hm_retain (\<lambda>_. P) m) k = live_at P (map_of m k)"
  by (simp add: map_of_hm_retain live_at_def)

locale ttl_table =
  fixes inv :: "'s \<Rightarrow> bool"
    and view :: "'s \<Rightarrow> 'k \<Rightarrow> 'v option"
    and live :: "'s \<Rightarrow> 't::linorder \<Rightarrow> 'v \<Rightarrow> bool"
    and purge :: "'t \<Rightarrow> 's \<Rightarrow> 's"
  assumes inv_purge: "inv s \<Longrightarrow> inv (purge t s)"
    and view_purge: "inv s \<Longrightarrow> view (purge t s) k = live_at (live s t) (view s k)"
    and live_purge: "live (purge t s) = live s"
    and live_antimono: "t \<le> t' \<Longrightarrow> live s t' v \<Longrightarrow> live s t v"
begin

lemma purged_live: "inv s \<Longrightarrow> view (purge t s) k = Some v \<Longrightarrow> live s t v"
  by (simp add: view_purge live_at_eq_Some)

lemma purge_invisible:
  "inv s \<Longrightarrow> t \<le> t' \<Longrightarrow> live_at (live s t') (view (purge t s) k) = live_at (live s t') (view s k)"
  by (auto simp: view_purge live_at_def split: option.splits dest: live_antimono)

text \<open>Any number of purges before a query does not change what the query shows.\<close>

lemma purges_invisible:
  "inv s \<Longrightarrow> \<forall>t \<in> set ts. t \<le> t' \<Longrightarrow>
   live_at (live s t') (view (fold purge ts s) k) = live_at (live s t') (view s k)"
proof (induction ts arbitrary: s)
  case Nil
  then show ?case by simp
next
  case (Cons t ts)
  then have "live_at (live (purge t s) t') (view (fold purge ts (purge t s)) k) =
      live_at (live (purge t s) t') (view (purge t s) k)"
    by (intro Cons.IH) (auto intro: inv_purge)
  with Cons.prems show ?case by (simp add: live_purge purge_invisible)
qed

end

subsection \<open>Tables with a capacity\<close>

locale capped_table =
  fixes inv :: "'s \<Rightarrow> bool"
    and size_of :: "'s \<Rightarrow> nat"
    and cap :: "'s \<Rightarrow> nat"
    and step :: "'o \<Rightarrow> 's \<Rightarrow> 's"
  assumes inv_step: "inv s \<Longrightarrow> inv (step x s)"
    and cap_step: "cap (step x s) = cap s"
    and size_step: "inv s \<Longrightarrow> size_of (step x s) \<le> max (size_of s) (cap s)"
begin

lemma run_inv: "inv s \<Longrightarrow> inv (fold step xs s)"
  by (induction xs arbitrary: s) (auto intro: inv_step)

lemma run_cap: "cap (fold step xs s) = cap s"
  by (induction xs arbitrary: s) (auto simp: cap_step)

lemma run_bounded: "inv s \<Longrightarrow> size_of s \<le> cap s \<Longrightarrow> size_of (fold step xs s) \<le> cap s"
proof (induction xs arbitrary: s)
  case Nil
  then show ?case by simp
next
  case (Cons x xs)
  from Cons.prems size_step [of s x] have "size_of (step x s) \<le> cap (step x s)"
    by (simp add: cap_step)
  with Cons.prems have "size_of (fold step xs (step x s)) \<le> cap (step x s)"
    by (intro Cons.IH) (auto intro: inv_step)
  then show ?case by (simp add: cap_step)
qed

end

subsection \<open>Tables of tokens\<close>

text \<open>How often a run takes, and puts, the token \<open>n\<close>.\<close>

fun count_takes :: "('o \<Rightarrow> 's \<Rightarrow> 's) \<Rightarrow> ('o \<Rightarrow> 's \<Rightarrow> 'n \<Rightarrow> bool) \<Rightarrow> 'n \<Rightarrow> 's \<Rightarrow> 'o list \<Rightarrow> nat" where
  "count_takes step takes n s [] = 0"
| "count_takes step takes n s (x # xs) =
     (if takes x s n then 1 else 0) + count_takes step takes n (step x s) xs"

definition count_puts :: "('o \<Rightarrow> 'n \<Rightarrow> bool) \<Rightarrow> 'n \<Rightarrow> 'o list \<Rightarrow> nat" where
  "count_puts puts n xs = length (filter (\<lambda>x. puts x n) xs)"

lemma count_puts_simps [simp]:
  "count_puts puts n [] = 0"
  "count_puts puts n (x # xs) = (if puts x n then Suc (count_puts puts n xs) else count_puts puts n xs)"
  by (simp_all add: count_puts_def)

locale token_table =
  fixes inv :: "'s \<Rightarrow> bool"
    and has :: "'s \<Rightarrow> 'n \<Rightarrow> bool"
    and step :: "'o \<Rightarrow> 's \<Rightarrow> 's"
    and takes :: "'o \<Rightarrow> 's \<Rightarrow> 'n \<Rightarrow> bool"
    and puts :: "'o \<Rightarrow> 'n \<Rightarrow> bool"
  assumes inv_step: "inv s \<Longrightarrow> inv (step x s)"
    and take_has: "inv s \<Longrightarrow> takes x s n \<Longrightarrow> has s n"
    and take_clears: "inv s \<Longrightarrow> takes x s n \<Longrightarrow> \<not> has (step x s) n"
    and has_step: "inv s \<Longrightarrow> has (step x s) n \<Longrightarrow> has s n \<or> puts x n"
begin

text \<open>A run takes a token at most once for each time it was put, and once more if it was there.\<close>

lemma takes_bounded:
  "inv s \<Longrightarrow> count_takes step takes n s xs \<le> count_puts puts n xs + (if has s n then 1 else 0)"
proof (induction xs arbitrary: s)
  case Nil
  then show ?case by simp
next
  case (Cons x xs)
  from Cons.prems have "inv (step x s)" by (rule inv_step)
  then have "count_takes step takes n (step x s) xs \<le>
      count_puts puts n xs + (if has (step x s) n then 1 else 0)"
    by (rule Cons.IH)
  with Cons.prems show ?case
    using take_has [of s x n] take_clears [of s x n] has_step [of s x n] by (auto split: if_splits)
qed

lemma not_taken_again: "inv s \<Longrightarrow> \<not> has s n \<Longrightarrow> count_puts puts n xs = 0 \<Longrightarrow> count_takes step takes n s xs = 0"
  using takes_bounded [of s n xs] by simp

end

subsection \<open>Simulations\<close>

text \<open>Runs of a labelled step relation.\<close>

inductive steps :: "('c \<Rightarrow> 'l \<Rightarrow> 'c \<Rightarrow> bool) \<Rightarrow> 'c \<Rightarrow> 'l list \<Rightarrow> 'c \<Rightarrow> bool" for R where
  no_step: "steps R c [] c"
| more_steps: "steps R c ls c' \<Longrightarrow> R c' l c'' \<Longrightarrow> steps R c (ls @ [l]) c''"

locale simulation =
  fixes cstep :: "'c \<Rightarrow> 'l \<Rightarrow> 'c \<Rightarrow> bool"
    and astep :: "'a \<Rightarrow> 'e \<Rightarrow> 'a \<Rightarrow> bool"
    and abs :: "'c \<Rightarrow> 'a"
    and ev :: "'l \<Rightarrow> 'e"
    and inv :: "'c \<Rightarrow> bool"
  assumes inv_step: "inv c \<Longrightarrow> cstep c l c' \<Longrightarrow> inv c'"
    and sim_step: "inv c \<Longrightarrow> cstep c l c' \<Longrightarrow> astep (abs c) (ev l) (abs c')"
begin

lemma sim_run: "steps cstep c ls c' \<Longrightarrow> inv c \<Longrightarrow> steps astep (abs c) (map ev ls) (abs c') \<and> inv c'"
proof (induction rule: steps.induct)
  case no_step
  then show ?case by (simp add: steps.no_step)
next
  case (more_steps c ls c' l c'')
  then show ?case using inv_step [of c' l c''] sim_step [of c' l c''] by (auto intro: steps.more_steps)
qed

end

end
