(* ===== verification/Protocol.thy ===== *)
theory Protocol
  imports Rust_Text Interfaces
begin

unbundle bit_operations_syntax

text \<open>
  The wire protocol, \<open>signedpulse-common/src/protocol.rs\<close>: client identifiers, the four
  packets, the byte reader, \<open>Packet::encode\<close> and \<open>Packet::decode\<close>, and the three
  canonical signing payloads. Fixed arrays are byte lists whose length \<open>wf_packet\<close> states;
  an \<open>i64\<close> is an integer in range and a \<open>u32\<close> a natural number below \<open>2 ^ 32\<close>.
\<close>

subsection \<open>Constants and errors\<close>

definition PROTOCOL_NAME :: string where "PROTOCOL_NAME = ''signedpulse''"
definition PROTOCOL_VERSION :: byte where "PROTOCOL_VERSION = 2"
definition MAGIC :: byte where "MAGIC = 0x5A"
definition TYPE_HELLO :: byte where "TYPE_HELLO = 0"
definition TYPE_CHALLENGE :: byte where "TYPE_CHALLENGE = 1"
definition TYPE_RESPONSE :: byte where "TYPE_RESPONSE = 2"
definition TYPE_BYE :: byte where "TYPE_BYE = 3"
definition CLIENT_ID_LEN :: nat where "CLIENT_ID_LEN = 32"
definition HELLO_NONCE_LEN :: nat where "HELLO_NONCE_LEN = 16"
definition CHALLENGE_NONCE_LEN :: nat where "CHALLENGE_NONCE_LEN = 32"
definition SIG_LEN :: nat where "SIG_LEN = 64"

lemmas protocol_consts =
  PROTOCOL_VERSION_def MAGIC_def TYPE_HELLO_def TYPE_CHALLENGE_def TYPE_RESPONSE_def TYPE_BYE_def
  CLIENT_ID_LEN_def HELLO_NONCE_LEN_def CHALLENGE_NONCE_LEN_def SIG_LEN_def

datatype protocol_error =
    Truncated
  | BadMagic
  | WrongVersion byte
  | UnknownType byte
  | TrailingBytes
  | BadClientIdHex

subsection \<open>Client identifiers\<close>

datatype client_id = ClientId (id_bytes: bytes)

definition wf_client_id :: "client_id \<Rightarrow> bool" where
  "wf_client_id c \<longleftrightarrow> length (id_bytes c) = CLIENT_ID_LEN"

fun hex_pairs :: "bytes \<Rightarrow> string" where
  "hex_pairs [] = []"
| "hex_pairs (b # bs) = hex_char (unat (drop_bit 4 b)) # hex_char (unat (b AND 0xf)) # hex_pairs bs"

definition to_hex :: "client_id \<Rightarrow> string" where
  "to_hex c = hex_pairs (id_bytes c)"

text \<open>
  The loop of \<open>from_hex\<close>: \<open>k\<close> bytes are still to be read, the next one from the slice at
  \<open>2 * i\<close>. The slice is taken before the digits are looked at, so a character boundary in
  the wrong place panics.
\<close>

fun from_hex_loop :: "string \<Rightarrow> nat \<Rightarrow> nat \<Rightarrow> (protocol_error, bytes) res may_panic" where
  "from_hex_loop s i 0 = Returns (Inr [])"
| "from_hex_loop s i (Suc k) =
     (case str_slice s (2 * i) (2 * i + 2) of
        Panics \<Rightarrow> Panics
      | Returns t \<Rightarrow>
          (case u8_from_str_radix16 t of
             None \<Rightarrow> Returns (Inl BadClientIdHex)
           | Some n \<Rightarrow>
               (case from_hex_loop s (Suc i) k of
                  Panics \<Rightarrow> Panics
                | Returns (Inl e) \<Rightarrow> Returns (Inl e)
                | Returns (Inr bs) \<Rightarrow> Returns (Inr (word_of_nat n # bs)))))"

definition from_hex :: "string \<Rightarrow> (protocol_error, client_id) res may_panic" where
  "from_hex s0 =
     (let s = trim s0 in
      if length s \<noteq> CLIENT_ID_LEN * 2 then Returns (Inl BadClientIdHex)
      else case from_hex_loop s 0 CLIENT_ID_LEN of
             Panics \<Rightarrow> Panics
           | Returns (Inl e) \<Rightarrow> Returns (Inl e)
           | Returns (Inr out) \<Rightarrow> Returns (Inr (ClientId out)))"

subsection \<open>Packets\<close>

record hello =
  h_client_id :: client_id
  h_timestamp :: int
  h_nonce :: bytes
  h_signature :: bytes

record challenge =
  c_client_id :: client_id
  c_nonce :: bytes
  c_expires_at :: int

record response =
  r_client_id :: client_id
  r_nonce :: bytes
  r_interval :: nat
  r_param :: "bytes option"
  r_signature :: bytes

record bye =
  b_client_id :: client_id
  b_nonce :: bytes
  b_interval :: nat
  b_param :: "bytes option"
  b_signature :: bytes

datatype packet = Hello hello | Challenge challenge | Response response | Bye bye

subsection \<open>Little-endian integers\<close>

fun le_bytes :: "nat \<Rightarrow> nat \<Rightarrow> bytes" where
  "le_bytes 0 n = []"
| "le_bytes (Suc k) n = word_of_nat n # le_bytes k (n div 256)"

fun le_val :: "bytes \<Rightarrow> nat" where
  "le_val [] = 0"
| "le_val (b # bs) = unat b + 256 * le_val bs"

definition i64_to_le :: "int \<Rightarrow> bytes" where
  "i64_to_le x = le_bytes 8 (nat (x mod 2 ^ 64))"

definition i64_from_le :: "bytes \<Rightarrow> int" where
  "i64_from_le bs = (let n = int (le_val bs) in if n < 2 ^ 63 then n else n - 2 ^ 64)"

subsection \<open>Encoding\<close>

definition header :: "byte \<Rightarrow> bytes" where
  "header t = [MAGIC, (push_bit 4 PROTOCOL_VERSION) OR (t AND 0x0f)]"

definition param_field :: "bytes option \<Rightarrow> bytes" where
  "param_field p =
     (let param = (case p of Some b \<Rightarrow> b | None \<Rightarrow> []) in le_bytes 2 (length param) @ param)"

fun encode :: "packet \<Rightarrow> bytes" where
  "encode (Hello h) =
     header TYPE_HELLO @ id_bytes (h_client_id h) @ i64_to_le (h_timestamp h) @ h_nonce h @ h_signature h"
| "encode (Challenge c) =
     header TYPE_CHALLENGE @ id_bytes (c_client_id c) @ c_nonce c @ i64_to_le (c_expires_at c)"
| "encode (Response r) =
     header TYPE_RESPONSE @ id_bytes (r_client_id r) @ r_nonce r @ le_bytes 4 (r_interval r) @
     param_field (r_param r) @ r_signature r"
| "encode (Bye b) =
     header TYPE_BYE @ id_bytes (b_client_id b) @ b_nonce b @ le_bytes 4 (b_interval b) @
     param_field (b_param b) @ b_signature b"

subsection \<open>The byte reader\<close>

text \<open>
  \<open>Reader::take\<close> fails when \<open>pos + n\<close> overflows a \<open>usize\<close> and when it is past the end
  of the buffer, both times with \<open>Truncated\<close>; a buffer is shorter than \<open>usize::MAX\<close>, so
  the second test covers the first.
\<close>

record reader =
  rd_buf :: bytes
  rd_pos :: nat

definition rd_new :: "bytes \<Rightarrow> reader" where
  "rd_new buf = \<lparr>rd_buf = buf, rd_pos = 0\<rparr>"

definition rd_take :: "nat \<Rightarrow> reader \<Rightarrow> (protocol_error, bytes \<times> reader) res" where
  "rd_take n r =
     (let e = rd_pos r + n in
      if e \<le> length (rd_buf r)
      then Inr (take n (drop (rd_pos r) (rd_buf r)), r\<lparr>rd_pos := e\<rparr>)
      else Inl Truncated)"

definition rd_u8 :: "reader \<Rightarrow> (protocol_error, byte \<times> reader) res" where
  "rd_u8 r = res_bind (rd_take 1 r) (\<lambda>(b, r). Inr (b ! 0, r))"

definition rd_u16 :: "reader \<Rightarrow> (protocol_error, nat \<times> reader) res" where
  "rd_u16 r = res_bind (rd_take 2 r) (\<lambda>(b, r). Inr (le_val b, r))"

definition rd_u32 :: "reader \<Rightarrow> (protocol_error, nat \<times> reader) res" where
  "rd_u32 r = res_bind (rd_take 4 r) (\<lambda>(b, r). Inr (le_val b, r))"

definition rd_i64 :: "reader \<Rightarrow> (protocol_error, int \<times> reader) res" where
  "rd_i64 r = res_bind (rd_take 8 r) (\<lambda>(b, r). Inr (i64_from_le b, r))"

definition rd_is_empty :: "reader \<Rightarrow> bool" where
  "rd_is_empty r \<longleftrightarrow> rd_pos r = length (rd_buf r)"

subsection \<open>Decoding\<close>

definition rd_hello :: "reader \<Rightarrow> (protocol_error, packet \<times> reader) res" where
  "rd_hello r =
     res_bind (rd_take CLIENT_ID_LEN r) (\<lambda>(cid, r).
     res_bind (rd_i64 r) (\<lambda>(ts, r).
     res_bind (rd_take HELLO_NONCE_LEN r) (\<lambda>(nonce, r).
     res_bind (rd_take SIG_LEN r) (\<lambda>(sig, r).
     Inr (Hello \<lparr>h_client_id = ClientId cid, h_timestamp = ts, h_nonce = nonce, h_signature = sig\<rparr>, r)))))"

definition rd_challenge :: "reader \<Rightarrow> (protocol_error, packet \<times> reader) res" where
  "rd_challenge r =
     res_bind (rd_take CLIENT_ID_LEN r) (\<lambda>(cid, r).
     res_bind (rd_take CHALLENGE_NONCE_LEN r) (\<lambda>(nonce, r).
     res_bind (rd_i64 r) (\<lambda>(e, r).
     Inr (Challenge \<lparr>c_client_id = ClientId cid, c_nonce = nonce, c_expires_at = e\<rparr>, r))))"

text \<open>The RESPONSE and BYE arms read the same fields in the same order.\<close>

definition rd_proof_body ::
  "reader \<Rightarrow> (protocol_error, (client_id \<times> bytes \<times> nat \<times> bytes option \<times> bytes) \<times> reader) res" where
  "rd_proof_body r =
     res_bind (rd_take CLIENT_ID_LEN r) (\<lambda>(cid, r).
     res_bind (rd_take CHALLENGE_NONCE_LEN r) (\<lambda>(nonce, r).
     res_bind (rd_u32 r) (\<lambda>(interval, r).
     res_bind (rd_u16 r) (\<lambda>(param_len, r).
     res_bind (rd_take param_len r) (\<lambda>(param_bytes, r).
     res_bind (rd_take SIG_LEN r) (\<lambda>(sig, r).
     Inr ((ClientId cid, nonce, interval, if param_len = 0 then None else Some param_bytes, sig), r)))))))"

definition rd_response :: "reader \<Rightarrow> (protocol_error, packet \<times> reader) res" where
  "rd_response r =
     res_bind (rd_proof_body r) (\<lambda>((cid, nonce, interval, param, sig), r).
     Inr (Response \<lparr>r_client_id = cid, r_nonce = nonce, r_interval = interval, r_param = param,
                     r_signature = sig\<rparr>, r))"

definition rd_bye :: "reader \<Rightarrow> (protocol_error, packet \<times> reader) res" where
  "rd_bye r =
     res_bind (rd_proof_body r) (\<lambda>((cid, nonce, interval, param, sig), r).
     Inr (Bye \<lparr>b_client_id = cid, b_nonce = nonce, b_interval = interval, b_param = param,
                b_signature = sig\<rparr>, r))"

definition decode :: "bytes \<Rightarrow> (protocol_error, packet) res" where
  "decode bs =
     res_bind (rd_u8 (rd_new bs)) (\<lambda>(magic, r).
     if magic \<noteq> MAGIC then Inl BadMagic
     else res_bind (rd_u8 r) (\<lambda>(vt, r).
     let version = drop_bit 4 vt; t = vt AND 0x0f in
     if version \<noteq> PROTOCOL_VERSION then Inl (WrongVersion version)
     else res_bind
       (if t = TYPE_HELLO then rd_hello r
        else if t = TYPE_CHALLENGE then rd_challenge r
        else if t = TYPE_RESPONSE then rd_response r
        else if t = TYPE_BYE then rd_bye r
        else Inl (UnknownType t)) (\<lambda>(packet, r).
     if \<not> rd_is_empty r then Inl TrailingBytes else Inr packet)))"

subsection \<open>Well-formed packets\<close>

definition wf_param :: "bytes option \<Rightarrow> bool" where
  "wf_param p \<longleftrightarrow> (case p of None \<Rightarrow> True | Some b \<Rightarrow> b \<noteq> [] \<and> length b < 2 ^ 16)"

fun wf_packet :: "packet \<Rightarrow> bool" where
  "wf_packet (Hello h) \<longleftrightarrow>
     wf_client_id (h_client_id h) \<and> in_i64 (h_timestamp h) \<and>
     length (h_nonce h) = HELLO_NONCE_LEN \<and> length (h_signature h) = SIG_LEN"
| "wf_packet (Challenge c) \<longleftrightarrow>
     wf_client_id (c_client_id c) \<and> length (c_nonce c) = CHALLENGE_NONCE_LEN \<and> in_i64 (c_expires_at c)"
| "wf_packet (Response r) \<longleftrightarrow>
     wf_client_id (r_client_id r) \<and> length (r_nonce r) = CHALLENGE_NONCE_LEN \<and>
     r_interval r < 2 ^ 32 \<and> wf_param (r_param r) \<and> length (r_signature r) = SIG_LEN"
| "wf_packet (Bye b) \<longleftrightarrow>
     wf_client_id (b_client_id b) \<and> length (b_nonce b) = CHALLENGE_NONCE_LEN \<and>
     b_interval b < 2 ^ 32 \<and> wf_param (b_param b) \<and> length (b_signature b) = SIG_LEN"

subsection \<open>Little-endian integers are faithful\<close>

lemma length_le_bytes [simp]: "length (le_bytes k n) = k"
  by (induction k arbitrary: n) auto

lemma le_val_le_bytes: "le_val (le_bytes k n) = n mod 256 ^ k"
  by (induction k arbitrary: n) (auto simp: unat_of_nat take_bit_eq_mod mod_mult2_eq)

lemma le_val_less: "le_val bs < 256 ^ length bs"
proof (induction bs)
  case Nil
  then show ?case by simp
next
  case (Cons b bs)
  then have "Suc (le_val bs) \<le> 256 ^ length bs" by simp
  with byte_less_256 [of b] have "unat b + 256 * le_val bs < 256 * 256 ^ length bs" by linarith
  then show ?case by simp
qed

lemma le_bytes_le_val: "le_bytes (length bs) (le_val bs) = bs"
proof (induction bs)
  case Nil
  then show ?case by simp
next
  case (Cons b bs)
  with byte_less_256 [of b] show ?case by (simp add: word_of_nat_eq_iff take_bit_eq_mod)
qed

lemma le_bytes_numeral [simp]:
  "le_bytes (numeral k) n = word_of_nat n # le_bytes (pred_numeral k) (n div 256)"
  by (simp only: numeral_eq_Suc [of k] le_bytes.simps)

interpretation le_codec: canonical_codec "\<lambda>n. n < 256 ^ k" "le_bytes k"
  "\<lambda>bs. if length bs = k then Inr (le_val bs) else Inl Truncated" for k
  by unfold_locales (auto simp: le_val_le_bytes le_val_less le_bytes_le_val split: if_splits)

lemma i64_from_to [simp]: "in_i64 x \<Longrightarrow> i64_from_le (i64_to_le x) = x"
proof -
  assume "in_i64 x"
  then have x: "- (2 ^ 63) \<le> x" "x < 2 ^ 63" by (auto simp: in_i64_def i64_min_def i64_max_def)
  have v: "int (le_val (i64_to_le x)) = x mod 2 ^ 64"
    unfolding i64_to_le_def by (subst le_val_le_bytes) (simp add: zmod_int)
  show ?thesis
  proof (cases "0 \<le> x")
    case True
    with x have "x mod 2 ^ 64 = x" by simp
    with v x show ?thesis by (simp add: i64_from_le_def)
  next
    case False
    have "x mod 2 ^ 64 = (x + 2 ^ 64) mod 2 ^ 64" by simp
    also have "\<dots> = x + 2 ^ 64" using False x by (intro mod_pos_pos_trivial) simp_all
    finally show ?thesis using v x False by (simp add: i64_from_le_def)
  qed
qed

lemma i64_from_le_range: "length bs = 8 \<Longrightarrow> in_i64 (i64_from_le bs)"
  using le_val_less [of bs]
  by (auto simp: i64_from_le_def Let_def in_i64_def i64_min_def i64_max_def)

lemma i64_to_from: "length bs = 8 \<Longrightarrow> i64_to_le (i64_from_le bs) = bs"
proof -
  assume l: "length bs = 8"
  have b: "int (le_val bs) < 2 ^ 64" using le_val_less [of bs] l by simp
  have "i64_from_le bs mod 2 ^ 64 = int (le_val bs) mod 2 ^ 64"
    by (simp add: i64_from_le_def Let_def)
  also have "\<dots> = int (le_val bs)" using b by (intro mod_pos_pos_trivial) simp_all
  finally have "nat (i64_from_le bs mod 2 ^ 64) = le_val bs" by simp
  with le_bytes_le_val [of bs] l show ?thesis by (simp only: i64_to_le_def)
qed

lemma length_i64_to_le [simp]: "length (i64_to_le x) = 8"
  unfolding i64_to_le_def by (rule length_le_bytes)

subsection \<open>Hexadecimal client identifiers\<close>

lemma length_hex_pairs [simp]: "length (hex_pairs bs) = 2 * length bs"
  by (induction bs) auto

lemma hex_pairs_graphic: "graphic (hex_pairs bs)"
  by (induction bs) (auto simp: graphic_def hex_char_graphic)

lemma hex_pairs_ascii: "c \<in> set (hex_pairs bs) \<Longrightarrow> (of_char c :: nat) < 128"
  using hex_pairs_graphic [of bs] by (auto simp: graphic_def)

lemma hex_pairs_no_newline [simp]: "CHR 0x0A \<notin> set (hex_pairs bs)"
  using hex_pairs_graphic [of bs] by (auto simp: graphic_def)

lemma hex_byte [simp]:
  "u8_from_str_radix16 [hex_char (unat (drop_bit 4 b)), hex_char (unat (b AND 0xf))] = Some (unat (b :: byte))"
proof -
  have "16 * unat (drop_bit 4 b) + unat (b AND 0xf) = unat b"
    by (simp only: unat_hi_nibble unat_lo_nibble) simp
  then show ?thesis by (simp only: u8_from_str_radix16_pair nibble_bounds)
qed

lemma from_hex_loop_pairs:
  assumes "\<forall>c \<in> set pre. (of_char c :: nat) < 128" and "length pre = 2 * i"
  shows "from_hex_loop (pre @ hex_pairs bs) i (length bs) = Returns (Inr bs)"
  using assms
proof (induction bs arbitrary: pre i)
  case Nil
  then show ?case by simp
next
  case (Cons b bs)
  let ?h = "hex_char (unat (drop_bit 4 b))" and ?l = "hex_char (unat (b AND 0xf))"
  let ?s = "pre @ hex_pairs (b # bs)"
  have "\<forall>c \<in> set ?s. (of_char c :: nat) < 128"
    using Cons.prems(1) hex_pairs_ascii [of _ "b # bs"] by (auto simp del: hex_pairs.simps)
  then have sl: "str_slice ?s (2 * i) (2 * i + 2) = Returns [?h, ?l]"
    using Cons.prems(2) by (subst str_slice_ascii) (auto simp del: length_hex_pairs simp: numeral_2_eq_2)
  have "from_hex_loop ((pre @ [?h, ?l]) @ hex_pairs bs) (Suc i) (length bs) = Returns (Inr bs)"
    using Cons.prems by (intro Cons.IH) (auto simp: hex_char_graphic)
  then have "from_hex_loop ?s (Suc i) (length bs) = Returns (Inr bs)" by simp
  with sl show ?case
    by (simp del: hex_pairs.simps)
qed

lemma from_hex_to_hex: "wf_client_id c \<Longrightarrow> from_hex (to_hex c) = Returns (Inr c)"
proof -
  assume w: "wf_client_id c"
  have "from_hex_loop ([] @ to_hex c) 0 (length (id_bytes c)) = Returns (Inr (id_bytes c))"
    unfolding to_hex_def by (rule from_hex_loop_pairs) simp_all
  with w show ?thesis
    by (simp add: from_hex_def trim_graphic to_hex_def hex_pairs_graphic wf_client_id_def Let_def)
qed

lemma to_hex_no_newline [simp]: "CHR 0x0A \<notin> set (to_hex c)"
  by (simp add: to_hex_def)

text \<open>Without a plus sign, the accepted text is the client's \<open>to_hex\<close> up to case.\<close>

lemma from_hex_loop_lower:
  "from_hex_loop s i k = Returns (Inr bs) \<Longrightarrow> CHR ''+'' \<notin> set s \<Longrightarrow> 2 * (i + k) \<le> length s \<Longrightarrow>
   map ascii_lower (take (2 * k) (drop (2 * i) s)) = hex_pairs bs"
proof (induction s i k arbitrary: bs rule: from_hex_loop.induct)
  case (1 s i)
  then show ?case by simp
next
  case (2 s i k)
  from "2.prems"(1) obtain t n cs where t: "str_slice s (2 * i) (2 * i + 2) = Returns t"
    "u8_from_str_radix16 t = Some n" "from_hex_loop s (Suc i) k = Returns (Inr cs)" "bs = word_of_nat n # cs"
    by (auto split: may_panic.splits option.splits sum.splits)
  let ?r = "drop (2 * i) s"
  have "2 \<le> length ?r" using "2.prems"(3) by simp
  then obtain a b r where r: "?r = a # b # r" by (cases ?r; cases "tl ?r") auto
  have "t = take 2 ?r" using t(1) by (simp add: str_slice_def split: if_splits)
  with r have ab: "t = [a, b]" by simp
  have "a \<in> set ?r" using r by simp
  then have "a \<noteq> CHR ''+''" using "2.prems"(2) by (auto dest: in_set_dropD)
  with t(2) ab obtain h l where hl: "h < 16" "l < 16" "n = 16 * h + l" "ascii_lower a = hex_char h" "ascii_lower b = hex_char l"
    by (auto elim: u8_pair_digits)
  have "drop (2 * Suc i) s = drop 2 ?r" by (simp add: add.commute)
  with r have r2: "drop (2 * Suc i) s = r" by simp
  have "map ascii_lower (take (2 * k) (drop (2 * Suc i) s)) = hex_pairs cs"
    using "2.IH" [OF t(1,2)] t(3) "2.prems" by simp
  moreover have "n < 256" "n div 16 = h" "n mod 16 = l" using hl(1-3) by simp_all
  moreover from this have "unat (word_of_nat n :: byte) = n" by (simp add: unat_of_nat take_bit_eq_mod)
  ultimately show ?case using r r2 hl(4,5) t(4) by (simp add: unat_hi_nibble unat_lo_nibble)
qed

lemma from_hex_lower:
  assumes "from_hex s = Returns (Inr c)" and "trim s = s" and "CHR ''+'' \<notin> set s"
  shows "map ascii_lower s = to_hex c"
proof -
  from assms obtain bs where "from_hex_loop s 0 CLIENT_ID_LEN = Returns (Inr bs)" "length s = CLIENT_ID_LEN * 2" "c = ClientId bs"
    by (auto simp: from_hex_def Let_def split: if_splits may_panic.splits sum.splits)
  with from_hex_loop_lower [of s 0 CLIENT_ID_LEN bs] assms(3) show ?thesis by (simp add: to_hex_def)
qed

lemma from_hex_loop_length: "from_hex_loop s i k = Returns (Inr bs) \<Longrightarrow> length bs = k"
  by (induction s i k arbitrary: bs rule: from_hex_loop.induct)
    (auto split: may_panic.splits option.splits sum.splits)

lemma from_hex_wf: "from_hex s = Returns (Inr c) \<Longrightarrow> wf_client_id c"
  by (auto simp: from_hex_def Let_def wf_client_id_def dest: from_hex_loop_length
      split: if_splits may_panic.splits sum.splits)

lemma hex_pairs_inj: "hex_pairs a = hex_pairs b \<Longrightarrow> a = b"
proof (induction a arbitrary: b)
  case Nil
  then show ?case by (cases b) simp_all
next
  case (Cons x a)
  then obtain y b' where b: "b = y # b'" by (cases b) auto
  have inj: "hex_char m = hex_char n \<Longrightarrow> m < 16 \<Longrightarrow> n < 16 \<Longrightarrow> m = n" for m n
    by (metis hex_val_hex_char option.inject)
  from Cons.prems b have "unat (drop_bit 4 x) = unat (drop_bit 4 y)" "unat (x AND 0xf) = unat (y AND 0xf)"
    by (auto intro!: inj)
  then have "drop_bit 4 x = drop_bit 4 y" "x AND 0xf = y AND 0xf" by (simp_all only: word_unat_eq_iff)
  then have "x = y" by (metis nibbles)
  with Cons b show ?case by simp
qed

lemma to_hex_inj [simp]: "to_hex c = to_hex d \<longleftrightarrow> c = d"
  by (auto simp: to_hex_def dest!: hex_pairs_inj intro: client_id.expand)

subsection \<open>What the reader consumes\<close>

definition rd_ok :: "reader \<Rightarrow> bool" where
  "rd_ok r \<longleftrightarrow> rd_pos r \<le> length (rd_buf r)"

definition rd_rest :: "reader \<Rightarrow> bytes" where
  "rd_rest r = drop (rd_pos r) (rd_buf r)"

definition consumes :: "reader \<Rightarrow> bytes \<Rightarrow> reader \<Rightarrow> bool" where
  "consumes r x r' \<longleftrightarrow> rd_ok r \<and> rd_ok r' \<and> rd_buf r' = rd_buf r \<and> rd_rest r = x @ rd_rest r'"

lemma rd_ok_new [simp]: "rd_ok (rd_new bs)" and rd_rest_new [simp]: "rd_rest (rd_new bs) = bs"
  by (simp_all add: rd_ok_def rd_rest_def rd_new_def)

lemma rd_is_empty_iff: "rd_ok r \<Longrightarrow> rd_is_empty r \<longleftrightarrow> rd_rest r = []"
  by (auto simp: rd_is_empty_def rd_ok_def rd_rest_def)

lemma consumes_ok: "consumes r x r' \<Longrightarrow> rd_ok r'"
  by (simp add: consumes_def)

lemma consumes_trans: "consumes r x r1 \<Longrightarrow> consumes r1 y r2 \<Longrightarrow> consumes r (x @ y) r2"
  by (simp add: consumes_def)

lemma rd_take_Inr: "rd_ok r \<Longrightarrow> rd_take n r = Inr (x, r') \<Longrightarrow> length x = n \<and> consumes r x r'"
  by (auto simp: rd_take_def consumes_def rd_ok_def rd_rest_def Let_def add.commute split: if_splits)
    (metis append_take_drop_id drop_drop)

lemma rd_take_consumes: "consumes r x r' \<Longrightarrow> rd_take (length x) r = Inr (x, r')"
proof -
  assume c: "consumes r x r'"
  then have rest: "drop (rd_pos r) (rd_buf r) = x @ rd_rest r'" and b: "rd_buf r' = rd_buf r"
    and ok: "rd_pos r \<le> length (rd_buf r)" "rd_pos r' \<le> length (rd_buf r)"
    by (auto simp: consumes_def rd_rest_def rd_ok_def)
  from rest have "length (rd_buf r) - rd_pos r = length x + (length (rd_buf r) - rd_pos r')"
    by (metis b length_append length_drop rd_rest_def)
  with ok have p: "rd_pos r' = rd_pos r + length x" by linarith
  then have "r' = r\<lparr>rd_pos := rd_pos r + length x\<rparr>" using b by simp
  with p ok rest show ?thesis by (simp add: rd_take_def)
qed

lemma consumes_exists:
  "rd_ok r \<Longrightarrow> rd_rest r = x @ y \<Longrightarrow> \<exists>r'. consumes r x r' \<and> rd_rest r' = y"
proof -
  assume ok: "rd_ok r" and rest: "rd_rest r = x @ y"
  from rest have l: "length x \<le> length (rd_buf r) - rd_pos r"
    by (metis length_append length_drop le_add1 rd_rest_def)
  let ?r = "r\<lparr>rd_pos := rd_pos r + length x\<rparr>"
  from rest have "rd_rest ?r = y"
    by (simp add: rd_rest_def add.commute flip: drop_drop)
  with ok rest l have "consumes r x ?r \<and> rd_rest ?r = y" by (simp add: consumes_def rd_ok_def)
  then show ?thesis by blast
qed

lemma consumes_append:
  assumes "consumes r (x @ y) r'"
  obtains r1 where "consumes r x r1" and "consumes r1 y r'"
proof -
  from assms obtain r1 where "consumes r x r1" "rd_rest r1 = y @ rd_rest r'"
    using consumes_exists [of r x "y @ rd_rest r'"] by (auto simp: consumes_def)
  with assms have "consumes r1 y r'" by (simp add: consumes_def)
  with \<open>consumes r x r1\<close> show ?thesis by (rule that)
qed

lemma rd_u8_Inr: "rd_ok r \<Longrightarrow> rd_u8 r = Inr (b, r') \<Longrightarrow> consumes r [b] r'"
  by (auto simp: rd_u8_def res_bind_eq_Inr length_Suc_conv dest!: rd_take_Inr)

lemma rd_u8_consumes: "consumes r [b] r' \<Longrightarrow> rd_u8 r = Inr (b, r')"
  using rd_take_consumes [of r "[b]" r'] by (simp add: rd_u8_def)

lemma rd_i64_Inr: "rd_ok r \<Longrightarrow> rd_i64 r = Inr (v, r') \<Longrightarrow> in_i64 v \<and> consumes r (i64_to_le v) r'"
  by (auto simp: rd_i64_def res_bind_eq_Inr i64_from_le_range i64_to_from dest!: rd_take_Inr)

lemma rd_i64_consumes: "in_i64 v \<Longrightarrow> consumes r (i64_to_le v) r' \<Longrightarrow> rd_i64 r = Inr (v, r')"
  using rd_take_consumes [of r "i64_to_le v" r'] by (simp add: rd_i64_def)

lemma rd_u32_Inr: "rd_ok r \<Longrightarrow> rd_u32 r = Inr (v, r') \<Longrightarrow> v < 2 ^ 32 \<and> consumes r (le_bytes 4 v) r'"
proof -
  assume ok: "rd_ok r" and "rd_u32 r = Inr (v, r')"
  then obtain b where t: "rd_take 4 r = Inr (b, r')" and v: "v = le_val b"
    by (auto simp: rd_u32_def res_bind_eq_Inr)
  from rd_take_Inr [OF ok t] le_val_less [of b] le_bytes_le_val [of b] v
  show ?thesis by (auto simp del: le_bytes_numeral)
qed

lemma rd_u32_consumes: "v < 2 ^ 32 \<Longrightarrow> consumes r (le_bytes 4 v) r' \<Longrightarrow> rd_u32 r = Inr (v, r')"
  using rd_take_consumes [of r "le_bytes 4 v" r']
  by (simp add: rd_u32_def le_val_le_bytes del: le_bytes_numeral)

lemma rd_u16_Inr: "rd_ok r \<Longrightarrow> rd_u16 r = Inr (v, r') \<Longrightarrow> v < 2 ^ 16 \<and> consumes r (le_bytes 2 v) r'"
proof -
  assume ok: "rd_ok r" and "rd_u16 r = Inr (v, r')"
  then obtain b where t: "rd_take 2 r = Inr (b, r')" and v: "v = le_val b"
    by (auto simp: rd_u16_def res_bind_eq_Inr)
  from rd_take_Inr [OF ok t] le_val_less [of b] le_bytes_le_val [of b] v
  show ?thesis by (auto simp del: le_bytes_numeral)
qed

lemma rd_u16_consumes: "v < 2 ^ 16 \<Longrightarrow> consumes r (le_bytes 2 v) r' \<Longrightarrow> rd_u16 r = Inr (v, r')"
  using rd_take_consumes [of r "le_bytes 2 v" r']
  by (simp add: rd_u16_def le_val_le_bytes del: le_bytes_numeral)

subsection \<open>Decoding inverts encoding, and accepts nothing else\<close>

fun body :: "packet \<Rightarrow> bytes" where
  "body (Hello h) = id_bytes (h_client_id h) @ i64_to_le (h_timestamp h) @ h_nonce h @ h_signature h"
| "body (Challenge c) = id_bytes (c_client_id c) @ c_nonce c @ i64_to_le (c_expires_at c)"
| "body (Response r) =
     id_bytes (r_client_id r) @ r_nonce r @ le_bytes 4 (r_interval r) @ param_field (r_param r) @ r_signature r"
| "body (Bye b) =
     id_bytes (b_client_id b) @ b_nonce b @ le_bytes 4 (b_interval b) @ param_field (b_param b) @ b_signature b"

fun packet_type :: "packet \<Rightarrow> byte" where
  "packet_type (Hello h) = TYPE_HELLO"
| "packet_type (Challenge c) = TYPE_CHALLENGE"
| "packet_type (Response r) = TYPE_RESPONSE"
| "packet_type (Bye b) = TYPE_BYE"

lemma encode_body: "encode p = header (packet_type p) @ body p"
  by (cases p) simp_all

lemma rd_hello_iff:
  assumes ok: "rd_ok r"
  shows "rd_hello r = Inr (p, r') \<longleftrightarrow> (\<exists>h. p = Hello h) \<and> wf_packet p \<and> consumes r (body p) r'"
proof
  assume "rd_hello r = Inr (p, r')"
  then obtain cid r1 ts r2 nonce r3 sig where
    1: "rd_take CLIENT_ID_LEN r = Inr (cid, r1)" and 2: "rd_i64 r1 = Inr (ts, r2)" and
    3: "rd_take HELLO_NONCE_LEN r2 = Inr (nonce, r3)" and 4: "rd_take SIG_LEN r3 = Inr (sig, r')" and
    p: "p = Hello \<lparr>h_client_id = ClientId cid, h_timestamp = ts, h_nonce = nonce, h_signature = sig\<rparr>"
    by (auto simp: rd_hello_def res_bind_eq_Inr)
  from rd_take_Inr [OF ok 1] have a: "length cid = CLIENT_ID_LEN" "consumes r cid r1" by auto
  from rd_i64_Inr [OF consumes_ok 2] a have b: "in_i64 ts" "consumes r1 (i64_to_le ts) r2" by auto
  from rd_take_Inr [OF consumes_ok 3] b have c: "length nonce = HELLO_NONCE_LEN" "consumes r2 nonce r3" by auto
  from rd_take_Inr [OF consumes_ok 4] c have d: "length sig = SIG_LEN" "consumes r3 sig r'" by auto
  from a b c d p show "(\<exists>h. p = Hello h) \<and> wf_packet p \<and> consumes r (body p) r'"
    by (auto simp: wf_client_id_def intro!: consumes_trans)
next
  assume "(\<exists>h. p = Hello h) \<and> wf_packet p \<and> consumes r (body p) r'"
  then obtain h where p: "p = Hello h" and w: "wf_packet p" and c: "consumes r (body p) r'" by auto
  from c p obtain r1 r2 r3 where 1: "consumes r (id_bytes (h_client_id h)) r1" and
    2: "consumes r1 (i64_to_le (h_timestamp h)) r2" and 3: "consumes r2 (h_nonce h) r3" and
    4: "consumes r3 (h_signature h) r'"
    by (auto elim!: consumes_append)
  from w p rd_take_consumes [OF 1] rd_i64_consumes [OF _ 2] rd_take_consumes [OF 3] rd_take_consumes [OF 4]
  show "rd_hello r = Inr (p, r')" by (simp add: rd_hello_def wf_client_id_def)
qed

lemma rd_challenge_iff:
  assumes ok: "rd_ok r"
  shows "rd_challenge r = Inr (p, r') \<longleftrightarrow> (\<exists>c. p = Challenge c) \<and> wf_packet p \<and> consumes r (body p) r'"
proof
  assume "rd_challenge r = Inr (p, r')"
  then obtain cid r1 nonce r2 e where
    1: "rd_take CLIENT_ID_LEN r = Inr (cid, r1)" and
    2: "rd_take CHALLENGE_NONCE_LEN r1 = Inr (nonce, r2)" and 3: "rd_i64 r2 = Inr (e, r')" and
    p: "p = Challenge \<lparr>c_client_id = ClientId cid, c_nonce = nonce, c_expires_at = e\<rparr>"
    by (auto simp: rd_challenge_def res_bind_eq_Inr)
  from rd_take_Inr [OF ok 1] have a: "length cid = CLIENT_ID_LEN" "consumes r cid r1" by auto
  from rd_take_Inr [OF consumes_ok 2] a have b: "length nonce = CHALLENGE_NONCE_LEN" "consumes r1 nonce r2" by auto
  from rd_i64_Inr [OF consumes_ok 3] b have c: "in_i64 e" "consumes r2 (i64_to_le e) r'" by auto
  from a b c p show "(\<exists>c. p = Challenge c) \<and> wf_packet p \<and> consumes r (body p) r'"
    by (auto simp: wf_client_id_def intro!: consumes_trans)
next
  assume "(\<exists>c. p = Challenge c) \<and> wf_packet p \<and> consumes r (body p) r'"
  then obtain ch where p: "p = Challenge ch" and w: "wf_packet p" and c: "consumes r (body p) r'" by auto
  from c p obtain r1 r2 where 1: "consumes r (id_bytes (c_client_id ch)) r1" and
    2: "consumes r1 (c_nonce ch) r2" and 3: "consumes r2 (i64_to_le (c_expires_at ch)) r'"
    by (auto elim!: consumes_append)
  from w p rd_take_consumes [OF 1] rd_take_consumes [OF 2] rd_i64_consumes [OF _ 3]
  show "rd_challenge r = Inr (p, r')" by (simp add: rd_challenge_def wf_client_id_def)
qed

lemma param_field_consumes:
  assumes "wf_param q" and "consumes r (param_field q) r'"
  obtains r1 m b where "rd_u16 r = Inr (m, r1)" and "rd_take m r1 = Inr (b, r')" and
    "(if m = 0 then None else Some b) = q"
proof -
  let ?b = "case q of Some b \<Rightarrow> b | None \<Rightarrow> []"
  from assms(2) obtain r1 where c: "consumes r (le_bytes 2 (length ?b)) r1" "consumes r1 ?b r'"
    by (auto simp: param_field_def Let_def simp del: le_bytes_numeral elim!: consumes_append)
  have l: "length ?b < 2 ^ 16" using assms(1) by (auto simp: wf_param_def split: option.splits)
  show ?thesis
  proof (rule that)
    show "rd_u16 r = Inr (length ?b, r1)" using l c(1) by (rule rd_u16_consumes)
    show "rd_take (length ?b) r1 = Inr (?b, r')" using c(2) by (rule rd_take_consumes)
    show "(if length ?b = 0 then None else Some ?b) = q"
      using assms(1) by (auto simp: wf_param_def split: option.splits)
  qed
qed

lemma rd_proof_body_Inr:
  assumes ok: "rd_ok r" and "rd_proof_body r = Inr ((cid, nonce, interval, param, sig), r')"
  shows "wf_client_id cid \<and> length nonce = CHALLENGE_NONCE_LEN \<and> interval < 2 ^ 32 \<and> wf_param param \<and>
    length sig = SIG_LEN \<and>
    consumes r (id_bytes cid @ nonce @ le_bytes 4 interval @ param_field param @ sig) r'"
proof -
  from assms(2) obtain i r1 r2 r3 m r4 b r5 where
    1: "rd_take CLIENT_ID_LEN r = Inr (i, r1)" and 2: "rd_take CHALLENGE_NONCE_LEN r1 = Inr (nonce, r2)" and
    3: "rd_u32 r2 = Inr (interval, r3)" and 4: "rd_u16 r3 = Inr (m, r4)" and
    5: "rd_take m r4 = Inr (b, r5)" and 6: "rd_take SIG_LEN r5 = Inr (sig, r')" and
    e: "cid = ClientId i" "param = (if m = 0 then None else Some b)"
    by (auto simp: rd_proof_body_def res_bind_eq_Inr)
  from rd_take_Inr [OF ok 1] have a: "length i = CLIENT_ID_LEN" "consumes r i r1" by auto
  from rd_take_Inr [OF consumes_ok 2] a have c2: "length nonce = CHALLENGE_NONCE_LEN" "consumes r1 nonce r2" by auto
  from rd_u32_Inr [OF consumes_ok 3] c2 have c3: "interval < 2 ^ 32" "consumes r2 (le_bytes 4 interval) r3" by auto
  from rd_u16_Inr [OF consumes_ok 4] c3 have c4: "m < 2 ^ 16" "consumes r3 (le_bytes 2 m) r4" by auto
  from rd_take_Inr [OF consumes_ok 5] c4 have c5: "length b = m" "consumes r4 b r5" by auto
  from rd_take_Inr [OF consumes_ok 6] c5 have c6: "length sig = SIG_LEN" "consumes r5 sig r'" by auto
  have pf: "consumes r3 (param_field param) r5"
  proof (cases "m = 0")
    case True
    with e c5 have "param_field param = le_bytes 2 m @ b" by (simp add: param_field_def)
    with consumes_trans [OF c4(2) c5(2)] show ?thesis by simp
  next
    case False
    with e c5 have "param_field param = le_bytes 2 m @ b" by (simp add: param_field_def)
    with consumes_trans [OF c4(2) c5(2)] show ?thesis by simp
  qed
  have "wf_param param" using e c4 c5 by (auto simp: wf_param_def)
  moreover have "consumes r (i @ nonce @ le_bytes 4 interval @ param_field param @ sig) r'"
    by (rule consumes_trans [OF a(2) consumes_trans [OF c2(2) consumes_trans [OF c3(2) consumes_trans [OF pf c6(2)]]]])
  ultimately show ?thesis using a c2 c3 c6 e by (simp add: wf_client_id_def)
qed

lemma rd_proof_body_consumes:
  assumes "consumes r (id_bytes cid @ nonce @ le_bytes 4 interval @ param_field param @ sig) r'"
    and "wf_client_id cid" "length nonce = CHALLENGE_NONCE_LEN" "interval < 2 ^ 32" "wf_param param"
    "length sig = SIG_LEN"
  shows "rd_proof_body r = Inr ((cid, nonce, interval, param, sig), r')"
proof -
  from assms(1) obtain r1 r2 r3 r5 where c: "consumes r (id_bytes cid) r1" "consumes r1 nonce r2"
    "consumes r2 (le_bytes 4 interval) r3" "consumes r3 (param_field param) r5" "consumes r5 sig r'"
    by (auto simp del: le_bytes_numeral elim!: consumes_append)
  from param_field_consumes [OF assms(5) c(4)] obtain r4 m b where
    "rd_u16 r3 = Inr (m, r4)" "rd_take m r4 = Inr (b, r5)" "(if m = 0 then None else Some b) = param" .
  then show ?thesis
    using rd_take_consumes [OF c(1)] rd_take_consumes [OF c(2)] rd_u32_consumes [OF assms(4) c(3)]
      rd_take_consumes [OF c(5)] assms(2,3,6)
    by (simp add: rd_proof_body_def wf_client_id_def)
qed

lemma rd_response_iff:
  assumes ok: "rd_ok r"
  shows "rd_response r = Inr (p, r') \<longleftrightarrow> (\<exists>x. p = Response x) \<and> wf_packet p \<and> consumes r (body p) r'"
proof
  assume "rd_response r = Inr (p, r')"
  then show "(\<exists>x. p = Response x) \<and> wf_packet p \<and> consumes r (body p) r'"
    using rd_proof_body_Inr [OF ok] by (auto simp: rd_response_def res_bind_eq_Inr simp del: le_bytes_numeral)
next
  assume "(\<exists>x. p = Response x) \<and> wf_packet p \<and> consumes r (body p) r'"
  then obtain x where p: "p = Response x" and w: "wf_packet p" and c: "consumes r (body p) r'" by auto
  from c p have "consumes r (id_bytes (r_client_id x) @ r_nonce x @ le_bytes 4 (r_interval x) @
      param_field (r_param x) @ r_signature x) r'" by (simp del: le_bytes_numeral)
  from rd_proof_body_consumes [OF this] w p show "rd_response r = Inr (p, r')"
    by (simp add: rd_response_def)
qed

lemma rd_bye_iff:
  assumes ok: "rd_ok r"
  shows "rd_bye r = Inr (p, r') \<longleftrightarrow> (\<exists>x. p = Bye x) \<and> wf_packet p \<and> consumes r (body p) r'"
proof
  assume "rd_bye r = Inr (p, r')"
  then show "(\<exists>x. p = Bye x) \<and> wf_packet p \<and> consumes r (body p) r'"
    using rd_proof_body_Inr [OF ok] by (auto simp: rd_bye_def res_bind_eq_Inr simp del: le_bytes_numeral)
next
  assume "(\<exists>x. p = Bye x) \<and> wf_packet p \<and> consumes r (body p) r'"
  then obtain x where p: "p = Bye x" and w: "wf_packet p" and c: "consumes r (body p) r'" by auto
  from c p have "consumes r (id_bytes (b_client_id x) @ b_nonce x @ le_bytes 4 (b_interval x) @
      param_field (b_param x) @ b_signature x) r'" by (simp del: le_bytes_numeral)
  from rd_proof_body_consumes [OF this] w p show "rd_bye r = Inr (p, r')"
    by (simp add: rd_bye_def)
qed

definition rd_body :: "byte \<Rightarrow> reader \<Rightarrow> (protocol_error, packet \<times> reader) res" where
  "rd_body t r =
     (if t = TYPE_HELLO then rd_hello r
      else if t = TYPE_CHALLENGE then rd_challenge r
      else if t = TYPE_RESPONSE then rd_response r
      else if t = TYPE_BYE then rd_bye r
      else Inl (UnknownType t))"

lemma rd_body_iff:
  assumes ok: "rd_ok r"
  shows "rd_body t r = Inr (p, r') \<longleftrightarrow> packet_type p = t \<and> wf_packet p \<and> consumes r (body p) r'"
  using rd_hello_iff [OF ok] rd_challenge_iff [OF ok] rd_response_iff [OF ok] rd_bye_iff [OF ok]
  by (cases p) (auto simp: rd_body_def protocol_consts simp del: body.simps wf_packet.simps)

lemma packet_type_nibble: "packet_type p AND 0xf = packet_type p"
  by (cases p) (simp_all add: protocol_consts)

lemma header_vt:
  "drop_bit 4 ((push_bit 4 PROTOCOL_VERSION) OR (packet_type p AND 0xf)) = PROTOCOL_VERSION"
  "((push_bit 4 PROTOCOL_VERSION) OR (packet_type p AND 0xf)) AND 0xf = packet_type p"
  by (cases p; simp add: protocol_consts)+

lemma decode_rd_body:
  "decode bs =
     res_bind (rd_u8 (rd_new bs)) (\<lambda>(magic, r).
     if magic \<noteq> MAGIC then Inl BadMagic
     else res_bind (rd_u8 r) (\<lambda>(vt, r).
     if drop_bit 4 vt \<noteq> PROTOCOL_VERSION then Inl (WrongVersion (drop_bit 4 vt))
     else res_bind (rd_body (vt AND 0x0f) r) (\<lambda>(packet, r).
     if \<not> rd_is_empty r then Inl TrailingBytes else Inr packet)))"
  by (simp only: decode_def rd_body_def Let_def)

lemma decode_encode_append:
  assumes w: "wf_packet p"
  shows "decode (encode p @ x) = (if x = [] then Inr p else Inl TrailingBytes)"
proof -
  let ?vt = "(push_bit 4 PROTOCOL_VERSION) OR (packet_type p AND 0xf)"
  let ?bs = "encode p @ x"
  have "rd_rest (rd_new ?bs) = ([MAGIC] @ [?vt] @ body p) @ x" by (simp add: header_def encode_body)
  from consumes_exists [OF rd_ok_new this]
  obtain r3 where "consumes (rd_new ?bs) ([MAGIC] @ [?vt] @ body p) r3" and e: "rd_rest r3 = x" by blast
  then obtain r1 r2 where c: "consumes (rd_new ?bs) [MAGIC] r1" "consumes r1 [?vt] r2" "consumes r2 (body p) r3"
    by (metis consumes_append)
  have "rd_body (packet_type p) r2 = Inr (p, r3)"
    using rd_body_iff [OF consumes_ok [OF c(2)]] w c(3) by simp
  with rd_u8_consumes [OF c(1)] rd_u8_consumes [OF c(2)] rd_is_empty_iff [OF consumes_ok [OF c(3)]] e
  show ?thesis unfolding decode_rd_body
    by (cases "x = []") (simp_all only: header_vt prod.case res_bind_simps if_True if_False simp_thms)
qed

lemma decode_iff: "decode bs = Inr p \<longleftrightarrow> wf_packet p \<and> encode p = bs"
proof
  assume "decode bs = Inr p"
  then obtain r1 vt r2 r3 where 1: "rd_u8 (rd_new bs) = Inr (MAGIC, r1)" and 2: "rd_u8 r1 = Inr (vt, r2)" and
    v: "drop_bit 4 vt = PROTOCOL_VERSION" and 3: "rd_body (vt AND 0xf) r2 = Inr (p, r3)" and e: "rd_is_empty r3"
    unfolding decode_rd_body by (auto simp: res_bind_eq_Inr split: if_splits)
  from rd_u8_Inr [OF _ 1] have c1: "consumes (rd_new bs) [MAGIC] r1" by simp
  from rd_u8_Inr [OF consumes_ok [OF c1] 2] have c2: "consumes r1 [vt] r2" .
  from 3 consumes_ok [OF c2] have t: "packet_type p = vt AND 0xf" and w: "wf_packet p"
    and c3: "consumes r2 (body p) r3" by (simp_all add: rd_body_iff)
  from consumes_ok [OF c3] e have "rd_rest r3 = []" by (simp add: rd_is_empty_iff)
  with consumes_trans [OF c1 consumes_trans [OF c2 c3]] have "bs = [MAGIC, vt] @ body p"
    by (simp add: consumes_def)
  moreover have "header (packet_type p) = [MAGIC, vt]"
    using nibbles [of vt] packet_type_nibble [of p] v t by (simp add: header_def)
  ultimately show "wf_packet p \<and> encode p = bs" using w by (simp add: encode_body)
next
  assume "wf_packet p \<and> encode p = bs"
  with decode_encode_append [of p "[]"] show "decode bs = Inr p" by simp
qed

interpretation packet_codec: canonical_codec wf_packet encode decode
  by unfold_locales (auto simp: decode_iff)

subsection \<open>Signing payloads\<close>

definition newline :: char where "newline = CHR 0x0A"

text \<open>A first text followed by further lines, each after a line feed.\<close>

fun lines_text :: "string \<Rightarrow> string list \<Rightarrow> string" where
  "lines_text h [] = h"
| "lines_text h (l # ls) = lines_text (h @ newline # l) ls"

definition payload_title :: "string \<Rightarrow> string" where
  "payload_title kind = PROTOCOL_NAME @ '':v'' @ show_nat (unat PROTOCOL_VERSION) @ '':'' @ kind"

definition response_signing_payload :: "string \<Rightarrow> string \<Rightarrow> string \<Rightarrow> nat \<Rightarrow> int \<Rightarrow> string \<Rightarrow> bytes" where
  "response_signing_payload server_id client_id_hex nonce_b64 interval expires_at param_b64 =
     str_bytes (lines_text
       (payload_title ''response'' @ newline # ''server_id='' @ server_id)
       [''client_id='' @ client_id_hex,
        ''nonce='' @ nonce_b64,
        ''interval='' @ show_nat interval,
        ''expires_at='' @ show_int expires_at,
        ''param='' @ param_b64])"

definition bye_signing_payload :: "string \<Rightarrow> string \<Rightarrow> string \<Rightarrow> nat \<Rightarrow> int \<Rightarrow> string \<Rightarrow> bytes" where
  "bye_signing_payload server_id client_id_hex nonce_b64 interval expires_at param_b64 =
     str_bytes (lines_text
       (payload_title ''bye'' @ newline # ''server_id='' @ server_id)
       [''client_id='' @ client_id_hex,
        ''nonce='' @ nonce_b64,
        ''interval='' @ show_nat interval,
        ''expires_at='' @ show_int expires_at,
        ''param='' @ param_b64])"

definition hello_signing_payload :: "string \<Rightarrow> string \<Rightarrow> int \<Rightarrow> string \<Rightarrow> bytes" where
  "hello_signing_payload server_id client_id_hex timestamp hello_nonce_b64 =
     str_bytes (lines_text
       (payload_title ''hello'' @ newline # ''server_id='' @ server_id)
       [''client_id='' @ client_id_hex,
        ''timestamp='' @ show_int timestamp,
        ''hello_nonce='' @ hello_nonce_b64])"

lemmas payload_defs = response_signing_payload_def bye_signing_payload_def hello_signing_payload_def

lemma lines_text_append: "lines_text h ls = h @ concat (map ((#) newline) ls)"
  by (induction ls arbitrary: h) auto

lemma last_line_unique:
  assumes "a @ n # x = b @ n # y" and "n \<notin> set x" and "n \<notin> set y"
  shows "a = b \<and> x = y"
proof -
  have t: "takeWhile (\<lambda>c. c \<noteq> n) (rev z @ n # rev w) = rev z" if "n \<notin> set z" for z w
    using that by (subst takeWhile_append2) auto
  from arg_cong [OF assms(1), of rev] have e: "rev x @ n # rev a = rev y @ n # rev b" by simp
  from arg_cong [OF e, of "takeWhile (\<lambda>c. c \<noteq> n)"] t [OF assms(2)] t [OF assms(3)]
  have "rev x = rev y" by metis
  then have "x = y" by simp
  with assms(1) show ?thesis by simp
qed

lemma lines_text_inj:
  assumes "lines_text h ls = lines_text h' ls'" and "length ls = length ls'"
    and "\<forall>l \<in> set ls \<union> set ls'. newline \<notin> set l"
  shows "h = h' \<and> ls = ls'"
  using assms
proof (induction ls arbitrary: h h' ls')
  case Nil
  then show ?case by simp
next
  case (Cons l ls)
  then obtain l' ks where ls': "ls' = l' # ks" by (cases ls') auto
  with Cons.prems have "lines_text (h @ newline # l) ls = lines_text (h' @ newline # l') ks" by simp
  moreover from ls' Cons.prems have "length ls = length ks" "\<forall>l \<in> set ls \<union> set ks. newline \<notin> set l" by auto
  ultimately have "h @ newline # l = h' @ newline # l' \<and> ls = ks" by (rule Cons.IH)
  with last_line_unique [of h newline l h' l'] ls' Cons.prems(3) show ?case by simp
qed

lemma show_numbers_no_newline [simp]: "newline \<notin> set (show_nat n)" "newline \<notin> set (show_int i)"
  "newline \<notin> set (to_hex c)"
  by (simp_all add: newline_def)

lemma payload_title_simps:
  "payload_title k = ''signedpulse:v2:'' @ k"
  by (simp add: payload_title_def PROTOCOL_NAME_def PROTOCOL_VERSION_def show_nat.simps digit_def char_of_eq_iff)

lemma payloads_disjoint:
  "response_signing_payload s c n i e p \<noteq> bye_signing_payload s' c' n' i' e' p'"
  "response_signing_payload s c n i e p \<noteq> hello_signing_payload s' c' t h"
  "bye_signing_payload s c n i e p \<noteq> hello_signing_payload s' c' t h"
  by (simp_all add: payload_defs lines_text_append payload_title_simps)

lemma payload_inj:
  assumes "length ls = length ls'" and "\<forall>l \<in> set ls \<union> set ls'. newline \<notin> set l"
  shows "str_bytes (lines_text (payload_title k @ newline # ''server_id='' @ s) ls) =
      str_bytes (lines_text (payload_title k @ newline # ''server_id='' @ s') ls') \<longleftrightarrow> s = s' \<and> ls = ls'"
proof
  assume "str_bytes (lines_text (payload_title k @ newline # ''server_id='' @ s) ls) =
      str_bytes (lines_text (payload_title k @ newline # ''server_id='' @ s') ls')"
  then have "lines_text (payload_title k @ newline # ''server_id='' @ s) ls =
      lines_text (payload_title k @ newline # ''server_id='' @ s') ls'" by (simp only: str_bytes_inj)
  from lines_text_inj [OF this assms] show "s = s' \<and> ls = ls'" by simp
qed simp

lemma response_payload_inj:
  assumes "newline \<notin> set c" "newline \<notin> set n" "newline \<notin> set p"
    and "newline \<notin> set c'" "newline \<notin> set n'" "newline \<notin> set p'"
  shows "response_signing_payload s c n i e p = response_signing_payload s' c' n' i' e' p' \<longleftrightarrow>
    s = s' \<and> c = c' \<and> n = n' \<and> i = i' \<and> e = e' \<and> p = p'"
  unfolding response_signing_payload_def using assms
  by (subst payload_inj) (auto simp: newline_def)

lemma bye_payload_inj:
  assumes "newline \<notin> set c" "newline \<notin> set n" "newline \<notin> set p"
    and "newline \<notin> set c'" "newline \<notin> set n'" "newline \<notin> set p'"
  shows "bye_signing_payload s c n i e p = bye_signing_payload s' c' n' i' e' p' \<longleftrightarrow>
    s = s' \<and> c = c' \<and> n = n' \<and> i = i' \<and> e = e' \<and> p = p'"
  unfolding bye_signing_payload_def using assms
  by (subst payload_inj) (auto simp: newline_def)

lemma hello_payload_inj:
  assumes "newline \<notin> set c" "newline \<notin> set n" "newline \<notin> set c'" "newline \<notin> set n'"
  shows "hello_signing_payload s c t n = hello_signing_payload s' c' t' n' \<longleftrightarrow>
    s = s' \<and> c = c' \<and> t = t' \<and> n = n'"
  unfolding hello_signing_payload_def using assms
  by (subst payload_inj) (auto simp: newline_def)

subsection \<open>Packets cut short or extended\<close>

text \<open>
  \<open>cut_short r x\<close>: what is left to read is a proper prefix of \<open>x\<close>.
\<close>

definition cut_short :: "reader \<Rightarrow> bytes \<Rightarrow> bool" where
  "cut_short r x \<longleftrightarrow> rd_ok r \<and> (\<exists>y. y \<noteq> [] \<and> x = rd_rest r @ y)"

lemma rd_take_short: "rd_ok r \<Longrightarrow> length (rd_rest r) < n \<Longrightarrow> rd_take n r = Inl Truncated"
  by (auto simp: rd_take_def rd_ok_def rd_rest_def Let_def)

lemma cut_consumes:
  assumes "cut_short r (x @ z)" and "length x \<le> length (rd_rest r)"
  obtains r' where "consumes r x r'" and "cut_short r' z"
proof -
  from assms obtain y where ok: "rd_ok r" and y: "y \<noteq> []" and e: "x @ z = rd_rest r @ y"
    by (auto simp: cut_short_def)
  from e obtain w where "x = rd_rest r @ w \<and> w @ z = y \<or> x @ w = rd_rest r \<and> z = w @ y"
    by (auto simp: append_eq_append_conv2)
  with assms(2) have w: "rd_rest r = x @ w" "z = w @ y" by auto
  from consumes_exists [OF ok w(1)] obtain r' where "consumes r x r'" "rd_rest r' = w" by blast
  with y w(2) show ?thesis by (intro that) (auto simp: cut_short_def consumes_ok)
qed

lemma bind_take_cut:
  assumes "cut_short r (x @ z)" and "length x = n" and "\<And>r'. cut_short r' z \<Longrightarrow> f (x, r') = Inl Truncated"
  shows "res_bind (rd_take n r) f = Inl Truncated"
proof (cases "length (rd_rest r) < n")
  case True
  with assms(1) show ?thesis by (simp add: cut_short_def rd_take_short)
next
  case False
  with assms(1,2) obtain r' where "consumes r x r'" "cut_short r' z" by (auto elim: cut_consumes)
  with assms(2,3) rd_take_consumes [of r x r'] show ?thesis by simp
qed

lemma bind_i64_cut:
  assumes "cut_short r (i64_to_le v @ z)" and "in_i64 v"
    and "\<And>r'. cut_short r' z \<Longrightarrow> f (v, r') = Inl Truncated"
  shows "res_bind (rd_i64 r) f = Inl Truncated"
proof -
  have "res_bind (rd_take 8 r) (\<lambda>(b, r). f (i64_from_le b, r)) = Inl Truncated"
    using assms by (intro bind_take_cut) auto
  then show ?thesis by (cases "rd_take 8 r") (auto simp: rd_i64_def)
qed

lemma bind_u32_cut:
  assumes "cut_short r (le_bytes 4 v @ z)" and "v < 2 ^ 32"
    and "\<And>r'. cut_short r' z \<Longrightarrow> f (v, r') = Inl Truncated"
  shows "res_bind (rd_u32 r) f = Inl Truncated"
proof -
  have "res_bind (rd_take 4 r) (\<lambda>(b, r). f (le_val b, r)) = Inl Truncated"
    using assms by (intro bind_take_cut [OF assms(1)]) (auto simp: le_val_le_bytes simp del: le_bytes_numeral)
  then show ?thesis by (cases "rd_take 4 r") (auto simp: rd_u32_def)
qed

lemma bind_u16_cut:
  assumes "cut_short r (le_bytes 2 v @ z)" and "v < 2 ^ 16"
    and "\<And>r'. cut_short r' z \<Longrightarrow> f (v, r') = Inl Truncated"
  shows "res_bind (rd_u16 r) f = Inl Truncated"
proof -
  have "res_bind (rd_take 2 r) (\<lambda>(b, r). f (le_val b, r)) = Inl Truncated"
    using assms by (intro bind_take_cut [OF assms(1)]) (auto simp: le_val_le_bytes simp del: le_bytes_numeral)
  then show ?thesis by (cases "rd_take 2 r") (auto simp: rd_u16_def)
qed

lemma not_cut_Nil [simp]: "\<not> cut_short r []"
  by (simp add: cut_short_def)

lemma cut_short_snoc: "cut_short r x \<Longrightarrow> cut_short r (x @ [])"
  by simp

lemma rd_hello_cut:
  assumes w: "wf_packet (Hello h)" and c: "cut_short r (body (Hello h))"
  shows "rd_hello r = Inl Truncated"
  unfolding rd_hello_def
  apply (rule bind_take_cut [OF c [unfolded body.simps]])
  subgoal using w by (simp add: wf_client_id_def)
  apply (simp only: prod.case, rule bind_i64_cut, assumption)
  subgoal using w by simp
  apply (simp only: prod.case, rule bind_take_cut, assumption)
  subgoal using w by simp
  apply (simp only: prod.case, rule bind_take_cut, erule cut_short_snoc)
  subgoal using w by simp
  by simp

lemma rd_challenge_cut:
  assumes w: "wf_packet (Challenge c)" and c: "cut_short r (body (Challenge c))"
  shows "rd_challenge r = Inl Truncated"
  unfolding rd_challenge_def
  apply (rule bind_take_cut [OF c [unfolded body.simps]])
  subgoal using w by (simp add: wf_client_id_def)
  apply (simp only: prod.case, rule bind_take_cut, assumption)
  subgoal using w by simp
  apply (simp only: prod.case, rule bind_i64_cut, erule cut_short_snoc)
  subgoal using w by simp
  by simp

lemma rd_proof_body_cut:
  assumes w: "wf_client_id cid" "length nonce = CHALLENGE_NONCE_LEN" "interval < 2 ^ 32" "wf_param param"
      "length sig = SIG_LEN"
    and c: "cut_short r (id_bytes cid @ nonce @ le_bytes 4 interval @ param_field param @ sig)"
  shows "rd_proof_body r = Inl Truncated"
proof -
  let ?b = "case param of Some b \<Rightarrow> b | None \<Rightarrow> []"
  have l: "length ?b < 2 ^ 16" using w(4) by (auto simp: wf_param_def split: option.splits)
  have c': "cut_short r (id_bytes cid @ nonce @ le_bytes 4 interval @ le_bytes 2 (length ?b) @ ?b @ sig)"
    using c by (simp add: param_field_def Let_def del: le_bytes_numeral)
  show ?thesis
    unfolding rd_proof_body_def
    apply (rule bind_take_cut [OF c'])
    subgoal using w by (simp add: wf_client_id_def)
    apply (simp only: prod.case, rule bind_take_cut, assumption)
    subgoal using w by simp
    apply (simp only: prod.case, rule bind_u32_cut, assumption, rule w(3))
    apply (simp only: prod.case, rule bind_u16_cut, assumption, rule l)
    apply (simp only: prod.case, rule bind_take_cut, assumption, rule refl)
    apply (simp only: prod.case, rule bind_take_cut, erule cut_short_snoc, rule w(5))
    by simp
qed

lemma rd_body_cut:
  assumes "wf_packet p" and "cut_short r (body p)"
  shows "rd_body (packet_type p) r = Inl Truncated"
  using assms
  by (cases p) (auto simp: rd_body_def protocol_consts rd_response_def rd_bye_def rd_proof_body_cut
      simp del: le_bytes_numeral body.simps(1,2) wf_packet.simps(1,2) intro: rd_hello_cut rd_challenge_cut
      dest!: rd_proof_body_cut)

lemma bind_u8_cut:
  assumes "cut_short r (b # z)" and "\<And>r'. cut_short r' z \<Longrightarrow> f (b, r') = Inl Truncated"
  shows "res_bind (rd_u8 r) f = Inl Truncated"
proof -
  have "res_bind (rd_take 1 r) (\<lambda>(b, r). f (b ! 0, r)) = Inl Truncated"
    using assms by (intro bind_take_cut [where x = "[b]" and z = z]) auto
  then show ?thesis by (cases "rd_take 1 r") (auto simp: rd_u8_def)
qed

lemma decode_cut:
  assumes w: "wf_packet p" and n: "n < length (encode p)"
  shows "decode (take n (encode p)) = Inl Truncated"
proof -
  let ?vt = "(push_bit 4 PROTOCOL_VERSION) OR (packet_type p AND 0xf)"
  have "encode p = take n (encode p) @ drop n (encode p)" by simp
  moreover have "drop n (encode p) \<noteq> []" using n by simp
  ultimately have "cut_short (rd_new (take n (encode p))) (encode p)"
    unfolding cut_short_def rd_rest_new by (metis rd_ok_new)
  then have "cut_short (rd_new (take n (encode p))) (MAGIC # ?vt # body p)"
    by (simp add: encode_body header_def)
  then show ?thesis
    unfolding decode_rd_body
    apply (rule bind_u8_cut)
    apply (simp only: prod.case simp_thms if_False)
    apply (erule bind_u8_cut)
    by (simp only: prod.case header_vt simp_thms if_False rd_body_cut [OF w] res_bind_simps)
qed

lemma length_to_hex: "wf_client_id c \<Longrightarrow> length (to_hex c) = 64"
  by (simp add: to_hex_def wf_client_id_def CLIENT_ID_LEN_def)

text \<open>Two leading characters read as one byte, followed by 31 pairs.\<close>

lemma from_hex_two:
  assumes "u8_from_str_radix16 [a, b] = Some n" and "length bs = 31"
    and "33 \<le> (of_char a :: nat)" "(of_char a :: nat) < 128" "(of_char b :: nat) < 128"
  shows "from_hex ([a, b] @ hex_pairs bs) = Returns (Inr (ClientId (word_of_nat n # bs)))"
proof -
  let ?s = "[a, b] @ hex_pairs bs"
  have ascii: "\<forall>c \<in> set ?s. (of_char c :: nat) < 128" using assms(4,5) hex_pairs_ascii by auto
  have "hex_pairs bs \<noteq> []" using assms(2) by (cases bs) auto
  then have "last ?s \<in> set (hex_pairs bs)" by simp
  then have "33 \<le> (of_char (last ?s) :: nat)" "(of_char (last ?s) :: nat) < 128"
    using hex_pairs_graphic [of bs] unfolding graphic_def by blast+
  with assms(3,4) have t: "trim ?s = ?s" by (intro trim_ends) simp_all
  have l: "from_hex_loop ?s (Suc 0) (length bs) = Returns (Inr bs)"
    using assms(4,5) by (intro from_hex_loop_pairs) auto
  have "str_slice ?s (2 * 0) (2 * 0 + 2) = Returns [a, b]"
    using ascii by (subst str_slice_ascii) auto
  with l assms(1) have "from_hex_loop ?s 0 (Suc (length bs)) = Returns (Inr (word_of_nat n # bs))"
    by (simp del: append.simps)
  with t assms(2) show ?thesis by (simp add: from_hex_def CLIENT_ID_LEN_def Let_def)
qed

subsection \<open>Properties\<close>

definition sample_id :: client_id where
  "sample_id = ClientId (replicate 32 0xAB)"

definition sample_challenge :: packet where
  "sample_challenge =
     Challenge \<lparr>c_client_id = sample_id, c_nonce = replicate 32 3, c_expires_at = 1700000030\<rparr>"

lemma sample_wf [simp]: "wf_client_id sample_id" "wf_packet sample_challenge"
  by (simp_all add: sample_id_def sample_challenge_def wf_client_id_def protocol_consts in_i64_def
      i64_min_def i64_max_def)

text \<open>
  C17: \<open>Packet::decode\<close> accepts a byte string exactly when it is the encoding of a well-formed
  packet, and then returns that packet: decoding inverts encoding, and no second byte string
  decodes to the same packet.
\<close>

theorem decode_canonical: "decode bs = Inr p \<longleftrightarrow> wf_packet p \<and> bs = encode p"
  by (rule packet_codec.dec_iff)

text \<open>
  A datagram cut short at any byte is rejected as \<open>Truncated\<close>, and one with any bytes
  after the packet as \<open>TrailingBytes\<close>.
\<close>

theorem decode_exact_length:
  assumes "wf_packet p" and "n < length (encode p)" and "x \<noteq> []"
  shows "decode (take n (encode p)) = Inl Truncated \<and> decode (encode p @ x) = Inl TrailingBytes"
  using assms by (simp add: decode_cut decode_encode_append)

theorem decode_exact_length_witness:
  "decode (take 10 (encode sample_challenge)) = Inl Truncated \<and>
   decode (encode sample_challenge @ [0xFF]) = Inl TrailingBytes"
proof (rule decode_exact_length)
  show "10 < length (encode sample_challenge)" by (simp add: sample_challenge_def header_def)
qed simp_all

text \<open>
  A client identifier survives \<open>to_hex\<close> and \<open>from_hex\<close>; its text is 64 lowercase
  hexadecimal characters, and different identifiers have different texts.
\<close>

theorem client_id_hex_round_trip:
  assumes "wf_client_id c"
  shows "from_hex (to_hex c) = Returns (Inr c) \<and> length (to_hex c) = 64 \<and> (to_hex c = to_hex d \<longleftrightarrow> c = d)"
  using from_hex_to_hex [OF assms] length_to_hex [OF assms] by simp

theorem client_id_hex_round_trip_witness:
  "from_hex (to_hex sample_id) = Returns (Inr sample_id) \<and> length (to_hex sample_id) = 64 \<and>
   (to_hex sample_id = to_hex (ClientId []) \<longleftrightarrow> sample_id = ClientId [])"
  by (rule client_id_hex_round_trip) simp

text \<open>
  \<open>from_hex\<close> is irregular on text of 64 bytes: a two-byte character across the boundary of
  a pair panics instead of returning \<open>BadClientIdHex\<close>, and a plus sign in front of a digit is
  accepted, so two different texts denote one client.
\<close>

theorem from_hex_irregular:
  "from_hex (''0'' @ [char_of (195 :: nat), char_of (169 :: nat)] @ hex_pairs (replicate 30 0) @ ''0'') = Panics \<and>
   from_hex (''+a'' @ hex_pairs (replicate 31 0)) = Returns (Inr (ClientId (10 # replicate 31 0))) \<and>
   from_hex (''0a'' @ hex_pairs (replicate 31 0)) = Returns (Inr (ClientId (10 # replicate 31 0)))"
proof (intro conjI)
  show "from_hex (''+a'' @ hex_pairs (replicate 31 0)) = Returns (Inr (ClientId (10 # replicate 31 0)))"
    using from_hex_two [of "CHR ''+''" "CHR ''a''" 10 "replicate 31 0"]
    by (simp add: u8_from_str_radix16.simps hex_val_def del: replicate.simps)
  show "from_hex (''0a'' @ hex_pairs (replicate 31 0)) = Returns (Inr (ClientId (10 # replicate 31 0)))"
    using from_hex_two [of "CHR ''0''" "CHR ''a''" 10 "replicate 31 0"]
    by (simp add: u8_from_str_radix16.simps hex_val_def del: replicate.simps)
  define s where "s = ''0'' @ [char_of (195 :: nat), char_of (169 :: nat)] @ hex_pairs (replicate 30 0) @ ''0''"
  have t: "trim s = s" unfolding s_def by (rule trim_ends) simp_all
  have l: "length s = 64" by (simp add: s_def)
  have "str_slice s (2 * 0) (2 * 0 + 2) = Panics"
    by (simp add: s_def str_slice_def char_boundary_def is_cont_def nth_Cons')
  then have "from_hex_loop s 0 (Suc 31) = Panics" by (simp only: from_hex_loop.simps may_panic.case)
  then have "from_hex_loop s 0 32 = Panics" by simp
  with t l show "from_hex s = Panics" by (simp add: from_hex_def CLIENT_ID_LEN_def)
qed

text \<open>
  The three signing payloads bind every field: two RESPONSE (or two BYE, or two HELLO)
  payloads are the same bytes only if server identifier, client, nonce, interval, expiry and
  parameter agree. The server identifier is arbitrary text; the other text fields are
  hexadecimal or base64 and so hold no line feed.
\<close>

theorem payloads_bind_fields:
  assumes "newline \<notin> set c \<union> set n \<union> set p" and "newline \<notin> set c' \<union> set n' \<union> set p'"
  shows "(response_signing_payload s c n i e p = response_signing_payload s' c' n' i' e' p' \<longleftrightarrow>
            (s, c, n, i, e, p) = (s', c', n', i', e', p')) \<and>
         (bye_signing_payload s c n i e p = bye_signing_payload s' c' n' i' e' p' \<longleftrightarrow>
            (s, c, n, i, e, p) = (s', c', n', i', e', p')) \<and>
         (hello_signing_payload s c e n = hello_signing_payload s' c' e' n' \<longleftrightarrow>
            (s, c, e, n) = (s', c', e', n'))"
  using assms by (simp add: response_payload_inj bye_payload_inj hello_payload_inj)

theorem payloads_bind_fields_witness:
  "response_signing_payload (''s'' @ [newline]) ''ab'' ''n'' 60 5 ''p'' \<noteq> response_signing_payload ''s'' ''ab'' ''n'' 60 5 ''p''"
  using payloads_bind_fields [of "''ab''" "''n''" "''p''" "''ab''" "''n''" "''p''" "''s'' @ [newline]" 60 5 "''s''" 60 5]
  by (simp add: newline_def)

text \<open>
  C18: The kinds of payload are disjoint whatever the fields are: a signature made for a
  RESPONSE, a BYE or a HELLO is over a message that no other kind of packet is checked against.
\<close>

theorem payload_kinds_disjoint:
  "response_signing_payload s c n i e p \<noteq> bye_signing_payload s' c' n' i' e' p' \<and>
   response_signing_payload s c n i e p \<noteq> hello_signing_payload s' c' t h \<and>
   bye_signing_payload s c n i e p \<noteq> hello_signing_payload s' c' t h"
  by (simp add: payloads_disjoint)

end
