(* ===== verification/Config.thy ===== *)
theory Config
  imports Protocol
begin

text \<open>
  The configuration of server and client, \<open>signedpulse-common/src/config.rs\<close>: the sections with
  the source's fields, their defaults, and the two validations. Reading the file and parsing
  TOML belong to other libraries: the parsed configuration is the argument. The texts of the
  errors are constructors here, one for each \<open>ConfigError::Invalid\<close> of the source.
\<close>

subsection \<open>Server configuration\<close>

datatype wire_encryption = Required | Off

record server_section =
  ss_bind :: string
  ss_server_id :: string
  ss_nonce_ttl_seconds :: nat
  ss_command_timeout_seconds :: nat
  ss_client_cooldown_seconds :: nat
  ss_max_packet_size :: nat
  ss_hello_rate_max :: nat
  ss_hello_rate_window_seconds :: nat
  ss_hello_max_skew_seconds :: nat
  ss_state_file :: "string option"
  ss_encryption_private_key :: "string option"
  ss_max_param_len :: nat
  ss_wire_encryption :: wire_encryption
  ss_max_faulty_packets :: nat
  ss_blacklist_seconds :: nat
  ss_attack_blacklist_threshold :: nat
  ss_attack_window_seconds :: nat
  ss_attack_rejection_threshold :: nat
  ss_active_ip_ttl_seconds :: nat
  ss_max_inflight_packets :: nat
  ss_max_tracked_ips :: nat
  ss_lease_grace_multiplier :: nat
  ss_lease_max_seconds :: nat

record command_section =
  co_argv :: "string list"
  co_revoke_argv :: "string list option"
  co_working_dir :: "string option"
  co_max_concurrent :: nat
  co_allow_shell :: bool

record client_entry =
  ce_client_id :: string
  ce_public_key :: string
  ce_label :: "string option"

record server_config =
  sc_server :: server_section
  sc_command :: command_section
  sc_clients :: "client_entry list"

text \<open>The section that a file with only the mandatory fields gives: every \<open>default_*\<close> function.\<close>

definition default_server_section :: "string \<Rightarrow> string \<Rightarrow> server_section" where
  "default_server_section bind server_id =
     \<lparr>ss_bind = bind, ss_server_id = server_id, ss_nonce_ttl_seconds = 30,
      ss_command_timeout_seconds = 10, ss_client_cooldown_seconds = 0, ss_max_packet_size = 2048,
      ss_hello_rate_max = 30, ss_hello_rate_window_seconds = 60, ss_hello_max_skew_seconds = 30,
      ss_state_file = None, ss_encryption_private_key = None, ss_max_param_len = 256,
      ss_wire_encryption = Required, ss_max_faulty_packets = 10, ss_blacklist_seconds = 300,
      ss_attack_blacklist_threshold = 10, ss_attack_window_seconds = 10,
      ss_attack_rejection_threshold = 256, ss_active_ip_ttl_seconds = 900,
      ss_max_inflight_packets = 1024, ss_max_tracked_ips = 100000,
      ss_lease_grace_multiplier = 3, ss_lease_max_seconds = 86400\<rparr>"

definition default_command_section :: "string list \<Rightarrow> command_section" where
  "default_command_section argv =
     \<lparr>co_argv = argv, co_revoke_argv = None, co_working_dir = None, co_max_concurrent = 4,
      co_allow_shell = False\<rparr>"

datatype config_error =
    ArgvEmpty
  | MaxConcurrentZero
  | RevokeArgvEmpty
  | LeaseGraceMultiplierZero
  | LeaseMaxSecondsRange
  | MaxPacketSizeRange
  | CommandTimeoutZero
  | NonceTtlZero
  | HelloMaxSkewZero
  | HelloRateWindowZero
  | MaxParamLenRange
  | ClientIdNotHex string
  | DuplicateClientId string
  | EncryptionKeyMissing
  | IntervalZero
  | OwnClientIdNotHex
  | ServerKeyMissing
  | ParamCommandEmpty
  | RetryZero
  | RetryOrder
  | ParamTimeoutZero
  | ParamMaxLenRange
  | LabelEmpty
  | LabelCollides string
  | OverrideAddrEmpty string
  | OverrideKeyMissing string
  | OverrideParamCommandEmpty string
  | OverrideIntervalZero string
  | OverrideRetry string
  | OverrideParamTimeoutZero string
  | OverrideParamMaxLenRange string

text \<open>
  The loop over the clients: \<open>seen\<close> are the lower-cased texts so far. A text that \<open>from_hex\<close>
  accepted is ASCII up to surrounding white space, so \<open>to_lowercase\<close> is the ASCII one on it.
\<close>

fun check_clients :: "string list \<Rightarrow> client_entry list \<Rightarrow> (config_error, unit) res may_panic" where
  "check_clients seen [] = Returns (Inr ())"
| "check_clients seen (c # cs) =
     (case from_hex (ce_client_id c) of
        Panics \<Rightarrow> Panics
      | Returns (Inl _) \<Rightarrow> Returns (Inl (ClientIdNotHex (ce_client_id c)))
      | Returns (Inr _) \<Rightarrow>
          (let key = map ascii_lower (ce_client_id c) in
           if key \<in> set seen then Returns (Inl (DuplicateClientId (ce_client_id c)))
           else check_clients (key # seen) cs))"

definition validate_server :: "server_config \<Rightarrow> (config_error, unit) res may_panic" where
  "validate_server cfg =
     (let s = sc_server cfg; c = sc_command cfg in
      if co_argv c = [] then Returns (Inl ArgvEmpty)
      else if co_max_concurrent c = 0 then Returns (Inl MaxConcurrentZero)
      else if co_revoke_argv c = Some [] then Returns (Inl RevokeArgvEmpty)
      else if ss_lease_grace_multiplier s = 0 then Returns (Inl LeaseGraceMultiplierZero)
      else if ss_lease_max_seconds s = 0 \<or> 31536000 < ss_lease_max_seconds s then Returns (Inl LeaseMaxSecondsRange)
      else if ss_max_packet_size s = 0 \<or> 65535 < ss_max_packet_size s then Returns (Inl MaxPacketSizeRange)
      else if ss_command_timeout_seconds s = 0 then Returns (Inl CommandTimeoutZero)
      else if ss_nonce_ttl_seconds s = 0 then Returns (Inl NonceTtlZero)
      else if ss_hello_max_skew_seconds s = 0 then Returns (Inl HelloMaxSkewZero)
      else if ss_hello_rate_window_seconds s = 0 then Returns (Inl HelloRateWindowZero)
      else if ss_max_param_len s = 0 \<or> 60000 < ss_max_param_len s then Returns (Inl MaxParamLenRange)
      else case check_clients [] (sc_clients cfg) of
             Panics \<Rightarrow> Panics
           | Returns (Inl e) \<Rightarrow> Returns (Inl e)
           | Returns (Inr _) \<Rightarrow>
               if ss_wire_encryption s = Required \<and> ss_encryption_private_key s = None
               then Returns (Inl EncryptionKeyMissing)
               else Returns (Inr ()))"

subsection \<open>Client configuration\<close>

record server_override =
  so_server_addr :: string
  so_server_id :: "string option"
  so_server_encryption_key :: "string option"
  so_wire_encryption :: "bool option"
  so_interval_seconds :: "nat option"
  so_retry_initial_ms :: "nat option"
  so_retry_max_ms :: "nat option"
  so_retries :: "nat option"
  so_param_command :: "string list option"
  so_param_command_timeout_seconds :: "nat option"
  so_param_max_len :: "nat option"

record client_section =
  cs_client_id :: string
  cs_server_addr :: string
  cs_server_id :: string
  cs_interval_seconds :: nat
  cs_private_key :: string
  cs_retry_initial_ms :: nat
  cs_retry_max_ms :: nat
  cs_retries :: nat
  cs_state_file :: "string option"
  cs_param_command :: "string list option"
  cs_param_command_timeout_seconds :: nat
  cs_param_max_len :: nat
  cs_server_encryption_key :: "string option"
  cs_wire_encryption :: bool
  cs_bye_on_shutdown :: bool
  cs_servers :: "(string \<times> server_override) list"

definition default_client_section :: "string \<Rightarrow> string \<Rightarrow> string \<Rightarrow> string \<Rightarrow> client_section" where
  "default_client_section client_id server_addr server_id private_key =
     \<lparr>cs_client_id = client_id, cs_server_addr = server_addr, cs_server_id = server_id,
      cs_interval_seconds = 300, cs_private_key = private_key, cs_retry_initial_ms = 500,
      cs_retry_max_ms = 4000, cs_retries = 3, cs_state_file = None, cs_param_command = None,
      cs_param_command_timeout_seconds = 5, cs_param_max_len = 256, cs_server_encryption_key = None,
      cs_wire_encryption = True, cs_bye_on_shutdown = True, cs_servers = []\<rparr>"

text \<open>\<open>unwrap_or\<close> and \<open>or\<close> on options.\<close>

definition unwrap_or :: "'a option \<Rightarrow> 'a \<Rightarrow> 'a" where
  "unwrap_or x d = (case x of Some v \<Rightarrow> v | None \<Rightarrow> d)"

definition opt_or :: "'a option \<Rightarrow> 'a option \<Rightarrow> 'a option" where
  "opt_or x y = (case x of Some v \<Rightarrow> Some v | None \<Rightarrow> y)"

lemma unwrap_or_simps [simp]: "unwrap_or None d = d" "unwrap_or (Some v) d = v"
  by (simp_all add: unwrap_or_def)

lemma opt_or_simps [simp]: "opt_or None y = y" "opt_or (Some v) y = Some v"
  by (simp_all add: opt_or_def)

text \<open>The body of the loop over \<open>client.servers\<close>.\<close>

definition check_override :: "client_section \<Rightarrow> string \<Rightarrow> server_override \<Rightarrow> (config_error, unit) res" where
  "check_override c label ov =
     (let wire = unwrap_or (so_wire_encryption ov) (cs_wire_encryption c);
          has_param = opt_or (so_param_command ov) (cs_param_command c) \<noteq> None;
          rt_init = unwrap_or (so_retry_initial_ms ov) (cs_retry_initial_ms c);
          rt_max = unwrap_or (so_retry_max_ms ov) (cs_retry_max_ms c)
      in if label = [] then Inl LabelEmpty
         else if label = cs_server_id c then Inl (LabelCollides label)
         else if so_server_addr ov = [] then Inl (OverrideAddrEmpty label)
         else if (wire \<or> has_param) \<and> so_server_encryption_key ov = None then Inl (OverrideKeyMissing label)
         else if so_param_command ov = Some [] then Inl (OverrideParamCommandEmpty label)
         else if so_interval_seconds ov = Some 0 then Inl (OverrideIntervalZero label)
         else if rt_init = 0 \<or> rt_max = 0 \<or> rt_max < rt_init then Inl (OverrideRetry label)
         else if so_param_command_timeout_seconds ov = Some 0 then Inl (OverrideParamTimeoutZero label)
         else case so_param_max_len ov of
                Some n \<Rightarrow> if n = 0 \<or> 60000 < n then Inl (OverrideParamMaxLenRange label) else Inr ()
              | None \<Rightarrow> Inr ())"

fun check_overrides :: "client_section \<Rightarrow> (string \<times> server_override) list \<Rightarrow> (config_error, unit) res" where
  "check_overrides c [] = Inr ()"
| "check_overrides c ((label, ov) # rest) =
     res_bind (check_override c label ov) (\<lambda>_. check_overrides c rest)"

definition validate_client :: "client_section \<Rightarrow> (config_error, unit) res may_panic" where
  "validate_client c =
     (if cs_interval_seconds c = 0 then Returns (Inl IntervalZero)
      else case from_hex (cs_client_id c) of
        Panics \<Rightarrow> Panics
      | Returns (Inl _) \<Rightarrow> Returns (Inl OwnClientIdNotHex)
      | Returns (Inr _) \<Rightarrow> Returns
          (if (cs_wire_encryption c \<or> cs_param_command c \<noteq> None) \<and> cs_server_encryption_key c = None
           then Inl ServerKeyMissing
           else if cs_param_command c = Some [] then Inl ParamCommandEmpty
           else if cs_retry_initial_ms c = 0 \<or> cs_retry_max_ms c = 0 then Inl RetryZero
           else if cs_retry_max_ms c < cs_retry_initial_ms c then Inl RetryOrder
           else if cs_param_command c \<noteq> None \<and> cs_param_command_timeout_seconds c = 0 then Inl ParamTimeoutZero
           else if cs_param_max_len c = 0 \<or> 60000 < cs_param_max_len c then Inl ParamMaxLenRange
           else check_overrides c (cs_servers c)))"

subsection \<open>What validation establishes\<close>

lemma check_clients_ok:
  "check_clients seen cs = Returns (Inr ()) \<Longrightarrow>
   (\<forall>c \<in> set cs. \<exists>i. from_hex (ce_client_id c) = Returns (Inr i)) \<and>
   distinct (map (\<lambda>c. map ascii_lower (ce_client_id c)) cs) \<and>
   (\<forall>c \<in> set cs. map ascii_lower (ce_client_id c) \<notin> set seen)"
proof (induction cs arbitrary: seen)
  case Nil
  then show ?case by simp
next
  case (Cons c cs)
  let ?k = "map ascii_lower (ce_client_id c)"
  from Cons.prems obtain i where i: "from_hex (ce_client_id c) = Returns (Inr i)" "?k \<notin> set seen"
    and r: "check_clients (?k # seen) cs = Returns (Inr ())"
    by (auto simp: Let_def split: may_panic.splits sum.splits if_splits)
  from Cons.IH [OF r] i show ?case by auto
qed

lemma validate_server_ok:
  "validate_server cfg = Returns (Inr ()) \<longleftrightarrow>
     co_argv (sc_command cfg) \<noteq> [] \<and> 0 < co_max_concurrent (sc_command cfg) \<and>
     co_revoke_argv (sc_command cfg) \<noteq> Some [] \<and>
     0 < ss_lease_grace_multiplier (sc_server cfg) \<and>
     0 < ss_lease_max_seconds (sc_server cfg) \<and> ss_lease_max_seconds (sc_server cfg) \<le> 31536000 \<and>
     0 < ss_max_packet_size (sc_server cfg) \<and> ss_max_packet_size (sc_server cfg) \<le> 65535 \<and>
     0 < ss_command_timeout_seconds (sc_server cfg) \<and> 0 < ss_nonce_ttl_seconds (sc_server cfg) \<and>
     0 < ss_hello_max_skew_seconds (sc_server cfg) \<and> 0 < ss_hello_rate_window_seconds (sc_server cfg) \<and>
     0 < ss_max_param_len (sc_server cfg) \<and> ss_max_param_len (sc_server cfg) \<le> 60000 \<and>
     check_clients [] (sc_clients cfg) = Returns (Inr ()) \<and>
     (ss_wire_encryption (sc_server cfg) = Required \<longrightarrow> ss_encryption_private_key (sc_server cfg) \<noteq> None)"
  by (auto simp: validate_server_def Let_def split: may_panic.splits sum.splits)

lemma check_overrides_ok:
  "check_overrides c ovs = Inr () \<longleftrightarrow> (\<forall>(label, ov) \<in> set ovs. check_override c label ov = Inr ())"
  by (induction ovs) (auto simp: res_bind_eq_Inr)

lemma check_override_ok:
  "check_override c label ov = Inr () \<longleftrightarrow>
     label \<noteq> [] \<and> label \<noteq> cs_server_id c \<and> so_server_addr ov \<noteq> [] \<and>
     (unwrap_or (so_wire_encryption ov) (cs_wire_encryption c) \<or>
        opt_or (so_param_command ov) (cs_param_command c) \<noteq> None \<longrightarrow> so_server_encryption_key ov \<noteq> None) \<and>
     so_param_command ov \<noteq> Some [] \<and> so_interval_seconds ov \<noteq> Some 0 \<and>
     0 < unwrap_or (so_retry_initial_ms ov) (cs_retry_initial_ms c) \<and>
     unwrap_or (so_retry_initial_ms ov) (cs_retry_initial_ms c) \<le> unwrap_or (so_retry_max_ms ov) (cs_retry_max_ms c) \<and>
     so_param_command_timeout_seconds ov \<noteq> Some 0 \<and>
     (\<forall>n. so_param_max_len ov = Some n \<longrightarrow> 0 < n \<and> n \<le> 60000)"
  by (auto simp: check_override_def Let_def split: option.splits)

subsection \<open>Properties\<close>

definition hex_text :: "byte \<Rightarrow> string" where
  "hex_text b = hex_pairs (replicate 32 b)"

lemma hex_text_from_hex [simp]: "from_hex (hex_text b) = Returns (Inr (ClientId (replicate 32 b)))"
  using from_hex_to_hex [of "ClientId (replicate 32 b)"]
  by (simp add: hex_text_def to_hex_def wf_client_id_def CLIENT_ID_LEN_def)

definition sample_entry :: "string \<Rightarrow> client_entry" where
  "sample_entry i = \<lparr>ce_client_id = i, ce_public_key = ''AAAA'', ce_label = None\<rparr>"

definition sample_config :: "string list \<Rightarrow> server_config" where
  "sample_config ids =
     \<lparr>sc_server = (default_server_section ''0.0.0.0:7370'' ''main'')\<lparr>ss_wire_encryption := Off\<rparr>,
      sc_command = default_command_section [''/bin/echo''], sc_clients = map sample_entry ids\<rparr>"

lemma sample_config_valid:
  "validate_server (sample_config ids) = Returns (Inr ()) \<longleftrightarrow>
     check_clients [] (map sample_entry ids) = Returns (Inr ())"
  by (simp add: validate_server_ok sample_config_def default_server_section_def default_command_section_def)

text \<open>
  A server configuration that validation accepts, and whose client identifiers have neither a
  plus sign nor surrounding white space, names every client once: the identities that the
  texts denote are pairwise different.
\<close>

theorem validated_identities_distinct:
  assumes "validate_server cfg = Returns (Inr ())"
    and "\<forall>c \<in> set (sc_clients cfg). trim (ce_client_id c) = ce_client_id c \<and> CHR ''+'' \<notin> set (ce_client_id c)"
  shows "distinct (map (\<lambda>c. from_hex (ce_client_id c)) (sc_clients cfg))"
proof -
  let ?cs = "sc_clients cfg"
  from assms(1) have "check_clients [] ?cs = Returns (Inr ())" by (simp add: validate_server_ok)
  then have ok: "\<forall>c \<in> set ?cs. \<exists>i. from_hex (ce_client_id c) = Returns (Inr i)"
    and d: "distinct (map (\<lambda>c. map ascii_lower (ce_client_id c)) ?cs)"
    using check_clients_ok by blast+
  have "inj_on (\<lambda>c. from_hex (ce_client_id c)) (set ?cs)"
  proof (rule inj_onI)
    fix a b
    assume ab: "a \<in> set ?cs" "b \<in> set ?cs" "from_hex (ce_client_id a) = from_hex (ce_client_id b)"
    with ok obtain i where "from_hex (ce_client_id a) = Returns (Inr i)" "from_hex (ce_client_id b) = Returns (Inr i)"
      by fastforce
    with ab(1,2) assms(2) from_hex_lower
    have "map ascii_lower (ce_client_id a) = to_hex i" "map ascii_lower (ce_client_id b) = to_hex i" by blast+
    then have "map ascii_lower (ce_client_id a) = map ascii_lower (ce_client_id b)" by (simp only:)
    with d ab(1,2) show "a = b" by (simp only: distinct_map inj_on_def)
  qed
  moreover have "distinct ?cs" using d by (simp only: distinct_map)
  ultimately show ?thesis by (simp only: distinct_map)
qed

theorem validated_identities_distinct_witness:
  "distinct (map (\<lambda>c. from_hex (ce_client_id c)) (sc_clients (sample_config [hex_text 1])))"
proof (rule validated_identities_distinct)
  show "validate_server (sample_config [hex_text 1]) = Returns (Inr ())"
    by (simp add: sample_config_valid sample_entry_def)
  show "\<forall>c \<in> set (sc_clients (sample_config [hex_text 1])).
      trim (ce_client_id c) = ce_client_id c \<and> CHR ''+'' \<notin> set (ce_client_id c)"
  proof -
    have "CHR ''+'' \<notin> set (hex_pairs bs)" for bs
      by (induction bs) (simp_all add: hex_char_not_plus [THEN not_sym])
    then show ?thesis
      by (simp add: sample_config_def sample_entry_def hex_text_def trim_graphic hex_pairs_graphic)
  qed
qed

text \<open>
  Validation does not in general reject two entries for one client: a configuration whose two
  identifiers are spelled with \<open>0a\<close> and \<open>+a\<close> is accepted, and both denote the same client.
\<close>

theorem duplicate_identity_accepted:
  "\<exists>a b. validate_server (sample_config [a, b]) = Returns (Inr ()) \<and> a \<noteq> b \<and>
     from_hex a = Returns (Inr (ClientId (10 # replicate 31 0))) \<and>
     from_hex b = Returns (Inr (ClientId (10 # replicate 31 0)))"
proof -
  let ?a = "''0a'' @ hex_pairs (replicate 31 0)" and ?b = "''+a'' @ hex_pairs (replicate 31 0)"
  have a: "from_hex ?a = Returns (Inr (ClientId (10 # replicate 31 0)))"
    using from_hex_two [of "CHR ''0''" "CHR ''a''" 10 "replicate 31 0"]
    by (simp add: u8_from_str_radix16.simps hex_val_def del: replicate.simps)
  have b: "from_hex ?b = Returns (Inr (ClientId (10 # replicate 31 0)))"
    using from_hex_two [of "CHR ''+''" "CHR ''a''" 10 "replicate 31 0"]
    by (simp add: u8_from_str_radix16.simps hex_val_def del: replicate.simps)
  have ab: "map ascii_lower ?a \<noteq> map ascii_lower ?b" by (simp add: ascii_lower_def)
  then have "check_clients [] (map sample_entry [?a, ?b]) = Returns (Inr ())"
    using a b by (simp add: sample_entry_def Let_def del: append.simps)
  then have "validate_server (sample_config [?a, ?b]) = Returns (Inr ())" by (simp only: sample_config_valid)
  moreover have "?a \<noteq> ?b" using ab by metis
  ultimately show ?thesis using a b by blast
qed

end
