(* ===== verification/Crypto.thy ===== *)
theory Crypto
  imports Rust_Text Interfaces
begin

text \<open>
  Keys, signatures and sealed boxes, \<open>signedpulse-common/src/crypto.rs\<close>. The cryptographic
  crates and the base64 crate are not part of the repository: they are the record
  \<open>primitives\<close>, an argument of every definition that uses them, and what the code relies on of
  them are the predicates \<open>dh_agrees\<close>, \<open>aead_exact\<close>, \<open>kdf_length\<close>, \<open>b64_faithful\<close> and
  \<open>signatures_verify\<close>. Random bytes drawn from the operating system are arguments. Keys are
  byte lists; the fixed lengths of the source's arrays are checked where the source checks them.
\<close>

subsection \<open>The primitives\<close>

record primitives =
  x_public :: "bytes \<Rightarrow> bytes"
  x_dh :: "bytes \<Rightarrow> bytes \<Rightarrow> bytes"
  x_contributory :: "bytes \<Rightarrow> bool"
  hkdf_sha256 :: "bytes \<Rightarrow> bytes \<Rightarrow> bytes \<Rightarrow> bytes"
  aead_encrypt :: "bytes \<Rightarrow> bytes \<Rightarrow> bytes \<Rightarrow> bytes \<Rightarrow> bytes option"
  aead_decrypt :: "bytes \<Rightarrow> bytes \<Rightarrow> bytes \<Rightarrow> bytes \<Rightarrow> bytes option"
  ed_public :: "bytes \<Rightarrow> bytes"
  ed_valid_public :: "bytes \<Rightarrow> bool"
  ed_sign :: "bytes \<Rightarrow> bytes \<Rightarrow> bytes"
  ed_verify_strict :: "bytes \<Rightarrow> bytes \<Rightarrow> bytes \<Rightarrow> bool"
  b64_encode :: "bytes \<Rightarrow> string"
  b64_decode :: "string \<Rightarrow> bytes option"

definition NONCE_LEN :: nat where "NONCE_LEN = 32"
definition X25519_KEY_LEN :: nat where "X25519_KEY_LEN = 32"
definition XNONCE_LEN :: nat where "XNONCE_LEN = 24"
definition SECRET_KEY_LENGTH :: nat where "SECRET_KEY_LENGTH = 32"
definition PUBLIC_KEY_LENGTH :: nat where "PUBLIC_KEY_LENGTH = 32"
definition SIGNATURE_LENGTH :: nat where "SIGNATURE_LENGTH = 64"

lemmas crypto_consts = NONCE_LEN_def X25519_KEY_LEN_def XNONCE_LEN_def SECRET_KEY_LENGTH_def
  PUBLIC_KEY_LENGTH_def SIGNATURE_LENGTH_def

datatype crypto_error =
    Base64
  | BadPrivateKey
  | BadPublicKey
  | BadSignature
  | VerificationFailed
  | BadEncryptionKey
  | EncryptionFailed
  | DecryptionFailed

definition b64_decode_res :: "primitives \<Rightarrow> string \<Rightarrow> (crypto_error, bytes) res" where
  "b64_decode_res P s = (case b64_decode P s of None \<Rightarrow> Inl Base64 | Some b \<Rightarrow> Inr b)"

definition array_of :: "nat \<Rightarrow> 'e \<Rightarrow> bytes \<Rightarrow> ('e, bytes) res" where
  "array_of n e b = (if length b = n then Inr b else Inl e)"

subsection \<open>Nonces, keys and signatures\<close>

definition nonce_to_base64 :: "primitives \<Rightarrow> bytes \<Rightarrow> string" where
  "nonce_to_base64 P n = b64_encode P n"

definition nonce_from_base64 :: "primitives \<Rightarrow> string \<Rightarrow> (crypto_error, bytes) res" where
  "nonce_from_base64 P s = res_bind (b64_decode_res P s) (array_of NONCE_LEN BadSignature)"

text \<open>\<open>generate_keypair\<close> from the random seed: base64 of the seed and of the public key.\<close>

definition generate_keypair :: "primitives \<Rightarrow> bytes \<Rightarrow> string \<times> string" where
  "generate_keypair P seed = (b64_encode P seed, b64_encode P (ed_public P seed))"

definition load_signing_key :: "primitives \<Rightarrow> string \<Rightarrow> (crypto_error, bytes) res" where
  "load_signing_key P s = res_bind (b64_decode_res P s) (array_of SECRET_KEY_LENGTH BadPrivateKey)"

definition load_verifying_key :: "primitives \<Rightarrow> string \<Rightarrow> (crypto_error, bytes) res" where
  "load_verifying_key P s =
     res_bind (b64_decode_res P s) (\<lambda>decoded.
     res_bind (array_of PUBLIC_KEY_LENGTH BadPublicKey decoded) (\<lambda>b.
     if ed_valid_public P b then Inr b else Inl BadPublicKey))"

definition sign_payload :: "primitives \<Rightarrow> bytes \<Rightarrow> bytes \<Rightarrow> string" where
  "sign_payload P key payload = b64_encode P (ed_sign P key payload)"

definition sign_payload_raw :: "primitives \<Rightarrow> bytes \<Rightarrow> bytes \<Rightarrow> bytes" where
  "sign_payload_raw P key payload = ed_sign P key payload"

definition verify_payload_raw :: "primitives \<Rightarrow> bytes \<Rightarrow> bytes \<Rightarrow> bytes \<Rightarrow> (crypto_error, unit) res" where
  "verify_payload_raw P key payload sig =
     (if ed_verify_strict P key payload sig then Inr () else Inl VerificationFailed)"

definition verify_payload :: "primitives \<Rightarrow> bytes \<Rightarrow> bytes \<Rightarrow> string \<Rightarrow> (crypto_error, unit) res" where
  "verify_payload P key payload sig_b64 =
     res_bind (b64_decode_res P sig_b64) (\<lambda>b.
     res_bind (array_of SIGNATURE_LENGTH BadSignature b) (\<lambda>sig.
     if ed_verify_strict P key payload sig then Inr () else Inl VerificationFailed))"

definition public_key_fingerprint :: "primitives \<Rightarrow> string \<Rightarrow> (crypto_error, string) res" where
  "public_key_fingerprint P s = res_bind (load_verifying_key P s) (\<lambda>key. Inr (b64_encode P (take 8 key)))"

subsection \<open>Sealed boxes\<close>

definition CTX_WIRE :: bytes where "CTX_WIRE = str_bytes ''signedpulse:v1:wire''"
definition CTX_PARAM :: bytes where "CTX_PARAM = str_bytes ''signedpulse:v1:param''"
definition CTX_REPLY :: bytes where "CTX_REPLY = str_bytes ''signedpulse:v1:reply''"

definition generate_encryption_keypair :: "primitives \<Rightarrow> bytes \<Rightarrow> string \<times> string" where
  "generate_encryption_keypair P secret = (b64_encode P secret, b64_encode P (x_public P secret))"

definition x25519_from_base64 :: "primitives \<Rightarrow> string \<Rightarrow> (crypto_error, bytes) res" where
  "x25519_from_base64 P s = res_bind (b64_decode_res P s) (array_of X25519_KEY_LEN BadEncryptionKey)"

definition derive_key :: "primitives \<Rightarrow> bytes \<Rightarrow> bytes \<Rightarrow> bytes \<Rightarrow> bytes \<Rightarrow> bytes" where
  "derive_key P shared pub_a pub_b info = hkdf_sha256 P (pub_a @ pub_b) shared info"

text \<open>\<open>new_from_slice\<close> and \<open>encrypt\<close>, \<open>decrypt\<close> of the cipher under a derived key.\<close>

definition cipher_encrypt :: "primitives \<Rightarrow> bytes \<Rightarrow> bytes \<Rightarrow> bytes \<Rightarrow> bytes \<Rightarrow> (crypto_error, bytes) res" where
  "cipher_encrypt P key nonce aad msg =
     (if length key \<noteq> 32 then Inl EncryptionFailed
      else case aead_encrypt P key nonce aad msg of None \<Rightarrow> Inl EncryptionFailed | Some c \<Rightarrow> Inr c)"

definition cipher_decrypt :: "primitives \<Rightarrow> bytes \<Rightarrow> bytes \<Rightarrow> bytes \<Rightarrow> bytes \<Rightarrow> (crypto_error, bytes) res" where
  "cipher_decrypt P key nonce aad c =
     (if length key \<noteq> 32 then Inl DecryptionFailed
      else case aead_decrypt P key nonce aad c of None \<Rightarrow> Inl DecryptionFailed | Some m \<Rightarrow> Inr m)"

definition seal ::
  "primitives \<Rightarrow> bytes \<Rightarrow> bytes \<Rightarrow> bytes \<Rightarrow> bytes \<Rightarrow> bytes \<Rightarrow> (crypto_error, bytes \<times> bytes) res" where
  "seal P eph_secret nonce recipient_pub plaintext context =
     (let eph_pub = x_public P eph_secret;
          shared = x_dh P eph_secret recipient_pub
      in if \<not> x_contributory P shared then Inl EncryptionFailed
         else let key = derive_key P shared eph_pub recipient_pub context
              in res_bind (cipher_encrypt P key nonce context plaintext) (\<lambda>c.
                 Inr (eph_pub @ nonce @ c, eph_secret)))"

definition open_box :: "primitives \<Rightarrow> bytes \<Rightarrow> bytes \<Rightarrow> bytes \<Rightarrow> (crypto_error, bytes \<times> bytes) res" where
  "open_box P recipient_secret blob context =
     (if length blob < X25519_KEY_LEN + XNONCE_LEN then Inl DecryptionFailed
      else
        let recipient_pub = x_public P recipient_secret;
            eph_pub = take X25519_KEY_LEN blob;
            nonce = take XNONCE_LEN (drop X25519_KEY_LEN blob);
            c = drop (X25519_KEY_LEN + XNONCE_LEN) blob;
            shared = x_dh P recipient_secret eph_pub
        in if \<not> x_contributory P shared then Inl DecryptionFailed
           else let key = derive_key P shared eph_pub recipient_pub context
                in res_bind (cipher_decrypt P key nonce context c) (\<lambda>m. Inr (m, eph_pub)))"

definition reply_aad :: "bytes \<Rightarrow> bytes" where
  "reply_aad bind = CTX_REPLY @ bind"

definition seal_reply ::
  "primitives \<Rightarrow> bytes \<Rightarrow> bytes \<Rightarrow> bytes \<Rightarrow> bytes \<Rightarrow> bytes \<Rightarrow> (crypto_error, bytes) res" where
  "seal_reply P nonce server_secret client_eph_pub plaintext bind =
     (let server_pub = x_public P server_secret;
          shared = x_dh P server_secret client_eph_pub
      in if \<not> x_contributory P shared then Inl EncryptionFailed
         else let key = derive_key P shared server_pub client_eph_pub CTX_REPLY
              in res_bind (cipher_encrypt P key nonce (reply_aad bind) plaintext) (\<lambda>c. Inr (nonce @ c)))"

definition open_reply :: "primitives \<Rightarrow> bytes \<Rightarrow> bytes \<Rightarrow> bytes \<Rightarrow> bytes \<Rightarrow> (crypto_error, bytes) res" where
  "open_reply P client_eph_secret server_pub blob bind =
     (if length blob < XNONCE_LEN then Inl DecryptionFailed
      else
        let shared = x_dh P client_eph_secret server_pub
        in if \<not> x_contributory P shared then Inl DecryptionFailed
           else let client_eph_pub = x_public P client_eph_secret;
                    key = derive_key P shared server_pub client_eph_pub CTX_REPLY
                in cipher_decrypt P key (take XNONCE_LEN blob) (reply_aad bind) (drop XNONCE_LEN blob))"

subsection \<open>What the code relies on\<close>

text \<open>Diffie-Hellman agrees on both sides, and public keys have the length of the wire format.\<close>

definition dh_agrees :: "primitives \<Rightarrow> bool" where
  "dh_agrees P \<longleftrightarrow> (\<forall>a b. length a = X25519_KEY_LEN \<longrightarrow> length b = X25519_KEY_LEN \<longrightarrow>
     length (x_public P a) = X25519_KEY_LEN \<and> x_dh P a (x_public P b) = x_dh P b (x_public P a))"

text \<open>HKDF fills the 32 bytes that are asked of it.\<close>

definition kdf_length :: "primitives \<Rightarrow> bool" where
  "kdf_length P \<longleftrightarrow> (\<forall>salt ikm info. length (hkdf_sha256 P salt ikm info) = 32)"

text \<open>
  The cipher is deterministic and recomputes the tag when it decrypts, so a ciphertext decrypts
  to a message exactly when it is that message's encryption under the same key, nonce and
  associated data.
\<close>

definition aead_exact :: "primitives \<Rightarrow> bool" where
  "aead_exact P \<longleftrightarrow> (\<forall>key nonce aad m c. length key = 32 \<longrightarrow> length nonce = XNONCE_LEN \<longrightarrow>
     (aead_decrypt P key nonce aad c = Some m \<longleftrightarrow> aead_encrypt P key nonce aad m = Some c))"

text \<open>Encryption fails only on messages of an absurd length, and adds a tag of 16 bytes.\<close>

definition aead_total :: "primitives \<Rightarrow> bool" where
  "aead_total P \<longleftrightarrow> (\<forall>key nonce aad m. length key = 32 \<longrightarrow> length nonce = XNONCE_LEN \<longrightarrow> length m < 2 ^ 32 \<longrightarrow>
     (\<exists>c. aead_encrypt P key nonce aad m = Some c \<and> length c = length m + 16))"

text \<open>Base64 decodes what it encoded; its alphabet has no line feed.\<close>

definition b64_faithful :: "primitives \<Rightarrow> bool" where
  "b64_faithful P \<longleftrightarrow> (\<forall>b. b64_decode P (b64_encode P b) = Some b \<and> CHR 0x0A \<notin> set (b64_encode P b))"

text \<open>The key pair of a seed: signatures made with it verify.\<close>

definition key_signs :: "primitives \<Rightarrow> bytes \<Rightarrow> bool" where
  "key_signs P seed \<longleftrightarrow> length seed = SECRET_KEY_LENGTH \<and> length (ed_public P seed) = PUBLIC_KEY_LENGTH \<and>
     ed_valid_public P (ed_public P seed) \<and>
     (\<forall>m. length (ed_sign P seed m) = SIGNATURE_LENGTH \<and> ed_verify_strict P (ed_public P seed) m (ed_sign P seed m))"

definition box_laws :: "primitives \<Rightarrow> bool" where
  "box_laws P \<longleftrightarrow> dh_agrees P \<and> kdf_length P \<and> aead_exact P"

lemma b64_inj: "b64_faithful P \<Longrightarrow> b64_encode P a = b64_encode P b \<longleftrightarrow> a = b"
  unfolding b64_faithful_def by (metis option.inject)

lemma b64_decode_encode [simp]: "b64_faithful P \<Longrightarrow> b64_decode_res P (b64_encode P b) = Inr b"
  by (simp add: b64_faithful_def b64_decode_res_def)

lemma b64_no_newline [simp]: "b64_faithful P \<Longrightarrow> CHR 0x0A \<notin> set (b64_encode P b)"
  by (simp add: b64_faithful_def)

lemma derive_key_length [simp]: "box_laws P \<Longrightarrow> length (derive_key P sh a b i) = 32"
  by (simp add: box_laws_def kdf_length_def derive_key_def)

lemma x_public_length [simp]: "box_laws P \<Longrightarrow> length a = X25519_KEY_LEN \<Longrightarrow> length (x_public P a) = X25519_KEY_LEN"
  unfolding box_laws_def dh_agrees_def by blast

lemma dh_commutes: "box_laws P \<Longrightarrow> length a = X25519_KEY_LEN \<Longrightarrow> length b = X25519_KEY_LEN \<Longrightarrow>
    x_dh P a (x_public P b) = x_dh P b (x_public P a)"
  unfolding box_laws_def dh_agrees_def by blast

lemma cipher_exact:
  "box_laws P \<Longrightarrow> length key = 32 \<Longrightarrow> length nonce = XNONCE_LEN \<Longrightarrow>
   cipher_decrypt P key nonce aad c = Inr m \<longleftrightarrow> cipher_encrypt P key nonce aad m = Inr c"
proof -
  assume "box_laws P" "length key = 32" "length nonce = XNONCE_LEN"
  then have "aead_decrypt P key nonce aad c = Some m \<longleftrightarrow> aead_encrypt P key nonce aad m = Some c"
    unfolding box_laws_def aead_exact_def by blast
  then show ?thesis using \<open>length key = 32\<close>
    by (cases "aead_decrypt P key nonce aad c"; cases "aead_encrypt P key nonce aad m")
       (simp_all add: cipher_decrypt_def cipher_encrypt_def)
qed

lemma cipher_encrypt_total:
  "aead_total P \<Longrightarrow> length key = 32 \<Longrightarrow> length nonce = XNONCE_LEN \<Longrightarrow> length m < 2 ^ 32 \<Longrightarrow>
   \<exists>c. cipher_encrypt P key nonce aad m = Inr c \<and> length c = length m + 16"
  unfolding aead_total_def cipher_encrypt_def by (metis option.case(2))

text \<open>The associated data of the three uses never coincide, and a reply's binds its request.\<close>

lemma contexts_disjoint:
  "CTX_WIRE \<noteq> CTX_PARAM" "CTX_WIRE \<noteq> reply_aad b" "CTX_PARAM \<noteq> reply_aad b"
  "reply_aad b = reply_aad b' \<longleftrightarrow> b = b'"
  by (simp_all add: CTX_WIRE_def CTX_PARAM_def CTX_REPLY_def reply_aad_def str_bytes_def)

subsection \<open>Exactness of the boxes\<close>

lemma seal_cases: "seal P e n r m ctx = Inr (blob, e') \<longleftrightarrow>
    x_contributory P (x_dh P e r) \<and> e' = e \<and>
    (\<exists>c. cipher_encrypt P (derive_key P (x_dh P e r) (x_public P e) r ctx) n ctx m = Inr c \<and>
         blob = x_public P e @ n @ c)"
  by (auto simp: seal_def Let_def res_bind_eq_Inr)

lemma open_box_blob:
  "length ep = X25519_KEY_LEN \<Longrightarrow> length n = XNONCE_LEN \<Longrightarrow>
   open_box P s (ep @ n @ c) ctx =
     (if \<not> x_contributory P (x_dh P s ep) then Inl DecryptionFailed
      else res_bind (cipher_decrypt P (derive_key P (x_dh P s ep) ep (x_public P s) ctx) n ctx c) (\<lambda>m. Inr (m, ep)))"
  by (simp add: open_box_def Let_def)

lemma blob_parts:
  assumes "X25519_KEY_LEN + XNONCE_LEN \<le> length blob"
  obtains ep n c where "blob = ep @ n @ c" "length ep = X25519_KEY_LEN" "length n = XNONCE_LEN"
proof -
  let ?r = "drop X25519_KEY_LEN blob"
  have "blob = take X25519_KEY_LEN blob @ take XNONCE_LEN ?r @ drop XNONCE_LEN ?r" by (simp del: drop_drop)
  then show thesis by (rule that) (use assms in simp_all)
qed

lemma open_box_exact:
  assumes "box_laws P" and "length s = X25519_KEY_LEN" and "length e = X25519_KEY_LEN"
  shows "open_box P s blob ctx = Inr (m, x_public P e) \<longleftrightarrow>
    (\<exists>n. length n = XNONCE_LEN \<and> seal P e n (x_public P s) m ctx = Inr (blob, e))"
proof
  assume o: "open_box P s blob ctx = Inr (m, x_public P e)"
  then have "X25519_KEY_LEN + XNONCE_LEN \<le> length blob" by (simp add: open_box_def split: if_splits)
  then obtain ep n c where b: "blob = ep @ n @ c" "length ep = X25519_KEY_LEN" "length n = XNONCE_LEN"
    by (rule blob_parts)
  with o have ep: "ep = x_public P e" and "x_contributory P (x_dh P s ep)"
    and "cipher_decrypt P (derive_key P (x_dh P s ep) ep (x_public P s) ctx) n ctx c = Inr m"
    by (auto simp: open_box_blob res_bind_eq_Inr split: if_splits)
  with b assms show "\<exists>n. length n = XNONCE_LEN \<and> seal P e n (x_public P s) m ctx = Inr (blob, e)"
    by (auto simp: seal_cases dh_commutes [of P s e] cipher_exact)
next
  assume "\<exists>n. length n = XNONCE_LEN \<and> seal P e n (x_public P s) m ctx = Inr (blob, e)"
  with assms show "open_box P s blob ctx = Inr (m, x_public P e)"
    by (auto simp: seal_cases open_box_blob dh_commutes [of P s e] res_bind_eq_Inr cipher_exact)
qed

lemma open_reply_exact:
  assumes "box_laws P" and "length s = X25519_KEY_LEN" and "length e = X25519_KEY_LEN"
  shows "open_reply P e (x_public P s) blob bind = Inr m \<longleftrightarrow>
    (\<exists>n. length n = XNONCE_LEN \<and> seal_reply P n s (x_public P e) m bind = Inr blob)"
proof (cases "length blob < XNONCE_LEN")
  case True
  then show ?thesis by (auto simp: open_reply_def seal_reply_def Let_def res_bind_eq_Inr split: if_splits)
next
  case False
  let ?n = "take XNONCE_LEN blob" and ?k = "derive_key P (x_dh P s (x_public P e)) (x_public P s) (x_public P e) CTX_REPLY"
  have "open_reply P e (x_public P s) blob bind = Inr m \<longleftrightarrow>
      x_contributory P (x_dh P s (x_public P e)) \<and> cipher_encrypt P ?k ?n (reply_aad bind) m = Inr (drop XNONCE_LEN blob)"
    using False assms by (simp add: open_reply_def Let_def dh_commutes [of P e s] cipher_exact)
  also have "\<dots> \<longleftrightarrow> (\<exists>n. length n = XNONCE_LEN \<and> seal_reply P n s (x_public P e) m bind = Inr blob)"
  proof
    assume "x_contributory P (x_dh P s (x_public P e)) \<and> cipher_encrypt P ?k ?n (reply_aad bind) m = Inr (drop XNONCE_LEN blob)"
    with False show "\<exists>n. length n = XNONCE_LEN \<and> seal_reply P n s (x_public P e) m bind = Inr blob"
      by (intro exI [of _ ?n]) (simp add: seal_reply_def Let_def)
  qed (auto simp: seal_reply_def Let_def res_bind_eq_Inr split: if_splits)
  finally show ?thesis .
qed

subsection \<open>An instance of the primitives\<close>

text \<open>
  Concrete functions that satisfy the laws, for evaluating the model; they have no security. The
  ciphertext is the message followed by key, nonce and associated data; base64 is replaced by
  hexadecimal; a signature is the first 64 bytes of key and message.
\<close>

fun hexify :: "bytes \<Rightarrow> string" where
  "hexify [] = []"
| "hexify (b # bs) = hex_char (unat (drop_bit 4 b)) # hex_char (unat (b AND 0xf)) # hexify bs"

fun unhexify :: "string \<Rightarrow> bytes option" where
  "unhexify [] = Some []"
| "unhexify [c] = None"
| "unhexify (c # d # s) =
     (case (hex_val c, hex_val d, unhexify s) of
        (Some h, Some l, Some bs) \<Rightarrow> Some (word_of_nat (16 * h + l) # bs)
      | _ \<Rightarrow> None)"

definition demo_encrypt :: "bytes \<Rightarrow> bytes \<Rightarrow> bytes \<Rightarrow> bytes \<Rightarrow> bytes option" where
  "demo_encrypt key nonce aad m = Some (m @ take 16 (rev (aad @ nonce @ key)))"

definition demo_decrypt :: "bytes \<Rightarrow> bytes \<Rightarrow> bytes \<Rightarrow> bytes \<Rightarrow> bytes option" where
  "demo_decrypt key nonce aad c =
     (let n = length c - 16 in
      if 16 \<le> length c \<and> drop n c = take 16 (rev (aad @ nonce @ key)) then Some (take n c) else None)"

definition demo_sign :: "bytes \<Rightarrow> bytes \<Rightarrow> bytes" where
  "demo_sign key m = take 64 (key @ m @ replicate 64 0)"

definition demo :: primitives where
  "demo = \<lparr>x_public = (\<lambda>s. s), x_dh = (\<lambda>a b. map2 (+) a b), x_contributory = (\<lambda>_. True),
     hkdf_sha256 = (\<lambda>salt ikm info. take 32 (ikm @ salt @ info @ replicate 32 0)),
     aead_encrypt = demo_encrypt, aead_decrypt = demo_decrypt,
     ed_public = (\<lambda>s. s), ed_valid_public = (\<lambda>_. True), ed_sign = demo_sign,
     ed_verify_strict = (\<lambda>key m sig. sig = demo_sign key m),
     b64_encode = hexify, b64_decode = unhexify\<rparr>"

lemma suffix_exact:
  assumes "length t = k"
  shows "k \<le> length c \<and> drop (length c - k) c = t \<and> take (length c - k) c = m \<longleftrightarrow> c = m @ t"
proof
  assume h: "k \<le> length c \<and> drop (length c - k) c = t \<and> take (length c - k) c = m"
  have "c = take (length c - k) c @ drop (length c - k) c" by simp
  with h show "c = m @ t" by metis
qed (use assms in auto)

lemma demo_exact: "length key = 32 \<Longrightarrow>
    demo_decrypt key nonce aad c = Some m \<longleftrightarrow> demo_encrypt key nonce aad m = Some c"
  using suffix_exact [of "take 16 (rev (aad @ nonce @ key))" 16 c m]
  by (auto simp: demo_decrypt_def demo_encrypt_def Let_def)

lemma map2_add_commute: "map2 (+) a b = map2 (+) b (a :: bytes)"
  by (induction a b rule: list_induct2') (simp_all add: add.commute)

lemma unhexify_hexify [simp]: "unhexify (hexify bs) = Some bs"
proof (induction bs)
  case Nil
  then show ?case by simp
next
  case (Cons b bs)
  have "word_of_nat (16 * unat (drop_bit 4 b) + unat (b AND 0xf)) = b"
    unfolding unat_hi_nibble unat_lo_nibble mult_div_mod_eq by simp
  with Cons show ?case by simp
qed

lemma hexify_no_newline: "CHR 0x0A \<notin> set (hexify bs)"
proof (induction bs)
  case Nil
  then show ?case by simp
next
  case (Cons b bs)
  have "hex_char d \<noteq> CHR 0x0A" if "d < 16" for d
    using hex_val_hex_char [OF that] by (auto simp: hex_val_def)
  with Cons show ?case by (simp add: eq_commute [of "CHR 0x0A"])
qed

lemma demo_laws [simp]: "box_laws demo" "b64_faithful demo" "aead_total demo"
proof -
  have "aead_exact demo" using demo_exact by (simp add: aead_exact_def demo_def)
  moreover have "dh_agrees demo" by (simp add: dh_agrees_def demo_def map2_add_commute)
  moreover have "kdf_length demo" by (auto simp: kdf_length_def demo_def min_def)
  ultimately show "box_laws demo" by (simp add: box_laws_def)
  show "b64_faithful demo" by (simp add: b64_faithful_def demo_def hexify_no_newline)
  show "aead_total demo" by (simp add: aead_total_def demo_def demo_encrypt_def XNONCE_LEN_def)
qed

lemma demo_key_signs [simp]: "length seed = 32 \<Longrightarrow> key_signs demo seed"
  by (auto simp: key_signs_def demo_def demo_sign_def crypto_consts min_def)

subsection \<open>Properties\<close>



text \<open>
  C20: The client's \<open>open_reply\<close> accepts exactly the blobs that \<open>seal_reply\<close> can produce with the
  pinned server's secret, for this client's ephemeral key and this HELLO's nonce; the associated
  data of replies to different HELLOs differ, and differ from those of packets and parameters.
\<close>

theorem reply_authenticates_server:
  assumes "box_laws P" and "length s = X25519_KEY_LEN" and "length e = X25519_KEY_LEN"
  shows "(open_reply P e (x_public P s) blob bind = Inr m \<longleftrightarrow>
      (\<exists>n. length n = XNONCE_LEN \<and> seal_reply P n s (x_public P e) m bind = Inr blob)) \<and>
    (reply_aad bind = reply_aad bind' \<longleftrightarrow> bind = bind') \<and> reply_aad bind \<notin> {CTX_WIRE, CTX_PARAM}"
  using open_reply_exact [OF assms] contexts_disjoint(2,3) [of bind]
  by (auto simp: contexts_disjoint(4))

theorem reply_authenticates_server_witness:
  "(open_reply demo (replicate 32 1) (replicate 32 2) (replicate 24 5 @ [9]) [4] = Inr [] \<longleftrightarrow>
      (\<exists>n. length n = XNONCE_LEN \<and> seal_reply demo n (replicate 32 2) (replicate 32 1) [] [4] = Inr (replicate 24 5 @ [9])))"
  using reply_authenticates_server [of demo "replicate 32 2" "replicate 32 1" "replicate 24 5 @ [9]" "[4]" "[]"]
  by (simp add: demo_def [THEN arg_cong [where f = x_public]] crypto_consts)

text \<open>
  Generated keys load: the base64 texts of a generated signing pair load to the seed and to
  its public key, and a signature made with the one verifies under the other, raw and as base64;
  the texts of a generated encryption pair load to the secret and its public key.
\<close>

theorem generated_keys_load:
  assumes "b64_faithful P" and "key_signs P seed"
    and "length secret = X25519_KEY_LEN" and "length (x_public P secret) = X25519_KEY_LEN"
  shows "load_signing_key P (fst (generate_keypair P seed)) = Inr seed \<and>
    load_verifying_key P (snd (generate_keypair P seed)) = Inr (ed_public P seed) \<and>
    verify_payload_raw P (ed_public P seed) m (sign_payload_raw P seed m) = Inr () \<and>
    verify_payload P (ed_public P seed) m (sign_payload P seed m) = Inr () \<and>
    x25519_from_base64 P (fst (generate_encryption_keypair P secret)) = Inr secret \<and>
    x25519_from_base64 P (snd (generate_encryption_keypair P secret)) = Inr (x_public P secret)"
  using assms
  by (simp add: key_signs_def generate_keypair_def load_signing_key_def load_verifying_key_def array_of_def
      verify_payload_raw_def sign_payload_raw_def verify_payload_def sign_payload_def
      generate_encryption_keypair_def x25519_from_base64_def)

theorem generated_keys_load_witness:
  "load_signing_key demo (fst (generate_keypair demo (replicate 32 3))) = Inr (replicate 32 3)"
  using generated_keys_load [of demo "replicate 32 3" "replicate 32 4" "[]"]
  by (simp add: demo_def [THEN arg_cong [where f = x_public]] crypto_consts)

end
