(* ===== verification/Net.thy ===== *)
theory Net
  imports Rust_Text
begin

text \<open>
  Addresses as the standard library has them: \<open>IpAddr\<close> and the text that its \<open>Display\<close>
  writes. An IPv4 address is its four bytes, an IPv6 address its eight 16-bit segments.
\<close>

datatype ip_addr = V4 "8 word" "8 word" "8 word" "8 word" | V6 "16 word list"

definition show_byte :: "8 word \<Rightarrow> string" where
  "show_byte b = show_nat (unat b)"

definition show_v4 :: "8 word \<Rightarrow> 8 word \<Rightarrow> 8 word \<Rightarrow> 8 word \<Rightarrow> string" where
  "show_v4 a b c d = show_byte a @ ''.'' @ show_byte b @ ''.'' @ show_byte c @ ''.'' @ show_byte d"

text \<open>Lowercase hexadecimal without leading zeros.\<close>

fun show_hex :: "nat \<Rightarrow> string" where
  "show_hex n = (if n < 16 then [hex_char n] else show_hex (n div 16) @ [hex_char (n mod 16)])"

declare show_hex.simps [simp del]

fun show_segments :: "16 word list \<Rightarrow> string" where
  "show_segments [] = ''''"
| "show_segments [x] = show_hex (unat x)"
| "show_segments (x # y # xs) = show_hex (unat x) @ '':'' @ show_segments (y # xs)"

text \<open>The first longest run of zero segments, as its start and length.\<close>

fun zero_run :: "nat \<Rightarrow> nat \<times> nat \<Rightarrow> nat \<times> nat \<Rightarrow> 16 word list \<Rightarrow> nat \<times> nat" where
  "zero_run i best cur [] = best"
| "zero_run i best cur (x # xs) =
     (if x = 0
      then let cur' = (if snd cur = 0 then i else fst cur, Suc (snd cur));
               best' = (if snd best < snd cur' then cur' else best)
           in zero_run (Suc i) best' cur' xs
      else zero_run (Suc i) best (0, 0) xs)"

definition show_v6 :: "16 word list \<Rightarrow> string" where
  "show_v6 xs =
     (if take 6 xs = [0, 0, 0, 0, 0, 0xffff] \<and> length xs = 8
      then let g = xs ! 6; h = xs ! 7
           in ''::ffff:'' @ show_v4 (ucast (drop_bit 8 g)) (ucast g) (ucast (drop_bit 8 h)) (ucast h)
      else let (start, n) = zero_run 0 (0, 0) (0, 0) xs
           in if 1 < n
              then show_segments (take start xs) @ ''::'' @ show_segments (drop (start + n) xs)
              else show_segments xs)"

fun ip_to_string :: "ip_addr \<Rightarrow> string" where
  "ip_to_string (V4 a b c d) = show_v4 a b c d"
| "ip_to_string (V6 xs) = show_v6 xs"

text \<open>The text of an address consists of lowercase hexadecimal digits, dots and colons.\<close>

definition ip_chars :: "char set" where
  "ip_chars = set ''0123456789abcdef.:''"

lemma hex_char_ip [simp]: "d < 16 \<Longrightarrow> hex_char d \<in> ip_chars"
proof -
  have "\<forall>d \<in> {..<16}. hex_char d \<in> ip_chars"
    by (simp add: hex_char_def ip_chars_def lessThan_nat_numeral lessThan_Suc char_of_eq_iff)
  then show "d < 16 \<Longrightarrow> hex_char d \<in> ip_chars" by blast
qed

lemma show_hex_ip: "set (show_hex n) \<subseteq> ip_chars"
proof (induction n rule: show_hex.induct)
  case (1 n)
  then show ?case by (simp add: show_hex.simps [of n])
qed

lemma digit_ip: "d < 10 \<Longrightarrow> digit d \<in> ip_chars"
  using hex_char_ip [of d] by (simp add: hex_char_def digit_def)

lemma show_nat_ip: "set (show_nat n) \<subseteq> ip_chars"
proof (induction n rule: show_nat.induct)
  case (1 n)
  then show ?case by (simp add: show_nat.simps [of n] digit_ip)
qed

lemma punctuation_ip [simp]: "CHR ''.'' \<in> ip_chars" "CHR '':'' \<in> ip_chars"
  "CHR ''f'' \<in> ip_chars"
  by (simp_all add: ip_chars_def)

lemma show_v4_ip: "set (show_v4 a b c d) \<subseteq> ip_chars"
  by (simp add: show_v4_def show_byte_def show_nat_ip)

lemma show_segments_ip: "set (show_segments xs) \<subseteq> ip_chars"
  by (induction xs rule: show_segments.induct) (simp_all add: show_hex_ip)

lemma show_v6_ip: "set (show_v6 xs) \<subseteq> ip_chars"
proof -
  obtain i n where "zero_run 0 (0, 0) (0, 0) xs = (i, n)" by fastforce
  then show ?thesis by (simp add: show_v4_ip show_v6_def show_segments_ip Let_def)
qed

lemma ip_to_string_chars: "set (ip_to_string a) \<subseteq> ip_chars"
  by (cases a) (simp_all add: show_v4_ip show_v6_ip)

end
