(* ===== verification/Nonce_Store.thy ===== *)
theory Nonce_Store
  imports Interfaces Net
begin

text \<open>
  The store of issued challenge nonces, \<open>signedpulse-server/src/nonce_store.rs\<close>. Every
  operation holds the store's mutex from beginning to end, so a concurrent execution is a list
  of operations; \<open>store_step\<close> performs one. The entry's clock reading is an argument.
\<close>

subsection \<open>The store\<close>

record nonce_entry =
  ne_client_id :: string
  ne_source_ip :: ip_addr
  ne_source_port :: nat
  ne_created_at_unix :: int
  ne_expires_at_unix :: int
  ne_used :: bool

datatype consume_error = Unknown | AlreadyUsed | Expired | ClientMismatch | EndpointMismatch

fun reason :: "consume_error \<Rightarrow> string" where
  "reason Unknown = ''nonce unknown''"
| "reason AlreadyUsed = ''nonce already used (replay)''"
| "reason Expired = ''nonce expired''"
| "reason ClientMismatch = ''nonce client_id mismatch''"
| "reason EndpointMismatch = ''nonce source endpoint mismatch''"

text \<open>
  \<open>now_unix\<close>: the system clock in nanoseconds from the unix epoch, cut down to seconds;
  a clock before the epoch reads as zero, and the seconds are cast from 64 unsigned bits.
\<close>

definition now_unix :: "int \<Rightarrow> int" where
  "now_unix t =
     (if t < 0 then 0
      else let s = (t div 1000000000) mod 2 ^ 64 in if s < 2 ^ 63 then s else s - 2 ^ 64)"

type_synonym nonce_store = "(bytes, nonce_entry) hmap"

definition ns_new :: nonce_store where "ns_new = []"

definition ns_insert :: "bytes \<Rightarrow> string \<Rightarrow> ip_addr \<Rightarrow> nat \<Rightarrow> int \<Rightarrow> int \<Rightarrow> nonce_store \<Rightarrow> nonce_store" where
  "ns_insert nonce client ip port expires_at now s =
     hm_put nonce \<lparr>ne_client_id = client, ne_source_ip = ip, ne_source_port = port,
       ne_created_at_unix = now, ne_expires_at_unix = expires_at, ne_used = False\<rparr> s"

definition check :: "nonce_entry \<Rightarrow> string \<Rightarrow> ip_addr \<Rightarrow> nat \<Rightarrow> int \<Rightarrow> (consume_error, unit) res" where
  "check e client ip port now =
     (if ne_used e then Inl AlreadyUsed
      else if ne_expires_at_unix e < now then Inl Expired
      else if ne_client_id e \<noteq> client then Inl ClientMismatch
      else if ne_source_ip e \<noteq> ip \<or> ne_source_port e \<noteq> port then Inl EndpointMismatch
      else Inr ())"

definition validate ::
  "bytes \<Rightarrow> string \<Rightarrow> ip_addr \<Rightarrow> nat \<Rightarrow> int \<Rightarrow> nonce_store \<Rightarrow> (consume_error, nonce_entry) res" where
  "validate nonce client ip port now s =
     (case map_of s nonce of
        None \<Rightarrow> Inl Unknown
      | Some e \<Rightarrow> res_bind (check e client ip port now) (\<lambda>_. Inr e))"

definition consume ::
  "bytes \<Rightarrow> string \<Rightarrow> ip_addr \<Rightarrow> nat \<Rightarrow> int \<Rightarrow> nonce_store \<Rightarrow> nonce_store \<times> (consume_error, nonce_entry) res" where
  "consume nonce client ip port now s =
     (case map_of s nonce of
        None \<Rightarrow> (s, Inl Unknown)
      | Some e \<Rightarrow>
          (case check e client ip port now of
             Inl err \<Rightarrow> (s, Inl err)
           | Inr _ \<Rightarrow> (let e' = e\<lparr>ne_used := True\<rparr> in (hm_put nonce e' s, Inr e'))))"

definition ns_purge_expired :: "int \<Rightarrow> nonce_store \<Rightarrow> nonce_store \<times> nat" where
  "ns_purge_expired now s =
     (let s' = hm_retain (\<lambda>_ e. now \<le> ne_expires_at_unix e) s in (s', length s - length s'))"

subsection \<open>Runs of the store\<close>

datatype store_op =
    OpInsert bytes string ip_addr nat int int
  | OpValidate bytes string ip_addr nat int
  | OpConsume bytes string ip_addr nat int
  | OpPurge int

fun store_step :: "store_op \<Rightarrow> nonce_store \<Rightarrow> nonce_store" where
  "store_step (OpInsert n c ip p e now) s = ns_insert n c ip p e now s"
| "store_step (OpValidate n c ip p now) s = s"
| "store_step (OpConsume n c ip p now) s = fst (consume n c ip p now s)"
| "store_step (OpPurge now) s = fst (ns_purge_expired now s)"

text \<open>The operation \<open>x\<close> consumes the nonce \<open>n\<close>, respectively issues it.\<close>

fun consumes :: "store_op \<Rightarrow> nonce_store \<Rightarrow> bytes \<Rightarrow> bool" where
  "consumes (OpConsume n c ip p now) s n' \<longleftrightarrow> n' = n \<and> (\<exists>e. snd (consume n c ip p now s) = Inr e)"
| "consumes _ s n' \<longleftrightarrow> False"

fun issues :: "store_op \<Rightarrow> bytes \<Rightarrow> bool" where
  "issues (OpInsert n c ip p e now) n' \<longleftrightarrow> n' = n"
| "issues _ n' \<longleftrightarrow> False"

definition ns_unused :: "nonce_store \<Rightarrow> bytes \<Rightarrow> bool" where
  "ns_unused s n \<longleftrightarrow> (case map_of s n of Some e \<Rightarrow> \<not> ne_used e | None \<Rightarrow> False)"

subsection \<open>What a consumption does\<close>

lemma check_Inr [simp]: "check e c ip p now = Inr u \<longleftrightarrow>
    \<not> ne_used e \<and> now \<le> ne_expires_at_unix e \<and> ne_client_id e = c \<and> ne_source_ip e = ip \<and> ne_source_port e = p"
  by (auto simp: check_def)

lemma consume_cases:
  obtains (fails) err where "validate n c ip p now s = Inl err" "consume n c ip p now s = (s, Inl err)"
  | (succeeds) e where "map_of s n = Some e" "check e c ip p now = Inr ()" "validate n c ip p now s = Inr e"
      "consume n c ip p now s = (hm_put n (e\<lparr>ne_used := True\<rparr>) s, Inr (e\<lparr>ne_used := True\<rparr>))"
proof (cases "map_of s n")
  case None
  then show ?thesis by (intro fails [of Unknown]) (simp_all add: consume_def validate_def)
next
  case (Some e)
  show ?thesis
  proof (cases "check e c ip p now")
    case (Inl err)
    with Some show ?thesis by (intro fails [of err]) (simp_all add: consume_def validate_def)
  next
    case (Inr u)
    with Some show ?thesis
      by (intro succeeds [of e]) (simp_all add: consume_def validate_def Let_def del: check_Inr)
  qed
qed

lemma consume_verdict: "snd (consume n c ip p now s) = res_bind (validate n c ip p now s) (\<lambda>e. Inr (e\<lparr>ne_used := True\<rparr>))"
  by (cases rule: consume_cases [of n c ip p now s]) simp_all

lemma hm_ok_store_step: "hm_ok s \<Longrightarrow> hm_ok (store_step x s)"
proof (induction x)
  case (OpConsume n c ip p now)
  then show ?case by (cases rule: consume_cases [of n c ip p now s]) simp_all
qed (simp_all add: ns_insert_def ns_purge_expired_def Let_def)

lemma unused_after_step: "hm_ok s \<Longrightarrow> ns_unused (store_step x s) n \<Longrightarrow> ns_unused s n \<or> issues x n"
proof (induction x)
  case (OpConsume m c ip p now)
  then show ?case
    by (cases rule: consume_cases [of m c ip p now s])
       (auto simp: ns_unused_def split: option.splits if_splits)
qed (auto simp: ns_insert_def ns_purge_expired_def ns_unused_def Let_def map_of_hm_retain
       split: option.splits if_splits)

interpretation nonces: token_table hm_ok ns_unused store_step consumes issues
proof unfold_locales
  fix s :: nonce_store and x n
  assume "hm_ok s"
  then show "hm_ok (store_step x s)" by (rule hm_ok_store_step)
next
  fix s :: nonce_store and x n
  assume "consumes x s n"
  then show "ns_unused s n"
  proof (cases x)
    case (OpConsume m c ip p now)
    with \<open>consumes x s n\<close> show ?thesis
      by (cases rule: consume_cases [of m c ip p now s]) (auto simp: ns_unused_def)
  qed simp_all
next
  fix s :: nonce_store and x n
  assume "consumes x s n"
  then show "\<not> ns_unused (store_step x s) n"
  proof (cases x)
    case (OpConsume m c ip p now)
    with \<open>consumes x s n\<close> show ?thesis
      by (cases rule: consume_cases [of m c ip p now s]) (auto simp: ns_unused_def)
  qed simp_all
next
  fix s :: nonce_store and x n
  assume "hm_ok s" "ns_unused (store_step x s) n"
  then show "ns_unused s n \<or> issues x n" by (rule unused_after_step)
qed

interpretation nonce_ttl: ttl_table hm_ok map_of "\<lambda>s t e. t \<le> ne_expires_at_unix e"
  "\<lambda>t s. fst (ns_purge_expired t s)"
  by unfold_locales (auto simp: ns_purge_expired_def Let_def map_of_retain_live)

lemma validate_live: "validate n c ip p now s = Inr e \<longleftrightarrow>
    live_at (\<lambda>e. now \<le> ne_expires_at_unix e) (map_of s n) = Some e \<and> check e c ip p now = Inr ()"
  by (auto simp: validate_def live_at_eq_Some res_bind_eq_Inr split: option.splits)

lemma consume_live: "snd (consume n c ip p now s) = Inr e \<longleftrightarrow>
    (\<exists>e'. validate n c ip p now s = Inr e' \<and> e = e'\<lparr>ne_used := True\<rparr>)"
  by (auto simp: consume_verdict res_bind_eq_Inr)

lemma consume_other: "m \<noteq> n \<Longrightarrow> map_of (fst (consume n c ip p now s)) m = map_of s m"
  by (cases rule: consume_cases [of n c ip p now s]) simp_all

lemma hm_ok_consume [simp]: "hm_ok s \<Longrightarrow> hm_ok (fst (consume n c ip p now s))"
  using hm_ok_store_step [of s "OpConsume n c ip p now"] by simp

lemma hm_ok_ns_insert [simp]: "hm_ok s \<Longrightarrow> hm_ok (ns_insert n c ip p e now s)"
  by (simp add: ns_insert_def)

lemma hm_ok_ns_purge [simp]: "hm_ok s \<Longrightarrow> hm_ok (fst (ns_purge_expired now s))"
  by (simp add: ns_purge_expired_def Let_def)

subsection \<open>Properties\<close>

definition sample_ip :: ip_addr where
  "sample_ip = V4 192 0 2 5"

definition sample_store :: nonce_store where
  "sample_store = ns_insert [7] ''c1'' sample_ip 1111 130 100 ns_new"

definition sample_entry :: nonce_entry where
  "sample_entry = \<lparr>ne_client_id = ''c1'', ne_source_ip = sample_ip, ne_source_port = 1111,
     ne_created_at_unix = 100, ne_expires_at_unix = 130, ne_used = False\<rparr>"

lemma sample_store_facts [simp]:
  "hm_ok sample_store"
  "map_of sample_store [7] = Some sample_entry"
  by (simp_all add: sample_store_def sample_entry_def ns_insert_def ns_new_def)

lemma sample_valid: "t \<le> 130 \<Longrightarrow> validate [7] ''c1'' sample_ip 1111 t sample_store = Inr sample_entry"
  by (simp add: validate_live sample_entry_def)

text \<open>
  C21: \<open>NonceStore::consume\<close> accepts exactly the recorded binding: it succeeds if and only if
  the nonce is in the store, unused, not past its expiry, and bound to this client and this
  source address and port; it then marks the nonce used and changes nothing else, and on every
  refusal it leaves the whole store as it was.
\<close>

theorem consume_exact_binding:
  "((\<exists>e'. snd (consume n c ip p now s) = Inr e') \<longleftrightarrow>
      (\<exists>e. map_of s n = Some e \<and> \<not> ne_used e \<and> now \<le> ne_expires_at_unix e \<and>
           ne_client_id e = c \<and> ne_source_ip e = ip \<and> ne_source_port e = p)) \<and>
   (\<forall>e err. (snd (consume n c ip p now s) = Inr e \<longrightarrow>
              map_of (fst (consume n c ip p now s)) = (map_of s)(n \<mapsto> e) \<and> ne_used e) \<and>
            (snd (consume n c ip p now s) = Inl err \<longrightarrow> fst (consume n c ip p now s) = s))"
  by (cases rule: consume_cases [of n c ip p now s])
     (auto simp: validate_def res_bind_eq_Inl check_def split: option.splits if_splits)

theorem consume_exact_binding_witness:
  "fst (consume [7] ''c1'' sample_ip 2222 100 sample_store) = sample_store \<and>
   (\<exists>e. snd (consume [7] ''c1'' sample_ip 1111 100 sample_store) = Inr e)"
  using consume_exact_binding [of "[7]" "''c1''" sample_ip 1111 100 sample_store]
    consume_exact_binding [of "[7]" "''c1''" sample_ip 2222 100 sample_store]
  by (cases "snd (consume [7] ''c1'' sample_ip 2222 100 sample_store)") (auto simp: sample_entry_def)

text \<open>
  The store reports a refusal in the fixed order replay, expiry, client, endpoint, and an
  unknown nonce only when there is no entry: a used nonce is called a replay whatever else is
  wrong with the attempt.
\<close>

theorem consume_refusals:
  assumes "map_of s n = Some e"
  shows "(ne_used e \<longrightarrow> snd (consume n c ip p now s) = Inl AlreadyUsed) \<and>
    (\<not> ne_used e \<and> ne_expires_at_unix e < now \<longrightarrow> snd (consume n c ip p now s) = Inl Expired) \<and>
    (\<not> ne_used e \<and> now \<le> ne_expires_at_unix e \<and> ne_client_id e \<noteq> c \<longrightarrow>
       snd (consume n c ip p now s) = Inl ClientMismatch) \<and>
    (\<not> ne_used e \<and> now \<le> ne_expires_at_unix e \<and> ne_client_id e = c \<and>
       (ne_source_ip e, ne_source_port e) \<noteq> (ip, p) \<longrightarrow>
       snd (consume n c ip p now s) = Inl EndpointMismatch)"
  using assms by (simp add: consume_def check_def)

theorem consume_refusals_witness:
  "snd (consume [7] ''c2'' sample_ip 2222 131 sample_store) = Inl Expired \<and>
   snd (consume [7] ''c2'' sample_ip 2222 130 sample_store) = Inl ClientMismatch"
  using consume_refusals [of sample_store "[7]" sample_entry "''c2''" sample_ip 2222]
  by (simp add: sample_entry_def)

text \<open>
  C12: However inserts, validations, consumptions and purges interleave, a nonce is consumed at
  most once for each time it was issued; from the empty store on, a nonce that was issued once
  is consumed at most once.
\<close>

theorem nonce_single_use:
  "count_takes store_step consumes n ns_new xs \<le> count_puts issues n xs"
  using nonces.takes_bounded [of ns_new n xs] by (simp add: ns_new_def ns_unused_def)

text \<open>
  Purging is invisible to a verdict: after any purges at times up to \<open>now\<close>, \<open>validate\<close>
  and \<open>consume\<close> at \<open>now\<close> accept exactly the attempts they accepted before.
\<close>

theorem purges_keep_verdicts:
  assumes "hm_ok s" and "\<forall>t \<in> set ts. t \<le> now"
  shows "(validate n c ip p now (fold (\<lambda>t s. fst (ns_purge_expired t s)) ts s) = Inr e \<longleftrightarrow>
            validate n c ip p now s = Inr e) \<and>
         (snd (consume n c ip p now (fold (\<lambda>t s. fst (ns_purge_expired t s)) ts s)) = Inr e \<longleftrightarrow>
            snd (consume n c ip p now s) = Inr e)"
  using nonce_ttl.purges_invisible [OF assms, of n] by (simp add: validate_live consume_live)

theorem purges_keep_verdicts_witness:
  "validate [7] ''c1'' sample_ip 1111 130 (fst (ns_purge_expired 130 sample_store)) = Inr sample_entry"
  using purges_keep_verdicts [of sample_store "[130]" 130 "[7]" "''c1''" sample_ip 1111 sample_entry]
  by (simp add: sample_valid)

text \<open>
  A successful \<open>validate\<close> is not spoiled by anything but a consumption, a new issue of
  the same nonce, or time: after operations on other nonces, validations, and purges up to
  \<open>now\<close>, the \<open>consume\<close> that follows it at \<open>now\<close> succeeds.
\<close>

theorem validated_nonce_consumable:
  assumes "hm_ok s" and "validate n c ip p now s = Inr e"
    and "\<forall>x \<in> set xs. \<not> issues x n \<and> (\<forall>c ip p t. x \<noteq> OpConsume n c ip p t) \<and> (\<forall>t. x = OpPurge t \<longrightarrow> t \<le> now)"
  shows "snd (consume n c ip p now (fold store_step xs s)) = Inr (e\<lparr>ne_used := True\<rparr>)"
proof -
  have "validate n c ip p now (fold store_step xs s) = Inr e"
    using assms
  proof (induction xs arbitrary: s)
    case Nil
    then show ?case by simp
  next
    case (Cons x xs)
    from Cons.prems have "validate n c ip p now (store_step x s) = Inr e"
      by (cases x) (auto simp: validate_live live_at_eq_Some ns_insert_def consume_other
          ns_purge_expired_def Let_def map_of_retain_live)
    with Cons.prems show ?case by (simp add: Cons.IH hm_ok_store_step)
  qed
  then show ?thesis by (simp add: consume_live)
qed

theorem validated_nonce_consumable_witness:
  "snd (consume [7] ''c1'' sample_ip 1111 130 (fold store_step
      [OpInsert [8] ''c2'' sample_ip 5 200 100, OpConsume [8] ''c2'' sample_ip 5 110, OpPurge 130] sample_store)) =
   Inr (sample_entry\<lparr>ne_used := True\<rparr>)"
  by (rule validated_nonce_consumable) (simp_all add: sample_valid)

end
