(* ===== verification/Seen_Cache.thy ===== *)
theory Seen_Cache
  imports Interfaces
begin

text \<open>
  The replay cache for HELLOs, \<open>signedpulse-server/src/seen_cache.rs\<close>: a table from an
  opaque key to the unix time until which the key counts as seen. The sum of the clock and the
  lifetime is taken in 128 bits and cut to the largest 64-bit value.
\<close>

subsection \<open>The cache\<close>

type_synonym seen_cache = "(bytes, int) hmap"

definition sc_new :: seen_cache where "sc_new = []"

definition insert_if_absent :: "bytes \<Rightarrow> int \<Rightarrow> nat \<Rightarrow> seen_cache \<Rightarrow> seen_cache \<times> bool" where
  "insert_if_absent key now ttl_seconds s =
     (let accept = (hm_put key (min (now + int ttl_seconds) i64_max) s, True)
      in case map_of s key of
           Some expires_at \<Rightarrow> if now \<le> expires_at then (s, False) else accept
         | None \<Rightarrow> accept)"

definition sc_purge_expired :: "int \<Rightarrow> seen_cache \<Rightarrow> seen_cache \<times> nat" where
  "sc_purge_expired now s =
     (let s' = hm_retain (\<lambda>_ expires_at. now \<le> expires_at) s in (s', length s - length s'))"

datatype seen_op = OpSee bytes int nat | OpForget int

fun seen_step :: "seen_op \<Rightarrow> seen_cache \<Rightarrow> seen_cache" where
  "seen_step (OpSee k now ttl) s = fst (insert_if_absent k now ttl s)"
| "seen_step (OpForget now) s = fst (sc_purge_expired now s)"

fun accepts :: "seen_op \<Rightarrow> seen_cache \<Rightarrow> bytes \<Rightarrow> bool" where
  "accepts (OpSee k now ttl) s k' \<longleftrightarrow> k' = k \<and> snd (insert_if_absent k now ttl s)"
| "accepts (OpForget now) s k' \<longleftrightarrow> False"

fun op_time :: "seen_op \<Rightarrow> int" where
  "op_time (OpSee k now ttl) = now"
| "op_time (OpForget now) = now"

subsection \<open>Lemmas\<close>

lemma accepted_iff: "snd (insert_if_absent k now ttl s) \<longleftrightarrow> live_at (\<lambda>e. now \<le> e) (map_of s k) = None"
  by (auto simp: insert_if_absent_def Let_def live_at_def split: option.splits)

lemma insert_if_absent_other: "k' \<noteq> k \<Longrightarrow> map_of (fst (insert_if_absent k now ttl s)) k' = map_of s k'"
  by (auto simp: insert_if_absent_def Let_def split: option.splits)

lemma hm_ok_seen_step: "hm_ok s \<Longrightarrow> hm_ok (seen_step x s)"
  by (cases x) (auto simp: insert_if_absent_def sc_purge_expired_def Let_def split: option.splits)

lemma hm_ok_insert_if_absent [simp]: "hm_ok s \<Longrightarrow> hm_ok (fst (insert_if_absent k now ttl s))"
  using hm_ok_seen_step [of s "OpSee k now ttl"] by simp

lemma hm_ok_sc_purge [simp]: "hm_ok s \<Longrightarrow> hm_ok (fst (sc_purge_expired now s))"
  using hm_ok_seen_step [of s "OpForget now"] by simp

interpretation seen_ttl: ttl_table hm_ok map_of "\<lambda>s t e. t \<le> e" "\<lambda>t s. fst (sc_purge_expired t s)"
  by unfold_locales (auto simp: sc_purge_expired_def Let_def map_of_retain_live)

text \<open>An entry that is live at every time of a run stays, and keeps the key from being accepted.\<close>

lemma live_entry_kept:
  assumes "hm_ok s" and "map_of s k = Some e" and "op_time x \<le> e"
  shows "map_of (seen_step x s) k = Some e \<and> \<not> accepts x s k"
proof (cases x)
  case (OpSee k' now ttl)
  with assms insert_if_absent_other [of k k' now ttl s] show ?thesis
    by (cases "k' = k") (simp_all add: insert_if_absent_def)
next
  case (OpForget now)
  with assms show ?thesis by (simp add: sc_purge_expired_def Let_def map_of_retain_live)
qed

lemma live_entry_blocks:
  assumes "hm_ok s" and "map_of s k = Some e" and "\<forall>x \<in> set xs. op_time x \<le> e"
  shows "map_of (fold seen_step xs s) k = Some e \<and> count_takes seen_step accepts k s xs = 0"
  using assms
proof (induction xs arbitrary: s)
  case Nil
  then show ?case by simp
next
  case (Cons x xs)
  with live_entry_kept [of s k e x] show ?case by (simp add: hm_ok_seen_step)
qed

lemma accept_records:
  "accepts x s k \<Longrightarrow> \<exists>ttl. x = OpSee k (op_time x) ttl \<and> map_of (seen_step x s) k = Some (min (op_time x + int ttl) i64_max)"
  by (cases x) (auto simp: insert_if_absent_def Let_def split: option.splits if_splits)

subsection \<open>Properties\<close>

text \<open>
  A key that was accepted is refused at every later attempt until its lifetime is over,
  whatever other keys are seen and whatever purges run in between, as long as no clock reading
  in between passes the end of the lifetime.
\<close>

theorem replay_refused:
  assumes "hm_ok s" and "snd (insert_if_absent k t ttl s)"
    and "\<forall>x \<in> set xs. op_time x \<le> min (t + int ttl) i64_max" and "t' \<le> min (t + int ttl) i64_max"
  shows "\<not> snd (insert_if_absent k t' ttl' (fold seen_step xs (fst (insert_if_absent k t ttl s))))"
proof -
  let ?s = "fst (insert_if_absent k t ttl s)"
  from assms(2) accept_records [of "OpSee k t ttl" s k]
  have "map_of ?s k = Some (min (t + int ttl) i64_max)" by simp
  with assms live_entry_blocks [of ?s k _ xs] have "map_of (fold seen_step xs ?s) k = Some (min (t + int ttl) i64_max)"
    by simp
  with assms(4) show ?thesis by (simp add: accepted_iff)
qed

theorem replay_refused_witness:
  "\<not> snd (insert_if_absent [1] 160 60 (fold seen_step [OpSee [2] 130 60, OpForget 160] (fst (insert_if_absent [1] 100 60 sc_new))))"
  by (rule replay_refused) (simp_all add: insert_if_absent_def sc_new_def i64_max_def)

text \<open>
  In a run whose clock readings all lie within one lifetime of each other, however they are
  ordered, a key is accepted at most once; an accepted HELLO is therefore never accepted again
  by a server whose replay window covers the times at which the HELLO is fresh.
\<close>

theorem accepted_once_per_window:
  assumes "hm_ok s"
    and "\<forall>x \<in> set xs. start \<le> op_time x \<and> op_time x \<le> min (start + int ttl) i64_max"
    and "\<forall>k t l. OpSee k t l \<in> set xs \<longrightarrow> ttl \<le> l"
  shows "count_takes seen_step accepts k s xs \<le> 1"
  using assms
proof (induction xs arbitrary: s)
  case Nil
  then show ?case by simp
next
  case (Cons x xs)
  have ok: "hm_ok (seen_step x s)" using Cons.prems(1) by (rule hm_ok_seen_step)
  show ?case
  proof (cases "accepts x s k")
    case False
    with Cons ok show ?thesis by simp
  next
    case True
    from accept_records [OF this] obtain l where l: "x = OpSee k (op_time x) l"
      and e: "map_of (seen_step x s) k = Some (min (op_time x + int l) i64_max)" by blast
    from l have "OpSee k (op_time x) l \<in> set (x # xs)" by (metis list.set_intros(1))
    with Cons.prems(3) have "ttl \<le> l" by blast
    moreover have "start \<le> op_time x" using Cons.prems(2) by simp
    ultimately have "\<forall>y \<in> set xs. op_time y \<le> min (op_time x + int l) i64_max"
      using Cons.prems(2) by fastforce
    with live_entry_blocks [OF ok e] True show ?thesis by simp
  qed
qed

theorem accepted_once_per_window_witness:
  "count_takes seen_step accepts [1] sc_new [OpSee [1] 120 60, OpForget 130, OpSee [1] 110 60, OpSee [1] 160 90] \<le> 1"
  by (rule accepted_once_per_window [where ttl = 60 and start = 100]) (auto simp: sc_new_def i64_max_def)

end
