(* ===== verification/Rate_Limit.thy ===== *)
theory Rate_Limit
  imports Interfaces Net
begin

text \<open>
  Three of the tables of \<open>signedpulse-server/src/rate_limit.rs\<close>: the fixed-window
  \<open>HelloRateLimiter\<close>, the \<open>CooldownTracker\<close> and the set of \<open>ActiveIps\<close>. The reading of
  \<open>Instant::now()\<close> that an operation makes is its argument; every operation holds the
  table's mutex, so a concurrent execution is a list of operations.
\<close>

subsection \<open>HelloRateLimiter\<close>

record window =
  w_start :: instant
  w_count :: nat

record hello_rate_limiter =
  rl_max_per_window :: nat
  rl_window :: duration
  rl_max_entries :: nat
  rl_state :: "(ip_addr, window) hmap"

definition rl_new :: "nat \<Rightarrow> nat \<Rightarrow> nat \<Rightarrow> hello_rate_limiter" where
  "rl_new max_per_window window_seconds max_entries =
     \<lparr>rl_max_per_window = max_per_window, rl_window = from_secs (max window_seconds 1),
      rl_max_entries = max_entries, rl_state = []\<rparr>"

definition check_at :: "ip_addr \<Rightarrow> instant \<Rightarrow> hello_rate_limiter \<Rightarrow> hello_rate_limiter \<times> bool" where
  "check_at ip now r =
     (if rl_max_per_window r = 0 then (r, True)
      else if 0 < rl_max_entries r \<and> rl_max_entries r \<le> length (rl_state r) \<and> \<not> hm_has (rl_state r) ip
      then (r, True)
      else
        let e = hm_entry (rl_state r) ip \<lparr>w_start = now, w_count = 0\<rparr>;
            e = (if rl_window r \<le> duration_since now (w_start e) then \<lparr>w_start = now, w_count = 0\<rparr> else e)
        in if rl_max_per_window r \<le> w_count e
           then (r\<lparr>rl_state := hm_put ip e (rl_state r)\<rparr>, False)
           else (r\<lparr>rl_state := hm_put ip (e\<lparr>w_count := w_count e + 1\<rparr>) (rl_state r)\<rparr>, True))"

definition rl_purge_stale :: "instant \<Rightarrow> hello_rate_limiter \<Rightarrow> hello_rate_limiter" where
  "rl_purge_stale now r =
     r\<lparr>rl_state := hm_retain (\<lambda>_ w. duration_since now (w_start w) < rl_window r) (rl_state r)\<rparr>"

datatype rl_op = RlCheck ip_addr instant | RlPurge instant

fun rl_step :: "rl_op \<Rightarrow> hello_rate_limiter \<Rightarrow> hello_rate_limiter" where
  "rl_step (RlCheck ip now) r = fst (check_at ip now r)"
| "rl_step (RlPurge now) r = rl_purge_stale now r"

fun rl_allows :: "rl_op \<Rightarrow> hello_rate_limiter \<Rightarrow> ip_addr \<Rightarrow> bool" where
  "rl_allows (RlCheck ip now) r ip' \<longleftrightarrow> ip' = ip \<and> snd (check_at ip now r)"
| "rl_allows (RlPurge now) r ip' \<longleftrightarrow> False"

fun rl_time :: "rl_op \<Rightarrow> instant" where
  "rl_time (RlCheck ip now) = now"
| "rl_time (RlPurge now) = now"

abbreviation rl_ok :: "hello_rate_limiter \<Rightarrow> bool" where
  "rl_ok r \<equiv> hm_ok (rl_state r)"

lemma rl_step_config [simp]:
  "rl_max_per_window (rl_step x r) = rl_max_per_window r"
  "rl_window (rl_step x r) = rl_window r"
  "rl_max_entries (rl_step x r) = rl_max_entries r"
  by (cases x; simp add: check_at_def rl_purge_stale_def Let_def)+

lemma rl_ok_step: "rl_ok r \<Longrightarrow> rl_ok (rl_step x r)"
  by (cases x) (simp_all add: check_at_def rl_purge_stale_def Let_def)

lemma rl_ok_check_at [simp]: "rl_ok r \<Longrightarrow> rl_ok (fst (check_at ip now r))"
  using rl_ok_step [of r "RlCheck ip now"] by simp

lemma rl_ok_purge [simp]: "rl_ok r \<Longrightarrow> rl_ok (rl_purge_stale now r)"
  by (simp add: rl_purge_stale_def)

text \<open>With the cap disabled there is no bound; the contract takes the larger of cap and size.\<close>

interpretation rl_cap: capped_table "\<lambda>r. rl_ok r \<and> 0 < rl_max_entries r" "\<lambda>r. length (rl_state r)"
  rl_max_entries rl_step
proof unfold_locales
  fix x r
  assume "rl_ok r \<and> 0 < rl_max_entries r"
  then show "rl_ok (rl_step x r) \<and> 0 < rl_max_entries (rl_step x r)" by (simp add: rl_ok_step)
next
  fix x r
  show "rl_max_entries (rl_step x r) = rl_max_entries r" by simp
next
  fix x r
  assume "rl_ok r \<and> 0 < rl_max_entries r"
  then show "length (rl_state (rl_step x r)) \<le> max (length (rl_state r)) (rl_max_entries r)"
    by (cases x) (auto simp: check_at_def rl_purge_stale_def Let_def length_hm_put le_max_iff_disj)
qed

interpretation rl_ttl: ttl_table rl_ok "\<lambda>r. map_of (rl_state r)"
  "\<lambda>r t w. duration_since t (w_start w) < rl_window r" rl_purge_stale
  by unfold_locales (auto simp: rl_purge_stale_def duration_since_def map_of_retain_live)

text \<open>
  What is left of the budget of \<open>ip\<close> in a period of at most one window that starts at \<open>a\<close>:
  a window opened before \<open>a\<close> may lapse once in the period, one opened in it may not.
\<close>

definition rl_budget :: "instant \<Rightarrow> ip_addr \<Rightarrow> hello_rate_limiter \<Rightarrow> nat" where
  "rl_budget a ip r =
     (let m = rl_max_per_window r in
      case map_of (rl_state r) ip of
        None \<Rightarrow> m
      | Some w \<Rightarrow> if a \<le> w_start w then m - w_count w else (m - w_count w) + m)"

definition rl_tracked :: "instant \<Rightarrow> ip_addr \<Rightarrow> hello_rate_limiter \<Rightarrow> bool" where
  "rl_tracked a ip r \<longleftrightarrow>
     rl_max_entries r = 0 \<or> (\<exists>w. map_of (rl_state r) ip = Some w \<and> a \<le> w_start w)"

lemma check_at_budget:
  assumes "0 < rl_max_per_window r" and "rl_tracked a ip r" and "a \<le> now" and "now < a + rl_window r"
  shows "(if snd (check_at ip now r) then 1 else 0) + rl_budget a ip (fst (check_at ip now r)) \<le> rl_budget a ip r \<and>
    rl_tracked a ip (fst (check_at ip now r))"
proof -
  have "\<not> (0 < rl_max_entries r \<and> rl_max_entries r \<le> length (rl_state r) \<and> \<not> hm_has (rl_state r) ip)"
    using assms(2) by (auto simp: rl_tracked_def hm_has_def)
  then show ?thesis using assms
    by (cases "map_of (rl_state r) ip")
       (auto simp: check_at_def Let_def rl_budget_def rl_tracked_def duration_since_def)
qed

lemma check_at_other:
  "ip' \<noteq> ip \<Longrightarrow> map_of (rl_state (fst (check_at ip now r))) ip' = map_of (rl_state r) ip'"
  by (simp add: check_at_def Let_def)

lemma rl_step_budget:
  assumes "rl_ok r" and "0 < rl_max_per_window r" and "rl_tracked a ip r"
    and "a \<le> rl_time x" and "rl_time x < a + rl_window r"
  shows "(if rl_allows x r ip then 1 else 0) + rl_budget a ip (rl_step x r) \<le> rl_budget a ip r \<and>
    rl_tracked a ip (rl_step x r)"
proof (cases x)
  case (RlCheck ip' now)
  with assms check_at_budget [of r a ip now] check_at_other [of ip ip' now r]
    rl_step_config [of x r]
  show ?thesis by (cases "ip' = ip") (simp_all add: rl_budget_def rl_tracked_def)
next
  case (RlPurge now)
  with assms show ?thesis
    by (auto simp: rl_budget_def rl_tracked_def rl_purge_stale_def map_of_retain_live live_at_def
        duration_since_def Let_def split: option.splits)
qed

lemma rl_run_budget:
  assumes "rl_ok r" and "0 < rl_max_per_window r" and "rl_tracked a ip r"
    and "\<forall>x \<in> set xs. a \<le> rl_time x \<and> rl_time x < a + rl_window r"
  shows "count_takes rl_step rl_allows ip r xs \<le> rl_budget a ip r"
  using assms
proof (induction xs arbitrary: r)
  case Nil
  then show ?case by simp
next
  case (Cons x xs)
  then have "count_takes rl_step rl_allows ip (rl_step x r) xs \<le> rl_budget a ip (rl_step x r)"
    using rl_step_budget [of r a ip x] by (intro Cons.IH) (simp_all add: rl_ok_step)
  with Cons.prems rl_step_budget [of r a ip x] show ?case by simp
qed

subsection \<open>CooldownTracker\<close>

record cooldown_tracker =
  cd_cooldown :: duration
  cd_last :: "(string, instant) hmap"

definition cd_new :: "nat \<Rightarrow> cooldown_tracker" where
  "cd_new cooldown_seconds = \<lparr>cd_cooldown = from_secs cooldown_seconds, cd_last = []\<rparr>"

definition in_cooldown :: "string \<Rightarrow> instant \<Rightarrow> cooldown_tracker \<Rightarrow> bool" where
  "in_cooldown key now c =
     (if cd_cooldown c = 0 then False
      else case map_of (cd_last c) key of
             Some t \<Rightarrow> duration_since now t < cd_cooldown c
           | None \<Rightarrow> False)"

definition cd_mark :: "string \<Rightarrow> instant \<Rightarrow> cooldown_tracker \<Rightarrow> cooldown_tracker" where
  "cd_mark key now c = (if cd_cooldown c = 0 then c else c\<lparr>cd_last := hm_put key now (cd_last c)\<rparr>)"

definition cd_purge_stale :: "instant \<Rightarrow> cooldown_tracker \<Rightarrow> cooldown_tracker" where
  "cd_purge_stale now c =
     (if cd_cooldown c = 0 then c
      else c\<lparr>cd_last := hm_retain (\<lambda>_ t. duration_since now t < cd_cooldown c) (cd_last c)\<rparr>)"

datatype cd_op = CdMark string instant | CdPurge instant

fun cd_step :: "cd_op \<Rightarrow> cooldown_tracker \<Rightarrow> cooldown_tracker" where
  "cd_step (CdMark k t) c = cd_mark k t c"
| "cd_step (CdPurge t) c = cd_purge_stale t c"

abbreviation cd_ok :: "cooldown_tracker \<Rightarrow> bool" where
  "cd_ok c \<equiv> hm_ok (cd_last c)"

lemma cd_step_cooldown [simp]: "cd_cooldown (cd_step x c) = cd_cooldown c"
  by (cases x) (simp_all add: cd_mark_def cd_purge_stale_def)

lemma cd_ok_step: "cd_ok c \<Longrightarrow> cd_ok (cd_step x c)"
  by (cases x) (simp_all add: cd_mark_def cd_purge_stale_def)

lemma cd_ok_mark [simp]: "cd_ok c \<Longrightarrow> cd_ok (cd_mark k t c)"
  by (simp add: cd_mark_def)

lemma cd_ok_purge [simp]: "cd_ok c \<Longrightarrow> cd_ok (cd_purge_stale t c)"
  by (simp add: cd_purge_stale_def)

interpretation cd_ttl: ttl_table cd_ok "\<lambda>c. map_of (cd_last c)"
  "\<lambda>c t v. cd_cooldown c = 0 \<or> duration_since t v < cd_cooldown c" cd_purge_stale
  by unfold_locales (auto simp: cd_purge_stale_def duration_since_def map_of_retain_live live_at_def split: option.splits)

lemma in_cooldown_live: "in_cooldown k now c \<longleftrightarrow> cd_cooldown c \<noteq> 0 \<and>
    live_at (\<lambda>v. cd_cooldown c = 0 \<or> duration_since now v < cd_cooldown c) (map_of (cd_last c) k) \<noteq> None"
  by (auto simp: in_cooldown_def live_at_def split: option.splits)

subsection \<open>ActiveIps\<close>

record active_ips =
  ai_ttl :: duration
  ai_max_entries :: nat
  ai_seen :: "(ip_addr, instant) hmap"

definition ai_new :: "nat \<Rightarrow> nat \<Rightarrow> active_ips" where
  "ai_new ttl_seconds max_entries =
     \<lparr>ai_ttl = from_secs (max ttl_seconds 1), ai_max_entries = max max_entries 1, ai_seen = []\<rparr>"

definition ai_mark :: "ip_addr \<Rightarrow> instant \<Rightarrow> active_ips \<Rightarrow> active_ips" where
  "ai_mark ip now a =
     (if hm_has (ai_seen a) ip \<or> length (ai_seen a) < ai_max_entries a
      then a\<lparr>ai_seen := hm_put ip now (ai_seen a)\<rparr> else a)"

definition is_active_at :: "ip_addr \<Rightarrow> instant \<Rightarrow> active_ips \<Rightarrow> bool" where
  "is_active_at ip now a =
     (case map_of (ai_seen a) ip of
        Some t \<Rightarrow> duration_since now t < ai_ttl a
      | None \<Rightarrow> False)"

definition ai_purge_stale :: "instant \<Rightarrow> active_ips \<Rightarrow> active_ips" where
  "ai_purge_stale now a =
     a\<lparr>ai_seen := hm_retain (\<lambda>_ t. duration_since now t < ai_ttl a) (ai_seen a)\<rparr>"

datatype ai_op = AiMark ip_addr instant | AiPurge instant

fun ai_step :: "ai_op \<Rightarrow> active_ips \<Rightarrow> active_ips" where
  "ai_step (AiMark ip t) a = ai_mark ip t a"
| "ai_step (AiPurge t) a = ai_purge_stale t a"

abbreviation ai_ok :: "active_ips \<Rightarrow> bool" where
  "ai_ok a \<equiv> hm_ok (ai_seen a)"

lemma ai_ok_mark [simp]: "ai_ok a \<Longrightarrow> ai_ok (ai_mark ip t a)"
  by (simp add: ai_mark_def)

lemma ai_ok_purge [simp]: "ai_ok a \<Longrightarrow> ai_ok (ai_purge_stale t a)"
  by (simp add: ai_purge_stale_def)

interpretation ai_ttl: ttl_table ai_ok "\<lambda>a. map_of (ai_seen a)"
  "\<lambda>a t v. duration_since t v < ai_ttl a" ai_purge_stale
  by unfold_locales (auto simp: ai_purge_stale_def duration_since_def map_of_retain_live)

interpretation ai_cap: capped_table ai_ok "\<lambda>a. length (ai_seen a)" ai_max_entries ai_step
proof unfold_locales
  fix x a
  assume "ai_ok a"
  then show "ai_ok (ai_step x a)" by (cases x) simp_all
next
  fix x a
  show "ai_max_entries (ai_step x a) = ai_max_entries a"
    by (cases x) (simp_all add: ai_mark_def ai_purge_stale_def)
next
  fix x a
  assume "ai_ok a"
  then show "length (ai_seen (ai_step x a)) \<le> max (length (ai_seen a)) (ai_max_entries a)"
    by (cases x) (auto simp: ai_mark_def ai_purge_stale_def length_hm_put le_max_iff_disj)
qed

lemma is_active_live: "is_active_at ip now a \<longleftrightarrow>
    live_at (\<lambda>v. duration_since now v < ai_ttl a) (map_of (ai_seen a) ip) \<noteq> None"
  by (auto simp: is_active_at_def live_at_def split: option.splits)

text \<open>Marks of other keys and purges in the past keep a live mark.\<close>

lemma cd_live_kept:
  assumes "cd_ok c" and "map_of (cd_last c) k = Some t" and "duration_since now t < cd_cooldown c"
    and "\<forall>x \<in> set xs. (\<forall>t. x \<noteq> CdMark k t) \<and> (\<forall>t. x = CdPurge t \<longrightarrow> t \<le> now)"
  shows "map_of (cd_last (fold cd_step xs c)) k = Some t \<and> cd_cooldown (fold cd_step xs c) = cd_cooldown c"
  using assms
proof (induction xs arbitrary: c)
  case Nil
  then show ?case by simp
next
  case (Cons x xs)
  then have "map_of (cd_last (cd_step x c)) k = Some t"
    by (cases x) (auto simp: cd_mark_def cd_purge_stale_def map_of_retain_live live_at_def duration_since_def)
  with Cons show ?case by (simp add: cd_ok_step)
qed

subsection \<open>Properties\<close>

definition sample_limiter :: hello_rate_limiter where
  "sample_limiter = rl_new 2 60 0"

lemma sample_limiter_facts [simp]:
  "rl_ok sample_limiter" "rl_max_per_window sample_limiter = 2" "rl_max_entries sample_limiter = 0"
  "rl_window sample_limiter = 60000000000" "rl_state sample_limiter = []"
  by (simp_all add: sample_limiter_def rl_new_def from_secs_def)

text \<open>
  C25: In any period shorter than the window, whatever the order of checks, purges and clock
  readings, a tracked source address gets at most twice the configured number of HELLOs through
  the limiter, and at most that number once when no window of its own was open before the
  period. An address is tracked when the table has no cap, or when it has an entry that was
  opened in the period.
\<close>

theorem hello_budget:
  assumes "rl_ok r" and "0 < rl_max_per_window r" and "rl_tracked a ip r"
    and "\<forall>x \<in> set xs. a \<le> rl_time x \<and> rl_time x < a + rl_window r"
  shows "count_takes rl_step rl_allows ip r xs \<le> 2 * rl_max_per_window r \<and>
    (map_of (rl_state r) ip = None \<longrightarrow> count_takes rl_step rl_allows ip r xs \<le> rl_max_per_window r)"
  using rl_run_budget [OF assms]
  by (auto simp: rl_budget_def Let_def split: option.splits if_splits)

theorem hello_budget_witness:
  "count_takes rl_step rl_allows (V4 1 2 3 4) sample_limiter
     [RlCheck (V4 1 2 3 4) 5, RlCheck (V4 1 2 3 4) 9, RlPurge 7, RlCheck (V4 1 2 3 4) 6] \<le> 2"
  using hello_budget [of sample_limiter 5 "V4 1 2 3 4"
      "[RlCheck (V4 1 2 3 4) 5, RlCheck (V4 1 2 3 4) 9, RlPurge 7, RlCheck (V4 1 2 3 4) 6]"]
  by (simp add: rl_tracked_def)

text \<open>
  The tables of the limiter and of the active addresses never grow past their caps, whatever
  addresses a flood uses; a limiter with a cap admits a new address without tracking it when
  the table is full, and the active table then refuses it.
\<close>

theorem tables_bounded:
  "(0 < rl_max_entries (rl_new m w c) \<longrightarrow>
      length (rl_state (fold rl_step xs (rl_new m w c))) \<le> c) \<and>
   length (ai_seen (fold ai_step ys (ai_new t n))) \<le> max n 1"
proof
  show "0 < rl_max_entries (rl_new m w c) \<longrightarrow> length (rl_state (fold rl_step xs (rl_new m w c))) \<le> c"
    using rl_cap.run_bounded [of "rl_new m w c" xs] by (auto simp: rl_new_def)
  show "length (ai_seen (fold ai_step ys (ai_new t n))) \<le> max n 1"
    using ai_cap.run_bounded [of "ai_new t n" ys] by (simp add: ai_new_def)
qed

theorem tables_bounded_witness:
  "length (rl_state (fold rl_step [RlCheck (V4 1 2 3 4) 5, RlCheck (V4 1 2 3 5) 9] (rl_new 2 60 1))) \<le> 1"
  using tables_bounded [of 2 60 1 "[RlCheck (V4 1 2 3 4) 5, RlCheck (V4 1 2 3 5) 9]" "[]" 0 0]
  by (simp add: rl_new_def)

text \<open>
  A cooldown lasts exactly its configured time: after \<open>mark\<close> at \<open>t\<close>, the key is cooling
  down at a later \<open>now\<close> if and only if fewer than \<open>cooldown\<close> have passed, whatever other
  keys are marked and whatever purges run up to \<open>now\<close>.
\<close>

theorem cooldown_exact:
  assumes "cd_ok c" and "0 < cd_cooldown c" and "now < t + cd_cooldown c"
    and "\<forall>x \<in> set xs. (\<forall>t. x \<noteq> CdMark k t) \<and> (\<forall>t. x = CdPurge t \<longrightarrow> t \<le> now)"
  shows "in_cooldown k now (fold cd_step xs (cd_mark k t c)) \<and>
    (\<forall>late. t + cd_cooldown c \<le> late \<longrightarrow> \<not> in_cooldown k late (fold cd_step xs (cd_mark k t c)))"
proof -
  let ?c = "cd_mark k t c"
  from assms have "map_of (cd_last ?c) k = Some t" "cd_cooldown ?c = cd_cooldown c" "duration_since now t < cd_cooldown ?c"
    by (simp_all add: cd_mark_def duration_since_def less_diff_conv2)
  with assms cd_live_kept [of ?c k t now xs] show ?thesis
    by (auto simp: in_cooldown_def duration_since_def)
qed

theorem cooldown_exact_witness:
  "in_cooldown ''c1'' 39999999999 (fold cd_step [CdMark ''c2'' 20000000000, CdPurge 30000000000]
     (cd_mark ''c1'' 10000000000 (cd_new 30)))"
  using cooldown_exact [of "cd_new 30" 39999999999 10000000000
      "[CdMark ''c2'' 20000000000, CdPurge 30000000000]" "''c1''"]
  by (simp add: cd_new_def from_secs_def)

end
