(* ===== verification/Blacklist.thy ===== *)
theory Blacklist
  imports Interfaces Net
begin

text \<open>
  The blacklist of faulty source addresses and its lockdown switch, \<open>Blacklist\<close> of
  \<open>signedpulse-server/src/rate_limit.rs\<close>. Each reading of the monotonic clock is an argument
  of its own: \<open>arm_lockdown\<close> reads the clock again after the caller did. Counters of fixed
  width wrap as in a release build; \<open>Instant + Duration\<close> panics when it overflows, and since
  that happens while the table's mutex is held, it leaves the mutex poisoned.
\<close>

subsection \<open>State\<close>

record bl_entry =
  be_faults :: nat
  be_blocked_until :: "instant option"

record blacklist =
  bl_threshold :: nat
  bl_duration :: duration
  bl_attack_threshold :: nat
  bl_rejection_threshold :: nat
  bl_attack_window :: duration
  bl_max_entries :: nat
  bl_state :: "(ip_addr, bl_entry) hmap"
  bl_events :: "instant list"
  bl_rejections :: "instant list"
  bl_base :: instant
  bl_lockdown_until_ms :: nat
  bl_drop_window_start_ms :: nat
  bl_drop_count :: nat

definition bl_new :: "nat \<Rightarrow> nat \<Rightarrow> nat \<Rightarrow> nat \<Rightarrow> nat \<Rightarrow> nat \<Rightarrow> instant \<Rightarrow> blacklist" where
  "bl_new threshold duration_seconds attack_threshold rejection_threshold attack_window_seconds
     max_entries now =
     \<lparr>bl_threshold = threshold, bl_duration = from_secs duration_seconds,
      bl_attack_threshold = attack_threshold, bl_rejection_threshold = rejection_threshold,
      bl_attack_window = from_secs (max attack_window_seconds 1), bl_max_entries = max_entries,
      bl_state = [], bl_events = [], bl_rejections = [], bl_base = now,
      bl_lockdown_until_ms = 0, bl_drop_window_start_ms = 0, bl_drop_count = 0\<rparr>"

subsection \<open>Lockdown\<close>

definition now_ms :: "instant \<Rightarrow> blacklist \<Rightarrow> nat" where
  "now_ms now b = as_u64 (as_millis (duration_since now (bl_base b)))"

definition window_ms :: "blacklist \<Rightarrow> nat" where
  "window_ms b = as_u64 (as_millis (bl_attack_window b))"

definition under_attack :: "instant \<Rightarrow> blacklist \<Rightarrow> bool" where
  "under_attack now b =
     (if bl_attack_threshold b = 0 \<and> bl_rejection_threshold b = 0 then False
      else now_ms now b < bl_lockdown_until_ms b)"

definition arm_lockdown :: "instant \<Rightarrow> blacklist \<Rightarrow> blacklist" where
  "arm_lockdown now b =
     (let until = as_u64 (now_ms now b + window_ms b)
      in b\<lparr>bl_lockdown_until_ms := max (bl_lockdown_until_ms b) until\<rparr>)"

definition note_lockdown_drop :: "instant \<Rightarrow> instant \<Rightarrow> blacklist \<Rightarrow> blacklist" where
  "note_lockdown_drop t t_arm b =
     (if bl_rejection_threshold b = 0 \<and> bl_attack_threshold b = 0 then b
      else
        let thresh = (if 0 < bl_rejection_threshold b then bl_rejection_threshold b else bl_attack_threshold b);
            now = now_ms t b
        in if window_ms b < now - bl_drop_window_start_ms b
           then b\<lparr>bl_drop_window_start_ms := now, bl_drop_count := 1\<rparr>
           else
             let b' = b\<lparr>bl_drop_count := as_u64 (bl_drop_count b + 1)\<rparr>
             in if thresh < as_u64 (bl_drop_count b + 1) then arm_lockdown t_arm b' else b')"

fun trim_front :: "duration \<Rightarrow> instant list \<Rightarrow> instant \<Rightarrow> instant list" where
  "trim_front w [] now = []"
| "trim_front w (t # q) now = (if w < duration_since now t then trim_front w q now else t # q)"

definition note_rejection :: "instant \<Rightarrow> instant \<Rightarrow> blacklist \<Rightarrow> blacklist" where
  "note_rejection now t_arm b =
     (if bl_rejection_threshold b = 0 then b
      else
        let q = trim_front (bl_attack_window b) (bl_rejections b @ [now]) now;
            b' = b\<lparr>bl_rejections := q\<rparr>
        in if bl_rejection_threshold b < as_u32 (length q) then arm_lockdown t_arm b' else b')"

subsection \<open>Blacklisting\<close>

definition is_blocked_at :: "ip_addr \<Rightarrow> instant \<Rightarrow> blacklist \<Rightarrow> bool" where
  "is_blocked_at ip now b =
     (case map_of (bl_state b) ip of
        Some e \<Rightarrow> (case be_blocked_until e of Some t \<Rightarrow> now < t | None \<Rightarrow> False)
      | None \<Rightarrow> False)"

definition is_blocked :: "ip_addr \<Rightarrow> instant \<Rightarrow> blacklist \<Rightarrow> bool" where
  "is_blocked ip now b = (if bl_threshold b = 0 then False else is_blocked_at ip now b)"

definition fault_entry :: "instant \<Rightarrow> blacklist \<Rightarrow> bl_entry \<Rightarrow> (bl_entry \<times> bool) may_panic" where
  "fault_entry now b e =
     (case be_blocked_until e of
        Some until \<Rightarrow>
          (if now < until then
             (case instant_add now (bl_duration b) of
                None \<Rightarrow> Panics
              | Some u \<Rightarrow> Returns (e\<lparr>be_blocked_until := Some u\<rparr>, False))
           else Returns (e\<lparr>be_faults := 1, be_blocked_until := None\<rparr>, bl_threshold b < 1))
      | None \<Rightarrow>
          (let e' = e\<lparr>be_faults := as_u32 (be_faults e + 1)\<rparr> in
           if bl_threshold b < be_faults e' then
             (case instant_add now (bl_duration b) of
                None \<Rightarrow> Panics
              | Some u \<Rightarrow> Returns (e'\<lparr>be_blocked_until := Some u\<rparr>, True))
           else Returns (e', False)))"

definition note_event :: "instant \<Rightarrow> instant \<Rightarrow> blacklist \<Rightarrow> blacklist" where
  "note_event now t_arm b =
     (let q = trim_front (bl_attack_window b) (bl_events b @ [now]) now;
          b' = b\<lparr>bl_events := q\<rparr>
      in if bl_attack_threshold b < as_u32 (length q) then arm_lockdown t_arm b' else b')"

definition record_faulty_at ::
  "ip_addr \<Rightarrow> instant \<Rightarrow> instant \<Rightarrow> blacklist \<Rightarrow> (blacklist \<times> bool) may_panic" where
  "record_faulty_at ip now t_arm b =
     (if bl_threshold b = 0 then Returns (b, False)
      else if 0 < bl_max_entries b \<and> bl_max_entries b \<le> length (bl_state b) \<and> \<not> hm_has (bl_state b) ip
      then Returns (b, False)
      else
        (case fault_entry now b (hm_entry (bl_state b) ip \<lparr>be_faults = 0, be_blocked_until = None\<rparr>) of
           Panics \<Rightarrow> Panics
         | Returns (e, tripped) \<Rightarrow>
             (let b' = b\<lparr>bl_state := hm_put ip e (bl_state b)\<rparr>
              in Returns (if tripped then note_event now t_arm b' else b', tripped))))"

definition bl_purge_stale :: "instant \<Rightarrow> blacklist \<Rightarrow> blacklist" where
  "bl_purge_stale now b =
     b\<lparr>bl_state := hm_retain (\<lambda>_ e. case be_blocked_until e of Some t \<Rightarrow> now < t | None \<Rightarrow> False) (bl_state b),
       bl_events := trim_front (bl_attack_window b) (bl_events b) now,
       bl_rejections := trim_front (bl_attack_window b) (bl_rejections b) now\<rparr>"

subsection \<open>Runs\<close>

datatype bl_op =
    BlFaulty ip_addr instant instant
  | BlReject instant instant
  | BlDrop instant instant
  | BlPurge instant

text \<open>One operation on a blacklist whose mutex is not poisoned; a panic leaves it as it was.\<close>

fun bl_step :: "bl_op \<Rightarrow> blacklist \<Rightarrow> blacklist" where
  "bl_step (BlFaulty ip t u) b =
     (case record_faulty_at ip t u b of Returns (b', _) \<Rightarrow> b' | Panics \<Rightarrow> b)"
| "bl_step (BlReject t u) b = note_rejection t u b"
| "bl_step (BlDrop t u) b = note_lockdown_drop t u b"
| "bl_step (BlPurge t) b = bl_purge_stale t b"

fun bl_times :: "bl_op \<Rightarrow> instant list" where
  "bl_times (BlFaulty ip t u) = [t, u]"
| "bl_times (BlReject t u) = [t, u]"
| "bl_times (BlDrop t u) = [t, u]"
| "bl_times (BlPurge t) = [t]"

abbreviation bl_ok :: "blacklist \<Rightarrow> bool" where
  "bl_ok b \<equiv> hm_ok (bl_state b)"

definition bl_live :: "instant \<Rightarrow> bl_entry \<Rightarrow> bool" where
  "bl_live t e = (case be_blocked_until e of Some u \<Rightarrow> t < u | None \<Rightarrow> False)"

subsection \<open>Lemmas\<close>

lemma arm_lockdown_fields [simp]:
  "bl_threshold (arm_lockdown t b) = bl_threshold b"
  "bl_duration (arm_lockdown t b) = bl_duration b"
  "bl_attack_threshold (arm_lockdown t b) = bl_attack_threshold b"
  "bl_rejection_threshold (arm_lockdown t b) = bl_rejection_threshold b"
  "bl_attack_window (arm_lockdown t b) = bl_attack_window b"
  "bl_max_entries (arm_lockdown t b) = bl_max_entries b"
  "bl_state (arm_lockdown t b) = bl_state b"
  "bl_base (arm_lockdown t b) = bl_base b"
  by (simp_all add: arm_lockdown_def Let_def)

lemma note_event_fields [simp]:
  "bl_threshold (note_event t u b) = bl_threshold b"
  "bl_duration (note_event t u b) = bl_duration b"
  "bl_attack_threshold (note_event t u b) = bl_attack_threshold b"
  "bl_rejection_threshold (note_event t u b) = bl_rejection_threshold b"
  "bl_attack_window (note_event t u b) = bl_attack_window b"
  "bl_max_entries (note_event t u b) = bl_max_entries b"
  "bl_state (note_event t u b) = bl_state b"
  "bl_base (note_event t u b) = bl_base b"
  by (simp_all add: note_event_def Let_def)

lemma note_rejection_fields [simp]:
  "bl_threshold (note_rejection t u b) = bl_threshold b"
  "bl_duration (note_rejection t u b) = bl_duration b"
  "bl_attack_threshold (note_rejection t u b) = bl_attack_threshold b"
  "bl_rejection_threshold (note_rejection t u b) = bl_rejection_threshold b"
  "bl_attack_window (note_rejection t u b) = bl_attack_window b"
  "bl_max_entries (note_rejection t u b) = bl_max_entries b"
  "bl_state (note_rejection t u b) = bl_state b"
  "bl_base (note_rejection t u b) = bl_base b"
  by (simp_all add: note_rejection_def Let_def)

lemma note_lockdown_drop_fields [simp]:
  "bl_threshold (note_lockdown_drop t u b) = bl_threshold b"
  "bl_duration (note_lockdown_drop t u b) = bl_duration b"
  "bl_attack_threshold (note_lockdown_drop t u b) = bl_attack_threshold b"
  "bl_rejection_threshold (note_lockdown_drop t u b) = bl_rejection_threshold b"
  "bl_attack_window (note_lockdown_drop t u b) = bl_attack_window b"
  "bl_max_entries (note_lockdown_drop t u b) = bl_max_entries b"
  "bl_state (note_lockdown_drop t u b) = bl_state b"
  "bl_base (note_lockdown_drop t u b) = bl_base b"
  by (simp_all add: note_lockdown_drop_def Let_def)

text \<open>The three outcomes of a fault: not counted, counted, and the one that blocks.\<close>

lemma record_faulty_cases:
  obtains (panics) "record_faulty_at ip t u b = Panics" "instant_add t (bl_duration b) = None" "bl_threshold b \<noteq> 0"
  | (ignored) "record_faulty_at ip t u b = Returns (b, False)"
      "bl_threshold b = 0 \<or> map_of (bl_state b) ip = None \<and> bl_max_entries b \<le> length (bl_state b)"
  | (counted) e where "record_faulty_at ip t u b = Returns (b\<lparr>bl_state := hm_put ip e (bl_state b)\<rparr>, False)"
      "fault_entry t b (hm_entry (bl_state b) ip \<lparr>be_faults = 0, be_blocked_until = None\<rparr>) = Returns (e, False)"
      "bl_threshold b \<noteq> 0" "bl_max_entries b = 0 \<or> length (bl_state b) < bl_max_entries b \<or> hm_has (bl_state b) ip"
  | (trips) e where "record_faulty_at ip t u b = Returns (note_event t u (b\<lparr>bl_state := hm_put ip e (bl_state b)\<rparr>), True)"
      "fault_entry t b (hm_entry (bl_state b) ip \<lparr>be_faults = 0, be_blocked_until = None\<rparr>) = Returns (e, True)"
      "bl_threshold b \<noteq> 0" "bl_max_entries b = 0 \<or> length (bl_state b) < bl_max_entries b \<or> hm_has (bl_state b) ip"
proof (cases "bl_threshold b = 0 \<or>
    0 < bl_max_entries b \<and> bl_max_entries b \<le> length (bl_state b) \<and> \<not> hm_has (bl_state b) ip")
  case True
  then show ?thesis by (intro ignored) (auto simp: record_faulty_at_def hm_has_def)
next
  case False
  let ?f = "fault_entry t b (hm_entry (bl_state b) ip \<lparr>be_faults = 0, be_blocked_until = None\<rparr>)"
  consider "?f = Panics" | e where "?f = Returns (e, False)" | e where "?f = Returns (e, True)"
    by (cases ?f) auto
  then show ?thesis
  proof cases
    case 1
    with False have "instant_add t (bl_duration b) = None"
      by (auto simp: fault_entry_def Let_def split: option.splits if_splits)
    with 1 False show ?thesis by (intro panics) (auto simp: record_faulty_at_def)
  next
    case (2 e)
    with False show ?thesis by (intro counted [of e]) (auto simp: record_faulty_at_def)
  next
    case (3 e)
    with False show ?thesis by (intro trips [of e]) (auto simp: record_faulty_at_def)
  qed
qed

text \<open>A step of the table, as a case distinction that later proofs share.\<close>

lemma faulty_step_cases:
  obtains (same) "bl_step (BlFaulty ip t u) b = b"
  | (counted) e where "bl_step (BlFaulty ip t u) b = b\<lparr>bl_state := hm_put ip e (bl_state b)\<rparr>"
      "fault_entry t b (hm_entry (bl_state b) ip \<lparr>be_faults = 0, be_blocked_until = None\<rparr>) = Returns (e, False)"
      "bl_max_entries b = 0 \<or> length (bl_state b) < bl_max_entries b \<or> hm_has (bl_state b) ip"
  | (trips) e where "bl_step (BlFaulty ip t u) b = note_event t u (b\<lparr>bl_state := hm_put ip e (bl_state b)\<rparr>)"
      "fault_entry t b (hm_entry (bl_state b) ip \<lparr>be_faults = 0, be_blocked_until = None\<rparr>) = Returns (e, True)"
      "bl_max_entries b = 0 \<or> length (bl_state b) < bl_max_entries b \<or> hm_has (bl_state b) ip"
proof (cases rule: record_faulty_cases [of ip t u b])
  case panics
  then show ?thesis by (intro same) simp
next
  case ignored
  then show ?thesis by (intro same) simp
next
  case (counted e)
  then show ?thesis by (intro that(2) [of e]) simp_all
next
  case (trips e)
  then show ?thesis by (intro that(3) [of e]) simp_all
qed

declare bl_step.simps(1) [simp del]

definition bl_config :: "blacklist \<Rightarrow> (nat \<times> duration \<times> nat) \<times> nat \<times> duration \<times> nat \<times> instant" where
  "bl_config b = ((bl_threshold b, bl_duration b, bl_attack_threshold b),
     bl_rejection_threshold b, bl_attack_window b, bl_max_entries b, bl_base b)"

lemma bl_config_step: "bl_config (bl_step x b) = bl_config b"
proof (cases x)
  case (BlFaulty ip t u)
  show ?thesis unfolding BlFaulty
    by (cases rule: faulty_step_cases [of ip t u b]) (simp_all add: bl_config_def)
qed (simp_all add: bl_config_def bl_purge_stale_def)

lemma bl_step_config [simp]:
  "bl_threshold (bl_step x b) = bl_threshold b"
  "bl_duration (bl_step x b) = bl_duration b"
  "bl_attack_threshold (bl_step x b) = bl_attack_threshold b"
  "bl_rejection_threshold (bl_step x b) = bl_rejection_threshold b"
  "bl_attack_window (bl_step x b) = bl_attack_window b"
  "bl_max_entries (bl_step x b) = bl_max_entries b"
  "bl_base (bl_step x b) = bl_base b"
  using bl_config_step [of x b] by (simp_all only: bl_config_def prod.inject)

lemma bl_ok_step: "bl_ok b \<Longrightarrow> bl_ok (bl_step x b)"
proof (cases x)
  case (BlFaulty ip t u)
  assume "bl_ok b"
  then show ?thesis unfolding BlFaulty
    by (cases rule: faulty_step_cases [of ip t u b]) simp_all
qed (simp_all add: bl_purge_stale_def)

interpretation bl_cap: capped_table "\<lambda>b. bl_ok b \<and> 0 < bl_max_entries b" "\<lambda>b. length (bl_state b)"
  bl_max_entries bl_step
proof unfold_locales
  fix x b
  assume "bl_ok b \<and> 0 < bl_max_entries b"
  then show "bl_ok (bl_step x b) \<and> 0 < bl_max_entries (bl_step x b)" by (simp add: bl_ok_step)
next
  fix x b
  show "bl_max_entries (bl_step x b) = bl_max_entries b" by simp
next
  fix x b
  assume b: "bl_ok b \<and> 0 < bl_max_entries b"
  show "length (bl_state (bl_step x b)) \<le> max (length (bl_state b)) (bl_max_entries b)"
  proof (cases x)
    case (BlFaulty ip t u)
    from b show ?thesis unfolding BlFaulty
      by (cases rule: faulty_step_cases [of ip t u b]) (auto simp: length_hm_put)
  qed (simp_all add: bl_purge_stale_def le_max_iff_disj)
qed

lemma is_blocked_at_live: "is_blocked_at ip now b \<longleftrightarrow> live_at (bl_live now) (map_of (bl_state b) ip) \<noteq> None"
  by (auto simp: is_blocked_at_def live_at_def bl_live_def split: option.splits)

interpretation bl_ttl: ttl_table bl_ok "\<lambda>b. map_of (bl_state b)" "\<lambda>_. bl_live" bl_purge_stale
proof unfold_locales
  fix t b k
  assume "bl_ok b"
  then show "map_of (bl_state (bl_purge_stale t b)) k = live_at (bl_live t) (map_of (bl_state b) k)"
    by (simp add: bl_purge_stale_def map_of_hm_retain live_at_def bl_live_def split: option.split)
qed (auto simp: bl_purge_stale_def bl_live_def split: option.splits)

subsection \<open>Faults of one address\<close>

fun faults_of :: "ip_addr \<Rightarrow> bl_op \<Rightarrow> bool" where
  "faults_of ip (BlFaulty ip' t u) \<longleftrightarrow> ip' = ip"
| "faults_of ip _ \<longleftrightarrow> False"

fun is_purge :: "bl_op \<Rightarrow> bool" where
  "is_purge (BlPurge t) \<longleftrightarrow> True"
| "is_purge _ \<longleftrightarrow> False"

definition count_faults :: "ip_addr \<Rightarrow> bl_op list \<Rightarrow> nat" where
  "count_faults ip xs = length (filter (faults_of ip) xs)"

lemma count_faults_simps [simp]:
  "count_faults ip [] = 0"
  "count_faults ip (x # xs) = (if faults_of ip x then Suc (count_faults ip xs) else count_faults ip xs)"
  by (simp_all add: count_faults_def)

text \<open>The address has \<open>f\<close> faults on its account and is not blocked.\<close>

definition clean :: "ip_addr \<Rightarrow> nat \<Rightarrow> blacklist \<Rightarrow> bool" where
  "clean ip f b \<longleftrightarrow>
     (case map_of (bl_state b) ip of
        None \<Rightarrow> f = 0
      | Some e \<Rightarrow> be_faults e = f \<and> be_blocked_until e = None)"

lemma clean_not_blocked: "clean ip f b \<Longrightarrow> \<not> is_blocked_at ip now b"
  by (auto simp: clean_def is_blocked_at_def split: option.splits)

lemma step_other: "\<not> faults_of ip x \<Longrightarrow> \<not> is_purge x \<Longrightarrow> map_of (bl_state (bl_step x b)) ip = map_of (bl_state b) ip"
proof (cases x)
  case (BlFaulty ip' t u)
  assume "\<not> faults_of ip x"
  with BlFaulty have "ip' \<noteq> ip" by simp
  then show ?thesis unfolding BlFaulty
    by (cases rule: faulty_step_cases [of ip' t u b]) simp_all
qed simp_all

lemma fault_entry_clean:
  assumes "clean ip f b" and "f < bl_threshold b" and "bl_threshold b < 2 ^ 32"
  shows "fault_entry t b (hm_entry (bl_state b) ip \<lparr>be_faults = 0, be_blocked_until = None\<rparr>) =
    Returns (\<lparr>be_faults = f + 1, be_blocked_until = None\<rparr>, False)"
  using assms
  by (cases "map_of (bl_state b) ip") (auto simp: clean_def fault_entry_def as_u32_def)

lemma fault_entry_last:
  assumes "clean ip (bl_threshold b) b" and "bl_threshold b < u32_max"
    and "instant_add t (bl_duration b) = Some v"
  shows "fault_entry t b (hm_entry (bl_state b) ip \<lparr>be_faults = 0, be_blocked_until = None\<rparr>) =
    Returns (\<lparr>be_faults = bl_threshold b + 1, be_blocked_until = Some v\<rparr>, True)"
  using assms
  by (cases "map_of (bl_state b) ip") (auto simp: clean_def fault_entry_def as_u32_def u32_max_def)

lemma clean_step:
  assumes "clean ip f b" and "f < bl_threshold b" and "bl_threshold b < 2 ^ 32"
    and "faults_of ip x \<Longrightarrow> bl_max_entries b = 0"
    and "\<not> is_purge x"
  shows "clean ip (if faults_of ip x then Suc f else f) (bl_step x b)"
proof (cases "faults_of ip x")
  case False
  with assms step_other [of ip x b] show ?thesis by (simp add: clean_def)
next
  case True
  then obtain t u where x: "x = BlFaulty ip t u" by (cases x) auto
  from True assms fault_entry_clean [OF assms(1-3), of t]
  have "record_faulty_at ip t u b =
      Returns (b\<lparr>bl_state := hm_put ip \<lparr>be_faults = f + 1, be_blocked_until = None\<rparr> (bl_state b)\<rparr>, False)"
    by (simp add: record_faulty_at_def)
  with x show ?thesis by (simp add: clean_def bl_step.simps(1))
qed

lemma clean_run:
  assumes "clean ip f b" and "f + count_faults ip xs \<le> bl_threshold b" and "bl_threshold b < 2 ^ 32"
    and "bl_max_entries b = 0" and "\<forall>x \<in> set xs. \<not> is_purge x"
  shows "clean ip (f + count_faults ip xs) (fold bl_step xs b)"
  using assms
proof (induction xs arbitrary: f b)
  case Nil
  then show ?case by simp
next
  case (Cons x xs)
  show ?case
  proof (cases "faults_of ip x")
    case True
    with Cons.prems clean_step [of ip f b x] have "clean ip (Suc f) (bl_step x b)" by simp
    then have "clean ip (Suc f + count_faults ip xs) (fold bl_step xs (bl_step x b))"
      using Cons.prems True by (intro Cons.IH) simp_all
    with True show ?thesis by simp
  next
    case False
    with Cons.prems step_other [of ip x b] have "clean ip f (bl_step x b)" by (simp add: clean_def)
    then have "clean ip (f + count_faults ip xs) (fold bl_step xs (bl_step x b))"
      using Cons.prems False by (intro Cons.IH) simp_all
    with False show ?thesis by simp
  qed
qed

lemma run_config: "bl_config (fold bl_step xs b) = bl_config b"
  by (induction xs arbitrary: b) (simp_all add: bl_config_step)

lemma run_config_fields [simp]:
  "bl_threshold (fold bl_step xs b) = bl_threshold b"
  "bl_duration (fold bl_step xs b) = bl_duration b"
  "bl_attack_threshold (fold bl_step xs b) = bl_attack_threshold b"
  "bl_rejection_threshold (fold bl_step xs b) = bl_rejection_threshold b"
  "bl_attack_window (fold bl_step xs b) = bl_attack_window b"
  "bl_max_entries (fold bl_step xs b) = bl_max_entries b"
  "bl_base (fold bl_step xs b) = bl_base b"
  using run_config [of xs b] by (simp_all only: bl_config_def prod.inject)

lemma clean_after_purge: "bl_ok b \<Longrightarrow> clean ip f b \<Longrightarrow> clean ip 0 (bl_purge_stale t b)"
  by (auto simp: clean_def bl_ttl.view_purge live_at_def bl_live_def split: option.splits)

text \<open>Rounds of operations, each closed by a purge.\<close>

fun rounds :: "(bl_op list \<times> instant) list \<Rightarrow> bl_op list" where
  "rounds [] = []"
| "rounds ((xs, t) # rs) = xs @ BlPurge t # rounds rs"

lemma bl_ok_run: "bl_ok b \<Longrightarrow> bl_ok (fold bl_step xs b)"
  by (induction xs arbitrary: b) (simp_all add: bl_ok_step)

lemma rounds_clean:
  assumes "bl_ok b" and "clean ip 0 b" and "bl_threshold b < 2 ^ 32" and "bl_max_entries b = 0"
    and "\<forall>(xs, t) \<in> set rs. count_faults ip xs \<le> bl_threshold b \<and> (\<forall>x \<in> set xs. \<not> is_purge x)"
  shows "clean ip 0 (fold bl_step (rounds rs) b)"
  using assms
proof (induction rs arbitrary: b)
  case Nil
  then show ?case by simp
next
  case (Cons r rs)
  obtain xs t where r: "r = (xs, t)" by (cases r)
  let ?b = "fold bl_step xs b"
  from Cons.prems r have "clean ip (0 + count_faults ip xs) ?b" by (intro clean_run) auto
  then have "clean ip 0 (bl_purge_stale t ?b)" using Cons.prems by (intro clean_after_purge bl_ok_run) simp_all
  then have "clean ip 0 (fold bl_step (rounds rs) (bl_purge_stale t ?b))"
    using Cons.prems r bl_ok_step [of ?b "BlPurge t"] bl_step_config [of "BlPurge t" ?b]
    by (intro Cons.IH) (simp_all add: bl_ok_run)
  with r show ?case by simp
qed

text \<open>A block of the configured length survives every operation in its time.\<close>

lemma block_step:
  assumes "bl_ok b" and "map_of (bl_state b) ip = Some e" and "be_blocked_until e = Some u"
    and "s + bl_duration b \<le> u" and "\<forall>t \<in> set (bl_times x). s \<le> t \<and> t < s + bl_duration b"
  shows "\<exists>e u. map_of (bl_state (bl_step x b)) ip = Some e \<and> be_blocked_until e = Some u \<and> s + bl_duration b \<le> u"
proof (cases "faults_of ip x")
  case True
  then obtain t v where x: "x = BlFaulty ip t v" by (cases x) auto
  with assms have "t < u" "s \<le> t" by auto
  then show ?thesis using assms(2-4) unfolding x
    by (cases rule: faulty_step_cases [of ip t v b])
       (auto simp: fault_entry_def instant_add_def split: option.splits if_splits)
next
  case False
  show ?thesis
  proof (cases "is_purge x")
    case True
    then obtain t where "x = BlPurge t" by (cases x) auto
    with assms show ?thesis by (auto simp: bl_ttl.view_purge live_at_def bl_live_def)
  next
    case False
    with \<open>\<not> faults_of ip x\<close> assms show ?thesis by (auto simp: step_other)
  qed
qed

lemma block_run:
  assumes "bl_ok b" and "map_of (bl_state b) ip = Some e" and "be_blocked_until e = Some u"
    and "s + bl_duration b \<le> u"
    and "\<forall>x \<in> set xs. \<forall>t \<in> set (bl_times x). s \<le> t \<and> t < s + bl_duration b"
    and "now < s + bl_duration b"
  shows "is_blocked_at ip now (fold bl_step xs b)"
  using assms
proof (induction xs arbitrary: b e u)
  case Nil
  then show ?case by (simp add: is_blocked_at_def)
next
  case (Cons x xs)
  then obtain e' u' where "map_of (bl_state (bl_step x b)) ip = Some e'" "be_blocked_until e' = Some u'"
    "s + bl_duration b \<le> u'" using block_step [of b ip e u s x] by auto
  with Cons.prems show ?case using Cons.IH [of "bl_step x b" e' u'] by (simp add: bl_ok_step)
qed

subsection \<open>The lockdown switch\<close>

lemma arm_until [simp]: "bl_lockdown_until_ms (arm_lockdown t b) = max (bl_lockdown_until_ms b) (as_u64 (now_ms t b + window_ms b))"
  by (simp add: arm_lockdown_def Let_def)

lemma lockdown_step:
  obtains (same) "bl_lockdown_until_ms (bl_step x b) = bl_lockdown_until_ms b"
  | (armed) t where "t \<in> set (bl_times x)"
      "bl_lockdown_until_ms (bl_step x b) = max (bl_lockdown_until_ms b) (as_u64 (now_ms t b + window_ms b))"
proof (cases x)
  case (BlFaulty ip t u)
  have ms: "now_ms u (b\<lparr>bl_state := m, bl_events := q\<rparr>) = now_ms u b"
    "window_ms (b\<lparr>bl_state := m, bl_events := q\<rparr>) = window_ms b" for m q
    by (simp_all add: now_ms_def window_ms_def)
  show ?thesis
  proof (cases rule: faulty_step_cases [of ip t u b])
    case (trips e)
    show ?thesis
    proof (cases "bl_attack_threshold b < as_u32 (length (trim_front (bl_attack_window b) (bl_events b @ [t]) t))")
      case True
      with trips BlFaulty show ?thesis by (intro armed [of u]) (simp_all add: note_event_def ms)
    next
      case False
      with trips BlFaulty show ?thesis by (intro same) (simp add: note_event_def)
    qed
  qed (use same BlFaulty in simp_all)
next
  case (BlReject t u)
  have ms: "now_ms u (b\<lparr>bl_rejections := q\<rparr>) = now_ms u b" "window_ms (b\<lparr>bl_rejections := q\<rparr>) = window_ms b" for q
    by (simp_all add: now_ms_def window_ms_def)
  show ?thesis
  proof (cases "bl_lockdown_until_ms (bl_step x b) = bl_lockdown_until_ms b")
    case False
    then show ?thesis using BlReject
      by (intro armed [of u]) (auto simp: note_rejection_def Let_def ms split: if_splits)
  qed (rule same)
next
  case (BlDrop t u)
  have ms: "now_ms u (b\<lparr>bl_drop_count := q\<rparr>) = now_ms u b" "window_ms (b\<lparr>bl_drop_count := q\<rparr>) = window_ms b" for q
    by (simp_all add: now_ms_def window_ms_def)
  show ?thesis
  proof (cases "bl_lockdown_until_ms (bl_step x b) = bl_lockdown_until_ms b")
    case False
    then show ?thesis using BlDrop
      by (intro armed [of u]) (auto simp: note_lockdown_drop_def Let_def ms split: if_splits)
  qed (rule same)
next
  case (BlPurge t)
  then show ?thesis by (intro same) (simp add: bl_purge_stale_def)
qed

lemma now_ms_step [simp]: "now_ms t (bl_step x b) = now_ms t b" "window_ms (bl_step x b) = window_ms b"
  by (simp_all add: now_ms_def window_ms_def)

lemma lockdown_run:
  assumes "bl_lockdown_until_ms b \<le> m" and "\<forall>x \<in> set xs. \<forall>t \<in> set (bl_times x). as_u64 (now_ms t b + window_ms b) \<le> m"
  shows "bl_lockdown_until_ms (fold bl_step xs b) \<le> m"
  using assms
proof (induction xs arbitrary: b)
  case Nil
  then show ?case by simp
next
  case (Cons x xs)
  have "bl_lockdown_until_ms (bl_step x b) \<le> m"
    by (cases rule: lockdown_step [of x b]) (use Cons.prems in auto)
  with Cons show ?case by simp
qed

lemma lockdown_mono: "bl_lockdown_until_ms b \<le> bl_lockdown_until_ms (fold bl_step xs b)"
proof (induction xs arbitrary: b)
  case Nil
  then show ?case by simp
next
  case (Cons x xs)
  have "bl_lockdown_until_ms b \<le> bl_lockdown_until_ms (bl_step x b)"
    by (cases rule: lockdown_step [of x b]) simp_all
  with Cons [of "bl_step x b"] show ?case by simp
qed

lemma as_u64_le: "as_u64 n \<le> n"
  by (simp add: as_u64_def)

text \<open>Background noise at the lockdown gate.\<close>

definition drop_threshold :: "blacklist \<Rightarrow> nat" where
  "drop_threshold b = (if 0 < bl_rejection_threshold b then bl_rejection_threshold b else bl_attack_threshold b)"

definition within :: "nat \<Rightarrow> nat \<Rightarrow> nat \<Rightarrow> bool" where
  "within a w m \<longleftrightarrow> a \<le> m \<and> m \<le> a + w"

lemma drop_step_quiet:
  assumes "bl_drop_count b \<le> length (filter (within (bl_drop_window_start_ms b) (window_ms b)) hist)"
    and "bl_drop_window_start_ms b \<le> now_ms t b"
    and "length (filter (within (bl_drop_window_start_ms b) (window_ms b)) (hist @ [now_ms t b])) \<le> drop_threshold b"
    and "drop_threshold b < u64_max"
  shows "bl_lockdown_until_ms (note_lockdown_drop t u b) = bl_lockdown_until_ms b \<and>
    bl_drop_count (note_lockdown_drop t u b) \<le>
      length (filter (within (bl_drop_window_start_ms (note_lockdown_drop t u b)) (window_ms b)) (hist @ [now_ms t b])) \<and>
    (bl_drop_window_start_ms (note_lockdown_drop t u b) = bl_drop_window_start_ms b \<or>
     bl_drop_window_start_ms (note_lockdown_drop t u b) = now_ms t b)"
proof (cases "bl_rejection_threshold b = 0 \<and> bl_attack_threshold b = 0")
  case True
  with assms show ?thesis by (simp add: note_lockdown_drop_def trans_le_add1)
next
  case active: False
  show ?thesis
  proof (cases "window_ms b < now_ms t b - bl_drop_window_start_ms b")
    case True
    with active show ?thesis by (auto simp: note_lockdown_drop_def within_def)
  next
    case False
    then have w: "within (bl_drop_window_start_ms b) (window_ms b) (now_ms t b)"
      using assms(2) by (simp add: within_def)
    with assms have "bl_drop_count b + 1 \<le> drop_threshold b" "as_u64 (bl_drop_count b + 1) = bl_drop_count b + 1"
      by (auto simp: as_u64_def u64_max_def)
    with False active w assms(1) show ?thesis
      by (auto simp: note_lockdown_drop_def Let_def drop_threshold_def)
  qed
qed

lemma ms_note_lockdown_drop [simp]:
  "now_ms t (note_lockdown_drop v u b) = now_ms t b" "window_ms (note_lockdown_drop v u b) = window_ms b"
  "drop_threshold (note_lockdown_drop v u b) = drop_threshold b"
  by (simp_all add: now_ms_def window_ms_def drop_threshold_def)

lemma trickle_run:
  assumes "bl_drop_count b \<le> length (filter (within (bl_drop_window_start_ms b) (window_ms b)) hist)"
    and "\<forall>p \<in> set ps. bl_drop_window_start_ms b \<le> now_ms (fst p) b"
    and "sorted (map (\<lambda>p. now_ms (fst p) b) ps)"
    and "\<forall>a. length (filter (within a (window_ms b)) (hist @ map (\<lambda>p. now_ms (fst p) b) ps)) \<le> drop_threshold b"
    and "drop_threshold b < u64_max"
  shows "bl_lockdown_until_ms (fold (\<lambda>(t, u). note_lockdown_drop t u) ps b) = bl_lockdown_until_ms b"
  using assms
proof (induction ps arbitrary: b hist)
  case Nil
  then show ?case by simp
next
  case (Cons p ps)
  obtain t u where p: "p = (t, u)" by (cases p)
  let ?b = "note_lockdown_drop t u b" and ?hist = "hist @ [now_ms t b]"
  have "length (filter (within (bl_drop_window_start_ms b) (window_ms b)) ?hist) \<le> drop_threshold b"
    using Cons.prems(4) [rule_format, of "bl_drop_window_start_ms b"] p by (auto split: if_splits)
  with Cons.prems p have q: "bl_lockdown_until_ms ?b = bl_lockdown_until_ms b"
    "bl_drop_count ?b \<le> length (filter (within (bl_drop_window_start_ms ?b) (window_ms b)) ?hist)"
    "bl_drop_window_start_ms ?b = bl_drop_window_start_ms b \<or> bl_drop_window_start_ms ?b = now_ms t b"
    using drop_step_quiet [of b hist t u] by auto
  have "bl_lockdown_until_ms (fold (\<lambda>(t, u). note_lockdown_drop t u) ps ?b) = bl_lockdown_until_ms ?b"
    using q Cons.prems p by (intro Cons.IH [of ?b ?hist]) auto
  with q p show ?case by simp
qed

text \<open>The rejection counter: what is kept of the recent rejections.\<close>

fun reject_clock :: "bl_op \<Rightarrow> instant list" where
  "reject_clock (BlReject t u) = [t]"
| "reject_clock (BlPurge t) = [t]"
| "reject_clock _ = []"

fun reject_times :: "bl_op \<Rightarrow> instant list" where
  "reject_times (BlReject t u) = [t]"
| "reject_times _ = []"

definition recent :: "duration \<Rightarrow> instant \<Rightarrow> instant \<Rightarrow> bool" where
  "recent w now t \<longleftrightarrow> duration_since now t \<le> w"

lemma recent_antimono: "now \<le> now' \<Longrightarrow> recent w now' t \<Longrightarrow> recent w now t"
  by (auto simp: recent_def duration_since_def)

lemma trim_front_sorted: "sorted q \<Longrightarrow> trim_front w q now = filter (recent w now) q"
proof (induction q)
  case Nil
  then show ?case by simp
next
  case (Cons t q)
  then have "filter (recent w now) q = q" if "recent w now t"
    using that by (intro filter_True) (auto simp: recent_def duration_since_def)
  moreover have "w < duration_since now t \<longleftrightarrow> \<not> recent w now t" by (auto simp: recent_def)
  ultimately show ?case using Cons by simp
qed

lemma filter_recent_recent: "now \<le> now' \<Longrightarrow>
    filter (\<lambda>t. recent w now t \<and> recent w now' t) q = filter (recent w now') q"
  by (auto simp: recent_antimono intro: filter_cong)

lemma note_event_rejections [simp]: "bl_rejections (note_event t u b) = bl_rejections b"
  by (simp add: note_event_def arm_lockdown_def Let_def)

lemma note_rejection_rejections:
  "bl_rejection_threshold b \<noteq> 0 \<Longrightarrow>
   bl_rejections (note_rejection t u b) = trim_front (bl_attack_window b) (bl_rejections b @ [t]) t"
  by (simp add: note_rejection_def arm_lockdown_def Let_def)

lemma reject_step:
  assumes "bl_rejection_threshold b \<noteq> 0" and "sorted (bl_rejections b @ reject_clock x)"
    and "\<forall>t \<in> set (reject_clock x). t \<le> now"
  shows "filter (recent (bl_attack_window b) now) (bl_rejections (bl_step x b)) =
      filter (recent (bl_attack_window b) now) (bl_rejections b @ reject_times x) \<and>
    sorted (bl_rejections (bl_step x b)) \<and>
    set (bl_rejections (bl_step x b)) \<subseteq> set (bl_rejections b) \<union> set (reject_clock x)"
proof (cases x)
  case (BlFaulty ip t u)
  have "bl_rejections (bl_step x b) = bl_rejections b" unfolding BlFaulty
    by (cases rule: faulty_step_cases [of ip t u b]) simp_all
  with assms BlFaulty show ?thesis by simp
next
  case (BlReject t u)
  with assms have "bl_rejections (bl_step x b) = filter (recent (bl_attack_window b) t) (bl_rejections b @ [t])"
    using trim_front_sorted [of "bl_rejections b @ [t]"] by (simp add: note_rejection_rejections)
  with assms BlReject show ?thesis
    by (auto simp: filter_recent_recent sorted_append simp del: filter_append intro: sorted_wrt_filter)
next
  case (BlDrop t u)
  then have "bl_rejections (bl_step x b) = bl_rejections b"
    by (simp add: note_lockdown_drop_def arm_lockdown_def Let_def)
  with assms BlDrop show ?thesis by simp
next
  case (BlPurge t)
  with assms have "bl_rejections (bl_step x b) = filter (recent (bl_attack_window b) t) (bl_rejections b)"
    by (simp add: bl_purge_stale_def trim_front_sorted sorted_append)
  with assms BlPurge show ?thesis
    by (auto simp: filter_recent_recent sorted_append intro: sorted_wrt_filter)
qed

lemma reject_run:
  assumes "bl_rejection_threshold b \<noteq> 0" and "sorted (bl_rejections b @ concat (map reject_clock xs))"
    and "\<forall>t \<in> set (concat (map reject_clock xs)). t \<le> now"
  shows "filter (recent (bl_attack_window b) now) (bl_rejections (fold bl_step xs b)) =
      filter (recent (bl_attack_window b) now) (bl_rejections b @ concat (map reject_times xs)) \<and>
    sorted (bl_rejections (fold bl_step xs b)) \<and>
    set (bl_rejections (fold bl_step xs b)) \<subseteq> set (bl_rejections b) \<union> set (concat (map reject_clock xs))"
  using assms
proof (induction xs arbitrary: b)
  case Nil
  then show ?case by simp
next
  case (Cons x xs)
  let ?b = "bl_step x b"
  have x: "filter (recent (bl_attack_window b) now) (bl_rejections ?b) =
      filter (recent (bl_attack_window b) now) (bl_rejections b @ reject_times x)"
    "sorted (bl_rejections ?b)" "set (bl_rejections ?b) \<subseteq> set (bl_rejections b) \<union> set (reject_clock x)"
    using reject_step [of b x now] Cons.prems by (auto simp: sorted_append)
  have "sorted (bl_rejections ?b @ concat (map reject_clock xs))"
    using x(2,3) Cons.prems(2) by (fastforce simp: sorted_append)
  with Cons.prems have "filter (recent (bl_attack_window b) now) (bl_rejections (fold bl_step xs ?b)) =
      filter (recent (bl_attack_window b) now) (bl_rejections ?b @ concat (map reject_times xs)) \<and>
    sorted (bl_rejections (fold bl_step xs ?b)) \<and>
    set (bl_rejections (fold bl_step xs ?b)) \<subseteq> set (bl_rejections ?b) \<union> set (concat (map reject_clock xs))"
    using Cons.IH [of ?b] by simp
  with x show ?case by auto
qed

subsection \<open>Properties\<close>

definition home :: ip_addr where "home = V4 203 0 113 9"

definition sample_bl :: blacklist where
  "sample_bl = bl_new 2 300 5 50 10 0 0"

lemma sample_bl_facts [simp]:
  "bl_ok sample_bl" "bl_threshold sample_bl = 2" "bl_duration sample_bl = 300000000000"
  "bl_attack_threshold sample_bl = 5" "bl_rejection_threshold sample_bl = 50"
  "bl_attack_window sample_bl = 10000000000" "bl_max_entries sample_bl = 0"
  "bl_state sample_bl = []" "bl_rejections sample_bl = []" "bl_base sample_bl = 0"
  "bl_lockdown_until_ms sample_bl = 0" "bl_drop_window_start_ms sample_bl = 0" "bl_drop_count sample_bl = 0"
  by (simp_all add: sample_bl_def bl_new_def from_secs_def)

lemma sample_bl_clean [simp]: "clean ip 0 sample_bl"
  by (simp add: clean_def)



text \<open>
  C23: A block holds: once an address is blocked until at least \<open>s + duration\<close>, it is blocked at
  every time before that, whatever operations on any addresses happen meanwhile, purges and
  further faults (which extend the block) included.
\<close>

theorem block_holds:
  assumes "bl_ok b" and "map_of (bl_state b) ip = Some e" and "be_blocked_until e = Some u"
    and "s + bl_duration b \<le> u"
    and "\<forall>x \<in> set xs. \<forall>t \<in> set (bl_times x). s \<le> t \<and> t < s + bl_duration b"
    and "now < s + bl_duration b"
  shows "is_blocked_at ip now (fold bl_step xs b)"
  by (rule block_run [OF assms])

theorem block_holds_witness:
  "is_blocked_at home 300000000009 (fold bl_step [BlFaulty home 11 11, BlPurge 12, BlDrop 13 13]
     (sample_bl\<lparr>bl_state := [(home, \<lparr>be_faults = 3, be_blocked_until = Some 300000000010\<rparr>)]\<rparr>))"
  by (rule block_holds [where s = 10 and u = 300000000010 and e = "\<lparr>be_faults = 3, be_blocked_until = Some 300000000010\<rparr>"])
     (simp_all add: hm_ok_def)

text \<open>
  \<open>purge_stale\<close> drops every address that is not blocked at that moment, its fault count
  included: an address that commits at most \<open>threshold\<close> faults between two purges is never
  blacklisted, for any number of rounds. The comment on \<open>purge_stale\<close> promises to keep
  entries with recent faults.
\<close>

theorem paced_faults_never_block:
  assumes "bl_ok b" and "clean ip 0 b" and "bl_threshold b < 2 ^ 32" and "bl_max_entries b = 0"
    and "\<forall>(xs, t) \<in> set rs. count_faults ip xs \<le> bl_threshold b \<and> (\<forall>x \<in> set xs. \<not> is_purge x)"
  shows "\<not> is_blocked ip now (fold bl_step (rounds rs) b)"
  using clean_not_blocked [OF rounds_clean [OF assms], of now] by (simp add: is_blocked_def)

theorem paced_faults_never_block_witness:
  "\<not> is_blocked home 60 (fold bl_step (rounds [([BlFaulty home 1 1, BlFaulty home 2 2], 3),
     ([BlFaulty home 4 4, BlFaulty home 5 5], 6), ([BlFaulty home 7 7], 8)]) sample_bl)"
  by (rule paced_faults_never_block) simp_all

text \<open>
  C24: A rejection engages lockdown exactly when, with it, more than \<open>rejection_threshold\<close>
  rejections lie within the attack window, whatever other operations and purges came before.
\<close>

theorem lockdown_on_rejection_rate:
  assumes "bl_rejection_threshold b \<noteq> 0" and "bl_rejections b = []"
    and "sorted (concat (map reject_clock xs) @ [now])" and "length (concat (map reject_times xs)) < u32_max"
  shows "bl_lockdown_until_ms (note_rejection now t_arm (fold bl_step xs b)) =
    (if bl_rejection_threshold b < length (filter (recent (bl_attack_window b) now) (concat (map reject_times xs) @ [now]))
     then max (bl_lockdown_until_ms (fold bl_step xs b)) (as_u64 (now_ms t_arm b + window_ms b))
     else bl_lockdown_until_ms (fold bl_step xs b))"
proof -
  let ?b = "fold bl_step xs b" and ?rs = "concat (map reject_times xs)"
  have r: "filter (recent (bl_attack_window b) now) (bl_rejections ?b) = filter (recent (bl_attack_window b) now) ?rs"
    "sorted (bl_rejections ?b)" "set (bl_rejections ?b) \<subseteq> set (concat (map reject_clock xs))"
    using reject_run [of b xs now] assms by (auto simp: sorted_append)
  then have "sorted (bl_rejections ?b @ [now])" using assms(3) by (auto simp: sorted_append)
  then have q: "trim_front (bl_attack_window b) (bl_rejections ?b @ [now]) now =
      filter (recent (bl_attack_window b) now) (?rs @ [now])"
    using r(1) by (simp add: trim_front_sorted)
  let ?n = "length (filter (recent (bl_attack_window b) now) (?rs @ [now]))"
  have "?n \<le> length (?rs @ [now])" by (rule length_filter_le)
  with assms(4) have n: "as_u32 ?n = ?n" by (simp add: as_u32_def u32_max_def)
  have ms: "now_ms t_arm (?b\<lparr>bl_rejections := l\<rparr>) = now_ms t_arm b" "window_ms (?b\<lparr>bl_rejections := l\<rparr>) = window_ms b" for l
    by (simp_all add: now_ms_def window_ms_def)
  show ?thesis using assms(1) n
    by (simp add: note_rejection_def q Let_def ms del: filter_append)
qed

theorem lockdown_on_rejection_rate_witness:
  "bl_lockdown_until_ms (note_rejection 12000000000 12000000000 (fold bl_step
     [BlReject 1000000000 1000000000, BlReject 9000000000 9000000000] (sample_bl\<lparr>bl_rejection_threshold := 2\<rparr>))) =
   bl_lockdown_until_ms (fold bl_step [BlReject 1000000000 1000000000, BlReject 9000000000 9000000000]
     (sample_bl\<lparr>bl_rejection_threshold := 2\<rparr>))"
  using lockdown_on_rejection_rate [of "sample_bl\<lparr>bl_rejection_threshold := 2\<rparr>"
      "[BlReject 1000000000 1000000000, BlReject 9000000000 9000000000]" 12000000000 12000000000]
  by (simp add: u32_max_def recent_def duration_since_def del: fold_simps)

text \<open>
  Lockdown clears by itself: if no clock reading of a run is later than \<open>latest\<close>, then one
  attack window after \<open>latest\<close> the server is not in lockdown, unless it was already armed beyond
  that; until then lockdown is never shortened.
\<close>

theorem lockdown_clears:
  assumes "\<forall>x \<in> set xs. \<forall>t \<in> set (bl_times x). now_ms t b \<le> latest"
    and "bl_lockdown_until_ms b \<le> latest + window_ms b" and "latest + window_ms b \<le> now_ms now b"
  shows "\<not> under_attack now (fold bl_step xs b) \<and>
    bl_lockdown_until_ms b \<le> bl_lockdown_until_ms (fold bl_step xs b)"
proof -
  have "\<forall>x \<in> set xs. \<forall>t \<in> set (bl_times x). as_u64 (now_ms t b + window_ms b) \<le> latest + window_ms b"
    using assms(1) by (meson add_le_mono1 as_u64_le order_trans)
  with assms lockdown_run [of b "latest + window_ms b" xs] have "bl_lockdown_until_ms (fold bl_step xs b) \<le> now_ms now b"
    by simp
  moreover have "now_ms now (fold bl_step xs b) = now_ms now b" by (simp add: now_ms_def)
  ultimately show ?thesis by (simp add: under_attack_def lockdown_mono)
qed

theorem lockdown_clears_witness:
  "\<not> under_attack 13000000000 (fold bl_step [BlReject 1000000000 2000000000, BlDrop 3000000000 3000000000] sample_bl)"
proof -
  have "now_ms 13000000000 sample_bl = 13000" "now_ms 1000000000 sample_bl = 1000" "now_ms 2000000000 sample_bl = 2000"
    "now_ms 3000000000 sample_bl = 3000" "window_ms sample_bl = 10000"
    by (simp_all add: now_ms_def window_ms_def as_u64_def as_millis_def duration_since_def)
  then show ?thesis
    using lockdown_clears [of "[BlReject 1000000000 2000000000, BlDrop 3000000000 3000000000]" sample_bl 3000 13000000000]
    by simp
qed

text \<open>
  Background noise cannot hold lockdown on: if no stretch of one attack window contains more
  dropped packets than the threshold, then no number of drops at the lockdown gate re-arms it.
\<close>

theorem trickle_never_rearms:
  assumes "bl_drop_count b = 0" and "bl_drop_window_start_ms b = 0"
    and "sorted (map (\<lambda>p. now_ms (fst p) b) ps)"
    and "\<forall>a. length (filter (within a (window_ms b)) (map (\<lambda>p. now_ms (fst p) b) ps)) \<le> drop_threshold b"
    and "drop_threshold b < u64_max"
  shows "bl_lockdown_until_ms (fold (\<lambda>(t, u). note_lockdown_drop t u) ps b) = bl_lockdown_until_ms b"
  using trickle_run [of b "[]" ps] assms by simp

theorem trickle_never_rearms_witness:
  "bl_lockdown_until_ms (fold (\<lambda>(t, u). note_lockdown_drop t u) [(1000000000, 1000000000), (2000000000, 2000000000)] sample_bl) = 0"
  using trickle_never_rearms [of sample_bl "[(1000000000, 1000000000), (2000000000, 2000000000)]"]
  by (simp add: now_ms_def as_u64_def as_millis_def duration_since_def drop_threshold_def u64_max_def)

text \<open>
  Setting the attack threshold to zero does not turn the blacklist trigger of lockdown off,
  as long as the rejection trigger is on: then the first address that is blacklisted puts the
  server into lockdown.
\<close>

theorem zero_attack_threshold_arms:
  assumes "bl_attack_threshold b = 0" and "bl_rejection_threshold b \<noteq> 0"
    and "length (bl_events b) < u32_max" and "\<forall>e \<in> set (bl_events b). e \<le> t"
    and "record_faulty_at ip t t_arm b = Returns (b', True)"
    and "now_ms t_arm b + window_ms b < 2 ^ 64" and "now_ms now b < now_ms t_arm b + window_ms b"
  shows "under_attack now b'"
proof -
  from assms(5) obtain e where b': "b' = note_event t t_arm (b\<lparr>bl_state := hm_put ip e (bl_state b)\<rparr>)"
    by (cases rule: record_faulty_cases [of ip t t_arm b]) auto
  let ?q = "trim_front (bl_attack_window b) (bl_events b @ [t]) t"
  have "?q \<noteq> [] \<and> length ?q \<le> length (bl_events b @ [t])" for w :: nat
  proof -
    have "trim_front w (es @ [t]) t \<noteq> [] \<and> length (trim_front w (es @ [t]) t) \<le> length (es @ [t])" for w es
      by (induction es) (auto simp: duration_since_def)
    then show ?thesis by blast
  qed
  then have "0 < length ?q" "length ?q \<le> length (bl_events b) + 1" by auto
  with assms(3) have "0 < as_u32 (length ?q)" by (simp add: as_u32_def u32_max_def)
  then show ?thesis using assms b'
    by (simp add: note_event_def under_attack_def now_ms_def window_ms_def as_u64_def)
qed

definition sample_zero :: blacklist where
  "sample_zero = (bl_new 1 300 0 50 10 0 0)\<lparr>bl_state := [(home, \<lparr>be_faults = 1, be_blocked_until = None\<rparr>)]\<rparr>"

theorem zero_attack_threshold_arms_witness:
  "\<exists>b'. record_faulty_at home 9000000 9000000 sample_zero = Returns (b', True) \<and> under_attack 10000000 b'"
proof -
  have z: "bl_attack_threshold sample_zero = 0" "bl_rejection_threshold sample_zero = 50" "bl_events sample_zero = []"
    "now_ms 9000000 sample_zero = 9" "now_ms 10000000 sample_zero = 10" "window_ms sample_zero = 10000"
    by (simp_all add: sample_zero_def bl_new_def now_ms_def window_ms_def as_u64_def as_millis_def
        duration_since_def from_secs_def)
  have "\<exists>b'. record_faulty_at home 9000000 9000000 sample_zero = Returns (b', True)"
    by (simp add: sample_zero_def bl_new_def record_faulty_at_def fault_entry_def as_u32_def instant_add_def
        instant_max_def from_secs_def hm_has_def)
  then obtain b' where "record_faulty_at home 9000000 9000000 sample_zero = Returns (b', True)" by blast
  with zero_attack_threshold_arms [of sample_zero 9000000 home 9000000 b' 10000000] z show ?thesis
    by (auto simp: u32_max_def)
qed

text \<open>
  Recording a fault never panics when the end of the block is representable; it does panic,
  and so poisons the table's mutex, when \<open>blacklist_seconds\<close> is so large that it is not, on
  the very packet that would have blacklisted the address.
\<close>

theorem fault_panics_iff_overflow:
  assumes "clean ip f b" and "f < 2 ^ 32 - 1" and "0 < bl_threshold b" and "bl_max_entries b = 0"
  shows "record_faulty_at ip t t_arm b = Panics \<longleftrightarrow> bl_threshold b \<le> f \<and> instant_max < t + bl_duration b"
  using assms
  by (cases "map_of (bl_state b) ip")
     (auto simp: record_faulty_at_def fault_entry_def clean_def as_u32_def instant_add_def Let_def split: if_splits)

theorem fault_panics_iff_overflow_witness:
  "record_faulty_at home 7 7 (fold bl_step [BlFaulty home 5 5] (bl_new 1 (2 ^ 63) 5 50 10 0 0)) = Panics"
proof -
  let ?b = "bl_new 1 (2 ^ 63) 5 50 10 0 0"
  have b: "clean home 0 ?b" "bl_threshold ?b = 1" "bl_max_entries ?b = 0" "bl_duration ?b = 2 ^ 63 * 1000000000"
    by (simp_all add: bl_new_def clean_def from_secs_def)
  have "clean home 1 (fold bl_step [BlFaulty home 5 5] ?b)"
    using clean_run [of home 0 ?b "[BlFaulty home 5 5]"] b by simp
  with fault_panics_iff_overflow [of home 1 "fold bl_step [BlFaulty home 5 5] ?b" 7 7] b show ?thesis
    by (simp add: instant_max_def del: fold_simps)
qed

end
