(* ===== verification/Lease_Tracker.thy ===== *)
theory Lease_Tracker
  imports Interfaces Net
begin

text \<open>
  The per-client access leases, \<open>LeaseTracker\<close> of \<open>signedpulse-server/src/rate_limit.rs\<close>. Every
  operation holds the tracker's mutex; the reading of \<open>Instant::now()\<close> is an argument.
  \<open>renew_at\<close> adds the lease time to the clock, which panics on overflow with the mutex held.
  The order in which \<open>take_expired_at\<close> and \<open>live_snapshot\<close> list leases is that of the table.
\<close>

subsection \<open>The tracker\<close>

record lease =
  l_expires_at :: instant
  l_ip :: ip_addr
  l_source_port :: nat
  l_param :: "string option"

record expired_lease =
  x_ip :: ip_addr
  x_client_id :: string
  x_source_port :: nat
  x_param :: "string option"

record lease_tracker =
  lt_max_entries :: nat
  lt_leases :: "(string, lease) hmap"

definition lt_new :: "nat \<Rightarrow> lease_tracker" where
  "lt_new max_entries = \<lparr>lt_max_entries = max max_entries 1, lt_leases = []\<rparr>"

definition lease_live :: "instant \<Rightarrow> lease \<Rightarrow> bool" where
  "lease_live now l \<longleftrightarrow> now < l_expires_at l"

definition renew_at ::
  "string \<Rightarrow> ip_addr \<Rightarrow> nat \<Rightarrow> string option \<Rightarrow> duration \<Rightarrow> instant \<Rightarrow> lease_tracker \<Rightarrow> (lease_tracker \<times> bool) may_panic" where
  "renew_at client ip port param ttl now t =
     (let is_new = (case map_of (lt_leases t) client of
                      Some l \<Rightarrow> l_expires_at l \<le> now
                    | None \<Rightarrow> True)
      in case instant_add now ttl of
           None \<Rightarrow> Panics
         | Some expires_at \<Rightarrow>
             (let l = \<lparr>l_expires_at = expires_at, l_ip = ip, l_source_port = port, l_param = param\<rparr>;
                  t' = (if hm_has (lt_leases t) client \<or> length (lt_leases t) < lt_max_entries t
                        then t\<lparr>lt_leases := hm_put client l (lt_leases t)\<rparr> else t)
              in Returns (t', is_new)))"

definition end_lease :: "string \<Rightarrow> lease \<Rightarrow> expired_lease" where
  "end_lease client l =
     \<lparr>x_ip = l_ip l, x_client_id = client, x_source_port = l_source_port l, x_param = l_param l\<rparr>"

definition release_at :: "string \<Rightarrow> instant \<Rightarrow> lease_tracker \<Rightarrow> lease_tracker \<times> (expired_lease \<times> nat) option" where
  "release_at client now t =
     (case map_of (lt_leases t) client of
        None \<Rightarrow> (t, None)
      | Some l \<Rightarrow>
          (let rest = hm_del client (lt_leases t);
               remaining = length (filter (\<lambda>(_, v). now < l_expires_at v \<and> l_ip v = l_ip l) rest)
           in (t\<lparr>lt_leases := rest\<rparr>, Some (end_lease client l, remaining))))"

definition others_on_ip :: "ip_addr \<Rightarrow> string \<Rightarrow> instant \<Rightarrow> lease_tracker \<Rightarrow> nat" where
  "others_on_ip ip client now t =
     length (filter (\<lambda>(cid, l). now < l_expires_at l \<and> l_ip l = ip \<and> cid \<noteq> client) (lt_leases t))"

text \<open>\<open>take_expired_at\<close>: the keys of the expired leases, then their removal one by one.\<close>

fun drain :: "string list \<Rightarrow> (string, lease) hmap \<Rightarrow> (string \<times> lease) list \<times> (string, lease) hmap" where
  "drain [] m = ([], m)"
| "drain (k # ks) m =
     (case map_of m k of
        None \<Rightarrow> drain ks m
      | Some l \<Rightarrow> (let (taken, m') = drain ks (hm_del k m) in ((k, l) # taken, m')))"

definition take_expired_at :: "instant \<Rightarrow> lease_tracker \<Rightarrow> lease_tracker \<times> (expired_lease \<times> nat) list" where
  "take_expired_at now t =
     (let keys = map fst (filter (\<lambda>(_, l). l_expires_at l \<le> now) (lt_leases t));
          (taken, rest) = drain keys (lt_leases t)
      in (t\<lparr>lt_leases := rest\<rparr>,
          map (\<lambda>(cid, l). (end_lease cid l, length (filter (\<lambda>(_, v). l_ip v = l_ip l) rest))) taken))"

definition active_count :: "instant \<Rightarrow> lease_tracker \<Rightarrow> nat" where
  "active_count now t = length (filter (\<lambda>(_, l). now < l_expires_at l) (lt_leases t))"

definition live_snapshot :: "instant \<Rightarrow> lease_tracker \<Rightarrow> (ip_addr \<times> string \<times> nat) list" where
  "live_snapshot now t =
     map (\<lambda>(cid, l). (l_ip l, cid, as_secs (l_expires_at l - now)))
       (filter (\<lambda>(_, l). now < l_expires_at l) (lt_leases t))"

subsection \<open>Runs\<close>

datatype lt_op =
    LtRenew string ip_addr nat "string option" duration instant
  | LtRelease string instant
  | LtExpire instant

fun lt_step :: "lt_op \<Rightarrow> lease_tracker \<Rightarrow> lease_tracker" where
  "lt_step (LtRenew c ip p param ttl now) t =
     (case renew_at c ip p param ttl now t of Returns (t', _) \<Rightarrow> t' | Panics \<Rightarrow> t)"
| "lt_step (LtRelease c now) t = fst (release_at c now t)"
| "lt_step (LtExpire now) t = fst (take_expired_at now t)"

text \<open>The operation ends the lease of client \<open>c\<close>, so that the server runs the revoke hook for it.\<close>

fun lt_ends :: "lt_op \<Rightarrow> lease_tracker \<Rightarrow> string \<Rightarrow> bool" where
  "lt_ends (LtRenew c' ip p param ttl now) t c \<longleftrightarrow> False"
| "lt_ends (LtRelease c' now) t c \<longleftrightarrow> c' = c \<and> snd (release_at c' now t) \<noteq> None"
| "lt_ends (LtExpire now) t c \<longleftrightarrow> c \<in> (\<lambda>p. x_client_id (fst p)) ` set (snd (take_expired_at now t))"

fun lt_renews :: "lt_op \<Rightarrow> string \<Rightarrow> bool" where
  "lt_renews (LtRenew c' ip p param ttl now) c \<longleftrightarrow> c' = c"
| "lt_renews _ c \<longleftrightarrow> False"

abbreviation lt_ok :: "lease_tracker \<Rightarrow> bool" where
  "lt_ok t \<equiv> hm_ok (lt_leases t)"

definition leased :: "lease_tracker \<Rightarrow> string \<Rightarrow> bool" where
  "leased t c \<longleftrightarrow> hm_has (lt_leases t) c"

subsection \<open>Draining\<close>

lemma hm_del_Cons_notin: "map_of m k = None \<Longrightarrow> hm_del k ((k, v) # m) = m"
  unfolding hm_del_def by (induction m) (auto split: if_splits)

lemma hm_del_Cons_other: "k \<noteq> k' \<Longrightarrow> hm_del k ((k', v) # m) = (k', v) # hm_del k m"
  by (simp add: hm_del_def)

text \<open>Draining the keys of a sublist takes out that sublist.\<close>

lemma drain_filter:
  "hm_ok m \<Longrightarrow> drain (map fst (filter P m)) m = (filter P m, filter (\<lambda>x. \<not> P x) m)"
proof (induction m)
  case Nil
  then show ?case by simp
next
  case (Cons x m)
  obtain k v where x: "x = (k, v)" by (cases x)
  with Cons.prems have ok: "hm_ok m" "map_of m k = None"
    by (auto simp: hm_ok_def map_of_eq_None_iff)
  have skip: "k \<notin> set ks \<Longrightarrow> drain ks ((k, v) # m') = (fst (drain ks m'), (k, v) # snd (drain ks m'))" for ks m'
  proof (induction ks arbitrary: m')
    case Nil
    then show ?case by simp
  next
    case (Cons j ks)
    then show ?case by (auto simp: hm_del_Cons_other split: option.splits prod.splits)
  qed
  show ?case
  proof (cases "P x")
    case True
    with x ok Cons.IH show ?thesis by (simp add: hm_del_Cons_notin)
  next
    case False
    have "k \<notin> set (map fst (filter P m))" using ok(2) by (auto simp: map_of_eq_None_iff)
    with False x ok Cons.IH skip show ?thesis by simp
  qed
qed

lemma take_expired_closed:
  assumes "lt_ok t"
  shows "take_expired_at now t =
    (t\<lparr>lt_leases := filter (\<lambda>(_, l). now < l_expires_at l) (lt_leases t)\<rparr>,
     map (\<lambda>(cid, l). (end_lease cid l, length (filter (\<lambda>(_, v). l_ip v = l_ip l)
           (filter (\<lambda>(_, l). now < l_expires_at l) (lt_leases t)))))
       (filter (\<lambda>(_, l). l_expires_at l \<le> now) (lt_leases t)))"
proof -
  have "filter (\<lambda>x. \<not> (case x of (_, l) \<Rightarrow> l_expires_at l \<le> now)) (lt_leases t) =
      filter (\<lambda>(_, l). now < l_expires_at l) (lt_leases t)"
    by (rule filter_cong) auto
  with drain_filter [OF assms, of "\<lambda>(_, l). l_expires_at l \<le> now"]
  have "drain (map fst (filter (\<lambda>(_, l). l_expires_at l \<le> now) (lt_leases t))) (lt_leases t) =
      (filter (\<lambda>(_, l). l_expires_at l \<le> now) (lt_leases t), filter (\<lambda>(_, l). now < l_expires_at l) (lt_leases t))"
    by (simp only:)
  then show ?thesis unfolding take_expired_at_def by (simp only: Let_def prod.case)
qed

lemma take_expired_retain:
  "lt_ok t \<Longrightarrow> fst (take_expired_at now t) = t\<lparr>lt_leases := hm_retain (\<lambda>_. lease_live now) (lt_leases t)\<rparr>"
  by (simp add: take_expired_closed hm_retain_def lease_live_def case_prod_unfold)

lemma release_cases:
  obtains (none) "map_of (lt_leases t) c = None" "release_at c now t = (t, None)"
  | (some) l where "map_of (lt_leases t) c = Some l"
      "release_at c now t = (t\<lparr>lt_leases := hm_del c (lt_leases t)\<rparr>,
         Some (end_lease c l, length (filter (\<lambda>(_, v). now < l_expires_at v \<and> l_ip v = l_ip l) (hm_del c (lt_leases t)))))"
  by (cases "map_of (lt_leases t) c") (auto simp: release_at_def Let_def)

lemma renew_cases:
  obtains (panics) "renew_at c ip p param ttl now t = Panics" "instant_max < now + ttl"
  | (refused) r where "renew_at c ip p param ttl now t = Returns (t, r)"
      "\<not> hm_has (lt_leases t) c" "lt_max_entries t \<le> length (lt_leases t)" "now + ttl \<le> instant_max"
  | (stored) l r where "renew_at c ip p param ttl now t = Returns (t\<lparr>lt_leases := hm_put c l (lt_leases t)\<rparr>, r)"
      "l = \<lparr>l_expires_at = now + ttl, l_ip = ip, l_source_port = p, l_param = param\<rparr>"
      "hm_has (lt_leases t) c \<or> length (lt_leases t) < lt_max_entries t" "now + ttl \<le> instant_max"
proof (cases "now + ttl \<le> instant_max")
  case False
  then show ?thesis by (intro panics) (simp_all add: renew_at_def instant_add_def Let_def)
next
  case True
  show ?thesis
  proof (cases "hm_has (lt_leases t) c \<or> length (lt_leases t) < lt_max_entries t")
    case False
    with True show ?thesis by (intro refused) (auto simp: renew_at_def instant_add_def Let_def)
  next
    case stores: True
    with True show ?thesis by (intro stored) (auto simp: renew_at_def instant_add_def Let_def)
  qed
qed

lemma lt_ok_step: "lt_ok t \<Longrightarrow> lt_ok (lt_step x t)"
proof (cases x)
  case (LtRenew c ip p param ttl now)
  assume "lt_ok t"
  with LtRenew show ?thesis by (cases rule: renew_cases [of c ip p param ttl now t]) simp_all
next
  case (LtRelease c now)
  assume "lt_ok t"
  with LtRelease show ?thesis by (cases rule: release_cases [of t c now]) simp_all
next
  case (LtExpire now)
  assume "lt_ok t"
  with LtExpire show ?thesis by (simp add: take_expired_retain)
qed

interpretation lt_tokens: token_table lt_ok leased lt_step lt_ends lt_renews
proof unfold_locales
  fix t :: lease_tracker and x
  assume "lt_ok t"
  then show "lt_ok (lt_step x t)" by (rule lt_ok_step)
next
  fix t :: lease_tracker and x c
  assume "lt_ok t" "lt_ends x t c"
  then show "leased t c"
    by (cases x) (auto simp: leased_def hm_has_def take_expired_closed end_lease_def release_at_def
        hm_ok_map_of_iff [symmetric] split: option.splits)
next
  fix t :: lease_tracker and x c
  assume t: "lt_ok t" "lt_ends x t c"
  show "\<not> leased (lt_step x t) c"
  proof (cases x)
    case (LtRenew c' ip p param ttl now)
    with t show ?thesis by simp
  next
    case (LtRelease c' now)
    with t show ?thesis by (cases rule: release_cases [of t c' now]) (auto simp: leased_def hm_has_def)
  next
    case (LtExpire now)
    with t obtain l where "(c, l) \<in> set (lt_leases t)" "l_expires_at l \<le> now"
      by (auto simp: take_expired_closed end_lease_def)
    with t LtExpire show ?thesis
      by (auto simp: leased_def hm_has_def take_expired_retain map_of_retain_live lease_live_def
          hm_ok_map_of_iff [symmetric] live_at_eq_Some)
  qed
next
  fix t :: lease_tracker and x c
  assume t: "lt_ok t" "leased (lt_step x t) c"
  show "leased t c \<or> lt_renews x c"
  proof (cases x)
    case (LtRenew c' ip p param ttl now)
    with t show ?thesis
      by (cases rule: renew_cases [of c' ip p param ttl now t]) (auto simp: leased_def)
  next
    case (LtRelease c' now)
    with t show ?thesis
      by (cases rule: release_cases [of t c' now]) (auto simp: leased_def hm_has_def split: if_splits)
  next
    case (LtExpire now)
    with t show ?thesis
      by (auto simp: leased_def hm_has_def take_expired_retain map_of_retain_live live_at_eq_Some)
  qed
qed

interpretation lt_ttl: ttl_table lt_ok "\<lambda>t. map_of (lt_leases t)" "\<lambda>_. lease_live"
  "\<lambda>now t. fst (take_expired_at now t)"
  by unfold_locales (auto simp: take_expired_retain map_of_retain_live lease_live_def)

interpretation lt_cap: capped_table lt_ok "\<lambda>t. length (lt_leases t)" lt_max_entries lt_step
proof unfold_locales
  fix t :: lease_tracker and x
  assume "lt_ok t"
  then show "lt_ok (lt_step x t)" by (rule lt_ok_step)
next
  fix t :: lease_tracker and x
  show "lt_max_entries (lt_step x t) = lt_max_entries t"
  proof (cases x)
    case (LtRenew c ip p param ttl now)
    then show ?thesis by (cases rule: renew_cases [of c ip p param ttl now t]) simp_all
  next
    case (LtRelease c now)
    then show ?thesis by (cases rule: release_cases [of t c now]) simp_all
  qed (simp add: take_expired_at_def case_prod_unfold Let_def)
next
  fix t :: lease_tracker and x
  assume t: "lt_ok t"
  show "length (lt_leases (lt_step x t)) \<le> max (length (lt_leases t)) (lt_max_entries t)"
  proof (cases x)
    case (LtRenew c ip p param ttl now)
    then show ?thesis by (cases rule: renew_cases [of c ip p param ttl now t]) (auto simp: length_hm_put)
  next
    case (LtRelease c now)
    then show ?thesis by (cases rule: release_cases [of t c now]) (simp_all add: le_max_iff_disj)
  next
    case (LtExpire now)
    with t show ?thesis by (simp add: take_expired_retain le_max_iff_disj)
  qed
qed

subsection \<open>Counting the clients behind an address\<close>

lemma others_after_del:
  "others_on_ip ip c now t = length (filter (\<lambda>(_, v). now < l_expires_at v \<and> l_ip v = ip) (hm_del c (lt_leases t)))"
  by (auto simp: others_on_ip_def hm_del_def intro!: arg_cong [where f = length] filter_cong)

lemma others_when_expired:
  assumes "lt_ok t" and "map_of (lt_leases t) c = Some l" and "l_expires_at l \<le> now"
  shows "others_on_ip ip c now t =
    length (filter (\<lambda>(_, v). l_ip v = ip) (filter (\<lambda>(_, l). now < l_expires_at l) (lt_leases t)))"
proof -
  have "(c, v) \<in> set (lt_leases t) \<Longrightarrow> \<not> now < l_expires_at v" for v
    using assms by (auto simp flip: hm_ok_map_of_iff)
  then show ?thesis by (auto simp: others_on_ip_def intro!: arg_cong [where f = length] filter_cong)
qed

lemma active_count_snapshot: "length (live_snapshot now t) = active_count now t"
  by (simp add: live_snapshot_def active_count_def)

lemma active_count_after_expiry: "lt_ok t \<Longrightarrow> active_count now (fst (take_expired_at now t)) = active_count now t"
  by (simp add: active_count_def take_expired_closed)

subsection \<open>Properties\<close>

definition gate :: ip_addr where "gate = V4 198 51 100 4"

definition sample_leases :: lease_tracker where
  "sample_leases = \<lparr>lt_max_entries = 2, lt_leases =
     [(''c1'', \<lparr>l_expires_at = 90, l_ip = gate, l_source_port = 4000, l_param = None\<rparr>),
      (''c2'', \<lparr>l_expires_at = 50, l_ip = gate, l_source_port = 4001, l_param = Some ''x''\<rparr>)]\<rparr>"

lemma sample_leases_ok [simp]: "lt_ok sample_leases"
  by (simp add: sample_leases_def hm_ok_def)

lemma sample_c2: "map_of (lt_leases sample_leases) ''c2'' =
    Some \<lparr>l_expires_at = 50, l_ip = gate, l_source_port = 4001, l_param = Some ''x''\<rparr>"
  by (simp add: sample_leases_def)

text \<open>
  A renewal says \<open>new\<close> exactly when the client held no live lease, and stores a lease that is
  live until \<open>now + ttl\<close> and not after, except that a client without an entry is refused when
  the tracker is full; no other client's lease changes. It panics exactly when \<open>now + ttl\<close> is
  not representable.
\<close>

theorem renew_contract:
  "case renew_at c ip p param ttl now t of
     Panics \<Rightarrow> instant_max < now + ttl
   | Returns (t', is_new) \<Rightarrow>
       now + ttl \<le> instant_max \<and>
       is_new = (live_at (lease_live now) (map_of (lt_leases t) c) = None) \<and>
       (if hm_has (lt_leases t) c \<or> length (lt_leases t) < lt_max_entries t
        then map_of (lt_leases t') = (map_of (lt_leases t))
               (c \<mapsto> \<lparr>l_expires_at = now + ttl, l_ip = ip, l_source_port = p, l_param = param\<rparr>)
        else t' = t \<and> is_new)"
  by (auto simp: renew_at_def Let_def instant_add_def live_at_def lease_live_def hm_has_def not_le
      split: option.splits)

text \<open>
  An expiry scan takes out exactly the leases that are not live at \<open>now\<close>, each once and with
  its client, address, port and parameter, keeps exactly the live ones, and reports with each
  ended lease how many other clients hold a live lease on the same address.
\<close>

theorem expiry_takes_exactly_the_expired:
  assumes "lt_ok t"
  shows "(\<forall>c. map_of (lt_leases (fst (take_expired_at now t))) c = live_at (lease_live now) (map_of (lt_leases t) c)) \<and>
    distinct (map (\<lambda>p. x_client_id (fst p)) (snd (take_expired_at now t))) \<and>
    (\<forall>x n. (x, n) \<in> set (snd (take_expired_at now t)) \<longleftrightarrow>
       (\<exists>l. map_of (lt_leases t) (x_client_id x) = Some l \<and> \<not> lease_live now l \<and>
            x = end_lease (x_client_id x) l \<and> n = others_on_ip (x_ip x) (x_client_id x) now t))"
proof (intro conjI allI)
  fix c
  show "map_of (lt_leases (fst (take_expired_at now t))) c = live_at (lease_live now) (map_of (lt_leases t) c)"
    using assms by (rule lt_ttl.view_purge)
next
  have "distinct (map fst (filter P (lt_leases t)))" for P
    using assms hm_ok_filter unfolding hm_ok_def by blast
  moreover have "(\<lambda>p. x_client_id (fst p)) \<circ> (\<lambda>(cid, l). (end_lease cid l, f l)) = fst" for f :: "lease \<Rightarrow> nat"
    by (auto simp: fun_eq_iff end_lease_def)
  ultimately show "distinct (map (\<lambda>p. x_client_id (fst p)) (snd (take_expired_at now t)))"
    by (simp add: take_expired_closed [OF assms])
next
  fix x n
  let ?live = "filter (\<lambda>(_, l). now < l_expires_at l) (lt_leases t)"
  have e: "x_client_id (end_lease c l) = c" "x_ip (end_lease c l) = l_ip l" for c l
    by (simp_all add: end_lease_def)
  have "(x, n) \<in> set (snd (take_expired_at now t)) \<longleftrightarrow>
      (\<exists>c l. map_of (lt_leases t) c = Some l \<and> l_expires_at l \<le> now \<and> x = end_lease c l \<and>
             n = length (filter (\<lambda>(_, v). l_ip v = l_ip l) ?live))"
    unfolding take_expired_closed [OF assms] hm_ok_map_of_iff [OF assms] by auto
  also have "\<dots> \<longleftrightarrow> (\<exists>c l. map_of (lt_leases t) c = Some l \<and> l_expires_at l \<le> now \<and> x = end_lease c l \<and>
             n = others_on_ip (l_ip l) c now t)"
    using others_when_expired [OF assms] by metis
  also have "\<dots> \<longleftrightarrow> (\<exists>l. map_of (lt_leases t) (x_client_id x) = Some l \<and> \<not> lease_live now l \<and>
            x = end_lease (x_client_id x) l \<and> n = others_on_ip (x_ip x) (x_client_id x) now t)"
    unfolding lease_live_def not_less using e by metis
  finally show "(x, n) \<in> set (snd (take_expired_at now t)) \<longleftrightarrow>
       (\<exists>l. map_of (lt_leases t) (x_client_id x) = Some l \<and> \<not> lease_live now l \<and>
            x = end_lease (x_client_id x) l \<and> n = others_on_ip (x_ip x) (x_client_id x) now t)" .
qed

theorem expiry_takes_exactly_the_expired_witness:
  "distinct (map (\<lambda>p. x_client_id (fst p)) (snd (take_expired_at 60 sample_leases))) \<and>
   map_of (lt_leases (fst (take_expired_at 60 sample_leases))) ''c2'' = None"
  using expiry_takes_exactly_the_expired [of sample_leases 60] by (simp add: sample_c2 lease_live_def)

text \<open>
  Releasing a client ends its own lease only, and reports exactly the number of other clients
  that hold a live lease on the released address; a client without a lease gets nothing.
\<close>

theorem release_counts_siblings:
  "case release_at c now t of
     (t', None) \<Rightarrow> t' = t \<and> map_of (lt_leases t) c = None
   | (t', Some (x, n)) \<Rightarrow>
       (\<exists>l. map_of (lt_leases t) c = Some l \<and> x = end_lease c l) \<and>
       n = others_on_ip (x_ip x) c now t \<and>
       (\<forall>d. map_of (lt_leases t') d = (if d = c then None else map_of (lt_leases t) d))"
  by (cases rule: release_cases [of t c now]) (simp_all add: others_after_del end_lease_def)

text \<open>
  C13: In any interleaving of renewals, releases and expiry scans from the empty tracker, the
  lease of a client is ended, and so its access revoked, at most once for each time it pulsed;
  and the tracker never holds more leases than its cap.
\<close>

theorem lease_ends_at_most_once_per_pulse:
  "count_takes lt_step lt_ends c (lt_new n) xs \<le> count_puts lt_renews c xs \<and>
   length (lt_leases (fold lt_step xs (lt_new n))) \<le> max n 1"
  using lt_tokens.takes_bounded [of "lt_new n" c xs] lt_cap.run_bounded [of "lt_new n" xs]
  by (simp add: lt_new_def leased_def)

end
