(* ===== verification/Command_Runner.thy ===== *)
theory Command_Runner
  imports Net Interfaces
begin

text \<open>
  Running the configured hook, \<open>signedpulse-server/src/command_runner.rs\<close>: the substitution of
  placeholders, the command that is built, and the executor with its semaphore. What the
  operating system does with a process (whether it can be spawned, how waiting for it ends) is
  an argument.
\<close>

subsection \<open>Placeholders\<close>

definition substitute_placeholders ::
  "string \<Rightarrow> ip_addr \<Rightarrow> string \<Rightarrow> nat \<Rightarrow> string \<Rightarrow> string \<Rightarrow> string \<Rightarrow> string \<Rightarrow> string" where
  "substitute_placeholders arg ip client_id source_port param new reason ip_clients =
     (let a = replace_str ''{ip}'' (ip_to_string ip) arg;
          a = replace_str ''{client_id}'' client_id a;
          a = replace_str ''{source_port}'' (show_nat source_port) a;
          a = replace_str ''{param}'' param a;
          a = replace_str ''{new}'' new a;
          a = replace_str ''{reason}'' reason a
      in replace_str ''{ip_clients}'' ip_clients a)"

definition build_argv ::
  "string list \<Rightarrow> ip_addr \<Rightarrow> string \<Rightarrow> nat \<Rightarrow> string \<Rightarrow> string \<Rightarrow> string \<Rightarrow> string \<Rightarrow> string list" where
  "build_argv template ip client_id source_port param new reason ip_clients =
     map (\<lambda>a. substitute_placeholders a ip client_id source_port param new reason ip_clients) template"

subsection \<open>The command\<close>

datatype command_error = Spawn string | Wait string | AtCapacity

record command_result =
  cr_exit_code :: "int option"
  cr_timed_out :: bool

record process_executor =
  pe_argv_template :: "string list"
  pe_working_dir :: "string option"
  pe_timeout :: duration
  pe_allow_shell :: bool
  pe_max_concurrent :: nat
  pe_running :: nat

definition pe_new :: "string list \<Rightarrow> string option \<Rightarrow> duration \<Rightarrow> nat \<Rightarrow> bool \<Rightarrow> process_executor" where
  "pe_new argv_template working_dir timeout max_concurrent allow_shell =
     \<lparr>pe_argv_template = argv_template, pe_working_dir = working_dir, pe_timeout = timeout,
      pe_allow_shell = allow_shell, pe_max_concurrent = max max_concurrent 1, pe_running = 0\<rparr>"

text \<open>Standard input and the two outputs are always the null device.\<close>

record command =
  cmd_program :: string
  cmd_args :: "string list"
  cmd_current_dir :: "string option"
  cmd_env :: "(string \<times> string) list"

fun join_space :: "string list \<Rightarrow> string" where
  "join_space [] = []"
| "join_space [a] = a"
| "join_space (a # b # as) = a @ '' '' @ join_space (b # as)"

definition build_command ::
  "process_executor \<Rightarrow> ip_addr \<Rightarrow> string \<Rightarrow> nat \<Rightarrow> string \<Rightarrow> string \<Rightarrow> string \<Rightarrow> string \<Rightarrow> command" where
  "build_command x ip client_id source_port param new reason ip_clients =
     (let argv = build_argv (pe_argv_template x) ip client_id source_port param new reason ip_clients;
          (program, args) =
            (if pe_allow_shell x then (''sh'', [''-c'', join_space argv])
             else case argv of [] \<Rightarrow> (''/bin/false'', []) | p # as \<Rightarrow> (p, as))
      in \<lparr>cmd_program = program, cmd_args = args, cmd_current_dir = pe_working_dir x,
          cmd_env = [(''PATH'', ''/usr/sbin:/usr/bin:/sbin:/bin'')]\<rparr>)"

subsection \<open>Execution\<close>

text \<open>
  \<open>execute\<close> in its two parts: up to the spawn, and from the wait on. A permit of the semaphore
  is held in between; it is given back on every way out. \<open>Exited c\<close> is the child's exit code
  (\<open>None\<close> when it was killed by a signal), \<open>Elapsed\<close> the timeout, after which the child is
  killed.
\<close>

datatype wait_outcome = Exited "int option" | WaitFailed string | Elapsed

definition execute_start ::
  "string option \<Rightarrow> string \<Rightarrow> ip_addr \<Rightarrow> nat \<Rightarrow> string option \<Rightarrow> bool \<Rightarrow> string \<Rightarrow> nat \<Rightarrow>
   process_executor \<Rightarrow> process_executor \<times> (command_error, command) res" where
  "execute_start spawn_error client_id ip source_port param is_new reason ip_clients x =
     (if pe_max_concurrent x \<le> pe_running x then (x, Inl AtCapacity)
      else
        let new = (if is_new then ''1'' else ''0'');
            cmd = build_command x ip client_id source_port (case param of Some p \<Rightarrow> p | None \<Rightarrow> '''')
                    new reason (show_nat ip_clients)
        in case spawn_error of
             Some e \<Rightarrow> (x, Inl (Spawn e))
           | None \<Rightarrow> (x\<lparr>pe_running := pe_running x + 1\<rparr>, Inr cmd))"

definition execute_finish ::
  "wait_outcome \<Rightarrow> process_executor \<Rightarrow> process_executor \<times> (command_error, command_result) res \<times> bool" where
  "execute_finish w x =
     (let x' = x\<lparr>pe_running := pe_running x - 1\<rparr> in
      case w of
        Exited c \<Rightarrow> (x', Inr \<lparr>cr_exit_code = c, cr_timed_out = False\<rparr>, False)
      | WaitFailed e \<Rightarrow> (x', Inl (Wait e), False)
      | Elapsed \<Rightarrow> (x', Inr \<lparr>cr_exit_code = None, cr_timed_out = True\<rparr>, True))"

datatype exec_op =
    ExStart "string option" string ip_addr nat "string option" bool string nat
  | ExFinish wait_outcome

fun exec_step :: "exec_op \<Rightarrow> process_executor \<Rightarrow> process_executor" where
  "exec_step (ExStart e c ip p param n r k) x = fst (execute_start e c ip p param n r k x)"
| "exec_step (ExFinish w) x = fst (execute_finish w x)"

interpretation exec_cap: capped_table "\<lambda>x. True" pe_running pe_max_concurrent exec_step
proof unfold_locales
  fix x and y :: exec_op
  show "pe_max_concurrent (exec_step y x) = pe_max_concurrent x"
    by (cases y) (auto simp: execute_start_def execute_finish_def Let_def split: option.splits wait_outcome.splits)
  show "pe_running (exec_step y x) \<le> max (pe_running x) (pe_max_concurrent x)"
    by (cases y) (auto simp: execute_start_def execute_finish_def Let_def split: option.splits wait_outcome.splits)
qed simp

subsection \<open>Substitution, seen as tokens\<close>

text \<open>
  A template whose only opening braces are those of placeholders is a list of tokens. The
  reference meaning of a template fills every placeholder with its value in one go.
\<close>

datatype hole = HIp | HClientId | HSourcePort | HParam | HNew | HReason | HIpClients

datatype token = Lit char | Hole hole

fun hole_text :: "hole \<Rightarrow> string" where
  "hole_text HIp = ''{ip}''"
| "hole_text HClientId = ''{client_id}''"
| "hole_text HSourcePort = ''{source_port}''"
| "hole_text HParam = ''{param}''"
| "hole_text HNew = ''{new}''"
| "hole_text HReason = ''{reason}''"
| "hole_text HIpClients = ''{ip_clients}''"

fun token_text :: "(hole \<Rightarrow> string) \<Rightarrow> token \<Rightarrow> string" where
  "token_text env (Lit c) = [c]"
| "token_text env (Hole h) = env h"

definition fill :: "(hole \<Rightarrow> string) \<Rightarrow> token list \<Rightarrow> string" where
  "fill env ts = concat (map (token_text env) ts)"

definition brace :: char where "brace = CHR ''{''"

lemma fill_simps [simp]:
  "fill env [] = []"
  "fill env (t # ts) = token_text env t @ fill env ts"
  by (simp_all add: fill_def)

lemma replace_skip: "pat \<noteq> [] \<Longrightarrow> hd pat \<notin> set s \<Longrightarrow> replace_str pat to (s @ r) = s @ replace_str pat to r"
  by (induction s) (auto simp: starts_with_def neq_Nil_conv)

lemma replace_hit: "pat \<noteq> [] \<Longrightarrow> replace_str pat to (pat @ r) = to @ replace_str pat to r"
  by (cases pat) (simp_all add: starts_with_def)

text \<open>Another placeholder's text is passed over.\<close>

lemma replace_other:
  assumes "h \<noteq> k"
  shows "replace_str (hole_text k) to (hole_text h @ r) = hole_text h @ replace_str (hole_text k) to r"
  using assms by (cases h; cases k) (simp_all add: starts_with_def)

lemma hole_text_facts [simp]: "hole_text h \<noteq> []" "hd (hole_text h) = brace"
  by (cases h; simp add: brace_def)+

lemma replace_fill:
  assumes "\<forall>t \<in> set ts. t \<noteq> Lit brace"
    and "\<forall>h. env h = hole_text h \<or> brace \<notin> set (env h)" and "env k = hole_text k"
  shows "replace_str (hole_text k) v (fill env ts) = fill (env(k := v)) ts"
  using assms(1)
proof (induction ts)
  case Nil
  then show ?case by simp
next
  case (Cons t ts)
  have IH: "replace_str (hole_text k) v (fill env ts) = fill (env(k := v)) ts"
    by (rule Cons.IH) (use Cons.prems in auto)
  show ?case
  proof (cases t)
    case (Lit c)
    with Cons.prems have "brace \<notin> set [c]" by auto
    then show ?thesis using IH Lit replace_skip [of "hole_text k" "[c]" v "fill env ts"] by (simp del: fun_upd_apply)
  next
    case (Hole h)
    show ?thesis
    proof (cases "h = k")
      case True
      with Hole IH assms(3) show ?thesis by (simp add: replace_hit fun_upd_same del: fun_upd_apply)
    next
      case False
      then have "replace_str (hole_text k) v (env h @ fill env ts) = env h @ replace_str (hole_text k) v (fill env ts)"
        using assms(2) replace_other [of h k v] replace_skip [of "hole_text k" "env h" v] by (metis hole_text_facts)
      with Hole False IH show ?thesis by (simp del: fun_upd_apply add: fun_upd_other)
    qed
  qed
qed

text \<open>The value of each placeholder in a call.\<close>

fun call_env :: "ip_addr \<Rightarrow> string \<Rightarrow> nat \<Rightarrow> string \<Rightarrow> string \<Rightarrow> string \<Rightarrow> string \<Rightarrow> hole \<Rightarrow> string" where
  "call_env ip c p param new reason k HIp = ip_to_string ip"
| "call_env ip c p param new reason k HClientId = c"
| "call_env ip c p param new reason k HSourcePort = show_nat p"
| "call_env ip c p param new reason k HParam = param"
| "call_env ip c p param new reason k HNew = new"
| "call_env ip c p param new reason k HReason = reason"
| "call_env ip c p param new reason k HIpClients = k"

lemma brace_not_ip: "brace \<notin> ip_chars"
  by (simp add: brace_def ip_chars_def)

lemma substitute_fill:
  assumes "\<forall>t \<in> set ts. t \<noteq> Lit brace"
    and "brace \<notin> set c" "brace \<notin> set param" "brace \<notin> set new" "brace \<notin> set reason"
  shows "substitute_placeholders (fill hole_text ts) ip c p param new reason k =
    fill (call_env ip c p param new reason k) ts"
proof -
  have b: "brace \<notin> set (ip_to_string ip)" "brace \<notin> set (show_nat p)"
    using ip_to_string_chars show_nat_ip brace_not_ip by blast+
  define e1 where "e1 = hole_text(HIp := ip_to_string ip)"
  define e2 where "e2 = e1(HClientId := c)"
  define e3 where "e3 = e2(HSourcePort := show_nat p)"
  define e4 where "e4 = e3(HParam := param)"
  define e5 where "e5 = e4(HNew := new)"
  define e6 where "e6 = e5(HReason := reason)"
  note es = e1_def e2_def e3_def e4_def e5_def e6_def
  have env: "e6(HIpClients := k) = call_env ip c p param new reason k"
  proof
    fix h show "(e6(HIpClients := k)) h = call_env ip c p param new reason k h"
      by (cases h) (simp_all add: es)
  qed
  have "replace_str ''{ip}'' (ip_to_string ip) (fill hole_text ts) = fill e1 ts"
    using replace_fill [OF assms(1), of hole_text HIp] by (simp add: es)
  moreover have "replace_str ''{client_id}'' c (fill e1 ts) = fill e2 ts"
    using replace_fill [OF assms(1), of e1 HClientId] b by (simp add: es)
  moreover have "replace_str ''{source_port}'' (show_nat p) (fill e2 ts) = fill e3 ts"
    using replace_fill [OF assms(1), of e2 HSourcePort] b assms by (simp add: es)
  moreover have "replace_str ''{param}'' param (fill e3 ts) = fill e4 ts"
    using replace_fill [OF assms(1), of e3 HParam] b assms by (simp add: es)
  moreover have "replace_str ''{new}'' new (fill e4 ts) = fill e5 ts"
    using replace_fill [OF assms(1), of e4 HNew] b assms by (simp add: es)
  moreover have "replace_str ''{reason}'' reason (fill e5 ts) = fill e6 ts"
    using replace_fill [OF assms(1), of e5 HReason] b assms by (simp add: es)
  moreover have "replace_str ''{ip_clients}'' k (fill e6 ts) = fill (e6(HIpClients := k)) ts"
    using replace_fill [OF assms(1), of e6 HIpClients] b assms by (simp add: es)
  ultimately show ?thesis by (simp add: substitute_placeholders_def env)
qed

subsection \<open>Properties\<close>

definition lan :: ip_addr where "lan = V4 203 0 113 7"

text \<open>
  Substitution is literal and simultaneous when no value contains an opening brace: in a
  template whose only opening braces belong to placeholders, every placeholder is replaced by
  exactly its own value and every other character stays, whatever the order of the passes.
\<close>

theorem substitution_is_literal:
  assumes "\<forall>t \<in> set ts. t \<noteq> Lit brace"
    and "brace \<notin> set c" "brace \<notin> set param" "brace \<notin> set new" "brace \<notin> set reason"
  shows "substitute_placeholders (fill hole_text ts) ip c p param new reason k =
    fill (call_env ip c p param new reason k) ts"
  by (rule substitute_fill [OF assms])

theorem substitution_is_literal_witness:
  "substitute_placeholders (fill hole_text [Lit CHR ''x'', Hole HParam, Lit CHR ''}'', Hole HIp])
     lan ''c1'' 40000 ''a; b'' ''1'' ''grant'' ''0'' = ''xa; b}'' @ ip_to_string lan"
  using substitution_is_literal [of "[Lit CHR ''x'', Hole HParam, Lit CHR ''}'', Hole HIp]" "''c1''" "''a; b''" "''1''"
      "''grant''" lan 40000 "''0''"]
  by (simp add: brace_def)

text \<open>
  A value with braces is not inserted literally: a parameter chosen by the client that spells
  a later placeholder is expanded in its turn, here to the reason of the run and to the number
  of clients behind the address.
\<close>

theorem parameter_is_expanded_again:
  "substitute_placeholders ''{param}'' ip c p ''{reason}'' new reason k = replace_str ''{ip_clients}'' k reason \<and>
   substitute_placeholders ''{param}'' ip c p ''{ip_clients}'' new reason k = k"
proof -
  have pass: "replace_str (hole_text h) v (hole_text j) = hole_text j" if "h \<noteq> j" for h j v
    using replace_other [of j h v "[]"] that by simp
  have skip: "replace_str (hole_text HIp) v (hole_text HParam) = hole_text HParam"
    "replace_str (hole_text HClientId) v (hole_text HParam) = hole_text HParam"
    "replace_str (hole_text HSourcePort) v (hole_text HParam) = hole_text HParam"
    "replace_str (hole_text HNew) v (hole_text HReason) = hole_text HReason"
    "replace_str (hole_text HNew) v (hole_text HIpClients) = hole_text HIpClients"
    "replace_str (hole_text HReason) v (hole_text HIpClients) = hole_text HIpClients" for v
    by (simp_all only: pass hole.simps not_False_eq_True)
  have hit: "replace_str (hole_text h) v (hole_text h) = v" for h v by simp
  show ?thesis
    unfolding substitute_placeholders_def Let_def
    using skip hit [of HParam] hit [of HReason] hit [of HIpClients]
    by (simp only: hole_text.simps simp_thms)
qed



text \<open>
  In every interleaving of starts and ends, at most \<open>max_concurrent\<close> hooks run at once, and a
  start beyond that is refused without spawning anything and without waiting.
\<close>

theorem hooks_bounded:
  "pe_running (fold exec_step ops (pe_new argv dir t m shell)) \<le> max m 1 \<and>
   (\<forall>x e c ip p param n reason k. pe_running x = pe_max_concurrent x \<longrightarrow>
      execute_start e c ip p param n reason k x = (x, Inl AtCapacity))"
  using exec_cap.run_bounded [of "pe_new argv dir t m shell" ops]
  by (simp add: pe_new_def execute_start_def)

theorem hooks_bounded_witness:
  "execute_start None ''c1'' lan 1 None True ''grant'' 0 ((pe_new [''/bin/true''] None 5 1 False)\<lparr>pe_running := 1\<rparr>) =
     ((pe_new [''/bin/true''] None 5 1 False)\<lparr>pe_running := 1\<rparr>, Inl AtCapacity)"
proof -
  let ?x = "(pe_new [''/bin/true''] None 5 1 False)\<lparr>pe_running := 1\<rparr>"
  have "pe_running ?x = pe_max_concurrent ?x" by (simp add: pe_new_def)
  with hooks_bounded show ?thesis by blast
qed

end
