(* ===== verification/Server_State.thy ===== *)
theory Server_State
  imports Config Crypto Nonce_Store Seen_Cache Rate_Limit Blacklist Lease_Tracker Command_Runner
begin

text \<open>
  The state of the server and what its handlers share, \<open>signedpulse-server/src/server.rs\<close>: the
  record \<open>server\<close> with one field per table, \<open>from_config\<close>, the accounting of rejected and faulty
  packets, \<open>decrypt_param\<close>, \<open>send_reply\<close> and the run of a hook.

  A handler is a function from the state to an outcome, the list of its externally visible
  effects and the new state. The outcome says at which return of the source the handler ended.
  Everything that comes from outside is in the record \<open>env\<close>: the clock readings (one for each
  place of the code that reads a clock), random bytes, whether a permit of the in-flight semaphore was
  free, whether a datagram could be sent, and how the child process of a hook ended. \<open>Panicked\<close> is the outcome of a panic; the state is then
  what was stored before it, and the mutex whose guard the panic dropped is poisoned, which the
  model does not represent: no theorem speaks of what the server does after a panic.
\<close>

subsection \<open>Status snapshot\<close>

record pulse_info =
  pi_source_ip :: ip_addr
  pi_source_port :: nat
  pi_at_unix :: int

record hook_info =
  hi_client_id :: string
  hi_source_ip :: ip_addr
  hi_at_unix :: int
  hi_exit_code :: "int option"
  hi_timed_out :: bool
  hi_param :: "string option"
  hi_reason :: "string option"

record client_status =
  cl_last_pulse :: "pulse_info option"
  cl_last_hook :: "hook_info option"
  cl_last_revoke :: "hook_info option"

record status_snapshot =
  st_hello_accepted :: nat
  st_verified :: nat
  st_rejected :: nat
  st_replays :: nat
  st_clients :: "(string, client_status) hmap"

definition default_client_status :: client_status where
  "default_client_status = \<lparr>cl_last_pulse = None, cl_last_hook = None, cl_last_revoke = None\<rparr>"

definition default_status :: status_snapshot where
  "default_status = \<lparr>st_hello_accepted = 0, st_verified = 0, st_rejected = 0, st_replays = 0, st_clients = []\<rparr>"

definition set_pulse :: "string \<Rightarrow> pulse_info \<Rightarrow> status_snapshot \<Rightarrow> status_snapshot" where
  "set_pulse name p s =
     (let e = hm_entry (st_clients s) name default_client_status
      in s\<lparr>st_clients := hm_put name (e\<lparr>cl_last_pulse := Some p\<rparr>) (st_clients s)\<rparr>)"

definition set_hook :: "string \<Rightarrow> hook_info \<Rightarrow> status_snapshot \<Rightarrow> status_snapshot" where
  "set_hook name h s =
     (let e = hm_entry (st_clients s) name default_client_status
      in s\<lparr>st_clients := hm_put name (e\<lparr>cl_last_hook := Some h\<rparr>) (st_clients s)\<rparr>)"

definition set_revoke :: "string \<Rightarrow> hook_info \<Rightarrow> status_snapshot \<Rightarrow> status_snapshot" where
  "set_revoke name h s =
     (let e = hm_entry (st_clients s) name default_client_status
      in s\<lparr>st_clients := hm_put name (e\<lparr>cl_last_revoke := Some h\<rparr>) (st_clients s)\<rparr>)"

subsection \<open>The server\<close>

record client_info =
  ci_verifying_key :: bytes
  ci_name :: string

record server =
  sv_config :: server_config
  sv_clients :: "(client_id, client_info) hmap"
  sv_secret :: "bytes option"
  sv_nonces :: nonce_store
  sv_seen :: seen_cache
  sv_limiter :: hello_rate_limiter
  sv_cooldown :: cooldown_tracker
  sv_blacklist :: blacklist
  sv_active :: active_ips
  sv_lockdown_logged :: bool
  sv_executor :: process_executor
  sv_revoke :: "process_executor option"
  sv_leases :: lease_tracker
  sv_status :: status_snapshot

datatype start_error =
    BadClientId string
  | BadClientKey string crypto_error
  | BadServerKey crypto_error

fun load_clients ::
  "primitives \<Rightarrow> client_entry list \<Rightarrow> (client_id, client_info) hmap \<Rightarrow>
   (start_error, (client_id, client_info) hmap) res may_panic" where
  "load_clients P [] m = Returns (Inr m)"
| "load_clients P (c # cs) m =
     (case from_hex (ce_client_id c) of
        Panics \<Rightarrow> Panics
      | Returns (Inl _) \<Rightarrow> Returns (Inl (BadClientId (ce_client_id c)))
      | Returns (Inr i) \<Rightarrow>
          (case load_verifying_key P (ce_public_key c) of
             Inl e \<Rightarrow> Returns (Inl (BadClientKey (ce_client_id c) e))
           | Inr key \<Rightarrow>
               load_clients P cs (hm_put i \<lparr>ci_verifying_key = key, ci_name = unwrap_or (ce_label c) (ce_client_id c)\<rparr> m)))"

definition load_secret :: "primitives \<Rightarrow> string option \<Rightarrow> (start_error, bytes option) res" where
  "load_secret P k =
     (case k of
        None \<Rightarrow> Inr None
      | Some b64 \<Rightarrow>
          (case x25519_from_base64 P b64 of Inl e \<Rightarrow> Inl (BadServerKey e) | Inr s \<Rightarrow> Inr (Some s)))"

definition from_config ::
  "primitives \<Rightarrow> instant \<Rightarrow> server_config \<Rightarrow> process_executor \<Rightarrow> process_executor option \<Rightarrow>
   (start_error, server) res may_panic" where
  "from_config P now cfg executor revoke =
     (case load_clients P (sc_clients cfg) [] of
        Panics \<Rightarrow> Panics
      | Returns (Inl e) \<Rightarrow> Returns (Inl e)
      | Returns (Inr clients) \<Rightarrow>
          (let s = sc_server cfg in
           Returns (res_bind (load_secret P (ss_encryption_private_key s)) (\<lambda>secret.
           Inr \<lparr>sv_config = cfg, sv_clients = clients, sv_secret = secret,
                sv_nonces = ns_new, sv_seen = sc_new,
                sv_limiter = rl_new (ss_hello_rate_max s) (ss_hello_rate_window_seconds s) (ss_max_tracked_ips s),
                sv_cooldown = cd_new (ss_client_cooldown_seconds s),
                sv_blacklist = bl_new (ss_max_faulty_packets s) (ss_blacklist_seconds s)
                  (ss_attack_blacklist_threshold s) (ss_attack_rejection_threshold s)
                  (ss_attack_window_seconds s) (ss_max_tracked_ips s) now,
                sv_active = ai_new (ss_active_ip_ttl_seconds s) (ss_max_tracked_ips s),
                sv_lockdown_logged = False, sv_executor = executor, sv_revoke = revoke,
                sv_leases = lt_new (ss_max_tracked_ips s), sv_status = default_status\<rparr>))))"

text \<open>The executors that \<open>cli::run\<close> builds from the configuration.\<close>

definition grant_executor :: "server_config \<Rightarrow> process_executor" where
  "grant_executor cfg =
     pe_new (co_argv (sc_command cfg)) (co_working_dir (sc_command cfg))
       (from_secs (ss_command_timeout_seconds (sc_server cfg))) (co_max_concurrent (sc_command cfg))
       (co_allow_shell (sc_command cfg))"

definition revoke_executor :: "server_config \<Rightarrow> process_executor option" where
  "revoke_executor cfg =
     (case co_revoke_argv (sc_command cfg) of
        None \<Rightarrow> None
      | Some argv \<Rightarrow> Some (pe_new argv (co_working_dir (sc_command cfg))
          (from_secs (ss_command_timeout_seconds (sc_server cfg))) (co_max_concurrent (sc_command cfg))
          (co_allow_shell (sc_command cfg))))"

subsection \<open>Outside world, effects and outcomes\<close>

type_synonym peer = "ip_addr \<times> nat"

text \<open>The places of the code that read a clock; each has a reading of its own.\<close>

datatype site =
    AtGate | AtLockdown | AtActive | AtDrop | AtDropArm
  | AtReject | AtRejectArm | AtFault | AtFaultArm
  | AtRate | AtFresh | AtMarkActive | AtInsert
  | AtValidate | AtConsume | AtPulse | AtRenew | AtCooldown | AtOthers | AtMark | AtHook
  | AtRelease | AtTick | AtPurgeLimiter | AtPurgeBlacklist | AtPurgeActive | AtPurgeCooldown | AtExpire

record env =
  unix_at :: "site \<Rightarrow> int"
  inst_at :: "site \<Rightarrow> instant"
  e_nonce :: bytes
  e_xnonce :: bytes
  e_permit :: bool
  e_send_ok :: bool
  e_spawn_error :: "string option"
  e_wait :: wait_outcome

datatype effect =
    SigCheck bytes bytes bytes
  | Sent peer bytes
  | Spawned command

datatype outcome =
    Oversized
  | Blocked
  | LockedOut
  | NoPermit
  | NoSecret
  | Undecryptable
  | Malformed protocol_error
  | UnexpectedChallenge
  | RateLimited
  | UnknownClient
  | InvalidSignature
  | OutsideSkew
  | HelloReplay
  | ReplyFailed
  | ChallengeIssued
  | NonceRejected consume_error
  | NonceLost consume_error
  | ParamRejected
  | CoolingDown
  | HookRan command_result
  | HookFailed command_error
  | NoLease
  | NoRevokeHook
  | Panicked

definition time_at :: "env \<Rightarrow> site \<Rightarrow> int" where
  "time_at E k = now_unix (unix_at E k)"

subsection \<open>Accounting\<close>

definition count_rejected :: "bool \<Rightarrow> status_snapshot \<Rightarrow> status_snapshot" where
  "count_rejected replay s =
     (let s = s\<lparr>st_rejected := st_rejected s + 1\<rparr>
      in if replay then s\<lparr>st_replays := st_replays s + 1\<rparr> else s)"

definition note_rejected :: "env \<Rightarrow> bool \<Rightarrow> server \<Rightarrow> server" where
  "note_rejected E replay s =
     s\<lparr>sv_status := count_rejected replay (sv_status s),
       sv_blacklist := note_rejection (inst_at E AtReject) (inst_at E AtRejectArm) (sv_blacklist s)\<rparr>"

definition note_faulty :: "env \<Rightarrow> ip_addr \<Rightarrow> server \<Rightarrow> server may_panic" where
  "note_faulty E ip s =
     (let s = note_rejected E False s in
      case record_faulty_at ip (inst_at E AtFault) (inst_at E AtFaultArm) (sv_blacklist s) of
        Panics \<Rightarrow> Panics
      | Returns (b, _) \<Rightarrow> Returns (s\<lparr>sv_blacklist := b\<rparr>))"

text \<open>\<open>decrypt_param\<close>: the error is always counted as a rejection.\<close>

definition clean_param :: "nat \<Rightarrow> bytes \<Rightarrow> string option" where
  "clean_param max_len plaintext =
     (let text = bytes_str plaintext in
      if max_len < length plaintext then None
      else if \<not> valid_utf8 text \<or> has_control text then None
      else if starts_with text ''-'' then None
      else Some text)"

definition decrypt_param ::
  "primitives \<Rightarrow> env \<Rightarrow> bytes option \<Rightarrow> server \<Rightarrow> server \<times> (unit, string option) res" where
  "decrypt_param P E blob s =
     (case blob of
        None \<Rightarrow> (s, Inr None)
      | Some b \<Rightarrow>
          (case sv_secret s of
             None \<Rightarrow> (note_rejected E False s, Inl ())
           | Some secret \<Rightarrow>
               (case open_box P secret b CTX_PARAM of
                  Inl _ \<Rightarrow> (note_rejected E False s, Inl ())
                | Inr (plaintext, _) \<Rightarrow>
                    (case clean_param (ss_max_param_len (sc_server (sv_config s))) plaintext of
                       None \<Rightarrow> (note_rejected E False s, Inl ())
                     | Some text \<Rightarrow> (s, Inr (Some text))))))"

subsection \<open>Replies and hooks\<close>

datatype reply_mode = Cleartext | Sealed bytes

definition send_reply ::
  "primitives \<Rightarrow> env \<Rightarrow> packet \<Rightarrow> peer \<Rightarrow> reply_mode \<Rightarrow> bytes \<Rightarrow> server \<Rightarrow> effect list \<times> bool" where
  "send_reply P E packet peer reply bind s =
     (let bs = encode packet;
          datagram = (case reply of
              Cleartext \<Rightarrow> Some bs
            | Sealed peer_eph \<Rightarrow>
                (case sv_secret s of
                   None \<Rightarrow> None
                 | Some secret \<Rightarrow>
                     (case seal_reply P (e_xnonce E) secret peer_eph bs bind of Inl _ \<Rightarrow> None | Inr blob \<Rightarrow> Some blob)))
      in case datagram of
           None \<Rightarrow> ([], False)
         | Some d \<Rightarrow> if e_send_ok E then ([Sent peer d], True) else ([], False))"

definition run_hook ::
  "env \<Rightarrow> string \<Rightarrow> ip_addr \<Rightarrow> nat \<Rightarrow> string option \<Rightarrow> bool \<Rightarrow> string \<Rightarrow> nat \<Rightarrow> process_executor \<Rightarrow>
   effect list \<times> (command_error, command_result) res \<times> process_executor" where
  "run_hook E client_id ip port param is_new why ip_clients x =
     (case execute_start (e_spawn_error E) client_id ip port param is_new why ip_clients x of
        (x', Inl e) \<Rightarrow> ([], Inl e, x')
      | (x', Inr cmd) \<Rightarrow> (let (x'', r, _) = execute_finish (e_wait E) x' in ([Spawned cmd], r, x'')))"

text \<open>The display name of a client identifier in hexadecimal, for the revoke hooks.\<close>

definition display_name :: "string \<Rightarrow> server \<Rightarrow> string" where
  "display_name client_hex s =
     (case from_hex client_hex of
        Returns (Inr i) \<Rightarrow>
          (case map_of (sv_clients s) i of Some info \<Rightarrow> ci_name info | None \<Rightarrow> client_hex)
      | _ \<Rightarrow> client_hex)"

subsection \<open>What the shared operations leave alone\<close>

lemma note_rejected_fields [simp]:
  "sv_config (note_rejected E r s) = sv_config s"
  "sv_clients (note_rejected E r s) = sv_clients s"
  "sv_secret (note_rejected E r s) = sv_secret s"
  "sv_nonces (note_rejected E r s) = sv_nonces s"
  "sv_seen (note_rejected E r s) = sv_seen s"
  "sv_limiter (note_rejected E r s) = sv_limiter s"
  "sv_cooldown (note_rejected E r s) = sv_cooldown s"
  "sv_active (note_rejected E r s) = sv_active s"
  "sv_executor (note_rejected E r s) = sv_executor s"
  "sv_revoke (note_rejected E r s) = sv_revoke s"
  "sv_leases (note_rejected E r s) = sv_leases s"
  "sv_lockdown_logged (note_rejected E r s) = sv_lockdown_logged s"
  by (simp_all add: note_rejected_def)

lemma note_rejected_status [simp]:
  "sv_status (note_rejected E r s) = count_rejected r (sv_status s)"
  by (simp add: note_rejected_def)

lemma count_rejected_fields [simp]:
  "st_rejected (count_rejected r t) = st_rejected t + 1"
  "st_replays (count_rejected r t) = st_replays t + (if r then 1 else 0)"
  "st_hello_accepted (count_rejected r t) = st_hello_accepted t"
  "st_verified (count_rejected r t) = st_verified t"
  "st_clients (count_rejected r t) = st_clients t"
  by (simp_all add: count_rejected_def Let_def)

lemma note_faulty_Returns:
  "note_faulty E ip s = Returns s' \<Longrightarrow> \<exists>b. s' = (note_rejected E False s)\<lparr>sv_blacklist := b\<rparr>"
  by (auto simp: note_faulty_def Let_def split: may_panic.splits)

lemma decrypt_param_cases:
  obtains (ok) p where "decrypt_param P E blob s = (s, Inr p)"
  | (bad) "decrypt_param P E blob s = (note_rejected E False s, Inl ())"
proof (cases "\<exists>p. decrypt_param P E blob s = (s, Inr p)")
  case True
  then show ?thesis using ok by blast
next
  case False
  then have "decrypt_param P E blob s = (note_rejected E False s, Inl ())"
    by (auto simp: decrypt_param_def split: option.splits sum.splits prod.splits)
  then show ?thesis by (rule bad)
qed

end
