(* ===== verification/Server.thy ===== *)
theory Server
  imports Server_State
begin

text \<open>
  The handlers of the server, \<open>signedpulse-server/src/server.rs\<close>: the gate of the receive loop,
  the dispatch of a datagram, HELLO, RESPONSE and BYE, the lease scan and the cleanup tick.
  RESPONSE and BYE go through the same checks in the same order; these are written once, as
  \<open>check_proof\<close>, \<open>consume_proof\<close> and \<open>authenticate\<close>, over the payload that is signed.
\<close>

type_synonym handled = "outcome \<times> effect list \<times> server"

subsection \<open>HELLO\<close>

definition dummy_verifying_key :: "primitives \<Rightarrow> bytes" where
  "dummy_verifying_key P = ed_public P (replicate 32 0x11)"

definition hello_payload :: "primitives \<Rightarrow> hello \<Rightarrow> server \<Rightarrow> bytes" where
  "hello_payload P h s =
     hello_signing_payload (ss_server_id (sc_server (sv_config s))) (to_hex (h_client_id h))
       (h_timestamp h) (b64_encode P (h_nonce h))"

definition replay_key :: "hello \<Rightarrow> bytes" where
  "replay_key h = id_bytes (h_client_id h) @ [0] @ h_nonce h"

definition accept_hello ::
  "primitives \<Rightarrow> env \<Rightarrow> hello \<Rightarrow> peer \<Rightarrow> reply_mode \<Rightarrow> int \<Rightarrow> server \<Rightarrow> handled" where
  "accept_hello P E h peer reply now s =
     (let s = s\<lparr>sv_active := ai_mark (fst peer) (inst_at E AtMarkActive) (sv_active s)\<rparr>;
          expires_at = min (now + int (ss_nonce_ttl_seconds (sc_server (sv_config s)))) i64_max;
          s = s\<lparr>sv_nonces := ns_insert (e_nonce E) (to_hex (h_client_id h)) (fst peer) (snd peer)
                  expires_at (time_at E AtInsert) (sv_nonces s)\<rparr>;
          c = Challenge \<lparr>c_client_id = h_client_id h, c_nonce = e_nonce E, c_expires_at = expires_at\<rparr>;
          (sent, ok) = send_reply P E c peer reply (h_nonce h) s
      in if ok
         then (ChallengeIssued, sent,
               s\<lparr>sv_status := (sv_status s)\<lparr>st_hello_accepted := st_hello_accepted (sv_status s) + 1\<rparr>\<rparr>)
         else (ReplyFailed, sent, s))"

definition handle_hello ::
  "primitives \<Rightarrow> env \<Rightarrow> hello \<Rightarrow> peer \<Rightarrow> reply_mode \<Rightarrow> server \<Rightarrow> handled" where
  "handle_hello P E h peer reply s =
     (let (limiter, allowed) = check_at (fst peer) (inst_at E AtRate) (sv_limiter s);
          s = s\<lparr>sv_limiter := limiter\<rparr>;
          payload = hello_payload P h s
      in if \<not> allowed then (RateLimited, [], note_rejected E False s)
         else case map_of (sv_clients s) (h_client_id h) of
           None \<Rightarrow> (UnknownClient, [SigCheck (dummy_verifying_key P) payload (h_signature h)], note_rejected E False s)
         | Some info \<Rightarrow>
             (let checked = SigCheck (ci_verifying_key info) payload (h_signature h) in
              case verify_payload_raw P (ci_verifying_key info) payload (h_signature h) of
                Inl _ \<Rightarrow> (InvalidSignature, [checked], note_rejected E False s)
              | Inr _ \<Rightarrow>
                  (let now = time_at E AtFresh;
                       skew = ss_hello_max_skew_seconds (sc_server (sv_config s))
                   in if int skew < \<bar>now - h_timestamp h\<bar> then (OutsideSkew, [checked], note_rejected E False s)
                      else
                        let (seen, fresh) = insert_if_absent (replay_key h) now (u64_saturating_mul skew 2) (sv_seen s);
                            s = s\<lparr>sv_seen := seen\<rparr>
                        in if \<not> fresh then (HelloReplay, [checked], note_rejected E True s)
                           else let (out, effs, s) = accept_hello P E h peer reply now s
                                in (out, checked # effs, s))))"

subsection \<open>The checks of RESPONSE and BYE\<close>

definition check_proof ::
  "primitives \<Rightarrow> env \<Rightarrow> (int \<Rightarrow> bytes) \<Rightarrow> client_id \<Rightarrow> bytes \<Rightarrow> bytes \<Rightarrow> peer \<Rightarrow> server \<Rightarrow>
   (handled, client_info \<times> effect list) res" where
  "check_proof P E payload cid nonce sig peer s =
     (case map_of (sv_clients s) cid of
        None \<Rightarrow> Inl (UnknownClient, [SigCheck (dummy_verifying_key P) (payload 0) sig], note_rejected E False s)
      | Some info \<Rightarrow>
          (case validate nonce (to_hex cid) (fst peer) (snd peer) (time_at E AtValidate) (sv_nonces s) of
             Inl e \<Rightarrow> Inl (NonceRejected e, [], note_rejected E (e = AlreadyUsed) s)
           | Inr entry \<Rightarrow>
               (let m = payload (ne_expires_at_unix entry);
                    checked = SigCheck (ci_verifying_key info) m sig
                in case verify_payload_raw P (ci_verifying_key info) m sig of
                     Inl _ \<Rightarrow> Inl (InvalidSignature, [checked], note_rejected E False s)
                   | Inr _ \<Rightarrow> Inr (info, [checked]))))"

definition consume_proof :: "env \<Rightarrow> client_id \<Rightarrow> bytes \<Rightarrow> peer \<Rightarrow> server \<Rightarrow> (outcome \<times> server, server) res" where
  "consume_proof E cid nonce peer s =
     (case consume nonce (to_hex cid) (fst peer) (snd peer) (time_at E AtConsume) (sv_nonces s) of
        (ns, Inl e) \<Rightarrow> Inl (NonceLost e, note_rejected E (e = AlreadyUsed) (s\<lparr>sv_nonces := ns\<rparr>))
      | (ns, Inr _) \<Rightarrow> Inr (s\<lparr>sv_nonces := ns\<rparr>))"

definition authenticate ::
  "primitives \<Rightarrow> env \<Rightarrow> (int \<Rightarrow> bytes) \<Rightarrow> client_id \<Rightarrow> bytes \<Rightarrow> bytes option \<Rightarrow> bytes \<Rightarrow> peer \<Rightarrow> server \<Rightarrow>
   (handled, client_info \<times> string option \<times> effect list \<times> server) res" where
  "authenticate P E payload cid nonce param sig peer s =
     res_bind (check_proof P E payload cid nonce sig peer s) (\<lambda>(info, effs).
     case consume_proof E cid nonce peer s of
       Inl (out, s) \<Rightarrow> Inl (out, effs, s)
     | Inr s \<Rightarrow>
         (case decrypt_param P E param s of
            (s, Inl _) \<Rightarrow> Inl (ParamRejected, effs, s)
          | (s, Inr p) \<Rightarrow> Inr (info, p, effs, s)))"

definition param_b64 :: "primitives \<Rightarrow> bytes option \<Rightarrow> string" where
  "param_b64 P param = (case param of Some b \<Rightarrow> b64_encode P b | None \<Rightarrow> [])"

subsection \<open>RESPONSE\<close>

definition response_payload :: "primitives \<Rightarrow> response \<Rightarrow> server \<Rightarrow> int \<Rightarrow> bytes" where
  "response_payload P r s expires_at =
     response_signing_payload (ss_server_id (sc_server (sv_config s))) (to_hex (r_client_id r))
       (b64_encode P (r_nonce r)) (r_interval r) expires_at (param_b64 P (r_param r))"

definition lease_ttl :: "nat \<Rightarrow> server_config \<Rightarrow> duration may_panic" where
  "lease_ttl interval cfg =
     (let s = sc_server cfg in
      case clamp 1 (ss_lease_max_seconds s) (u64_saturating_mul interval (ss_lease_grace_multiplier s)) of
        Panics \<Rightarrow> Panics
      | Returns secs \<Rightarrow> Returns (from_secs secs))"

text \<open>Steps 5 to 7 of the handler: the lease, the cooldown and the grant hook.\<close>

definition grant ::
  "env \<Rightarrow> nat \<Rightarrow> string \<Rightarrow> string \<Rightarrow> string option \<Rightarrow> peer \<Rightarrow> server \<Rightarrow> handled" where
  "grant E interval client_hex name param peer s =
     (case lease_ttl interval (sv_config s) of
        Panics \<Rightarrow> (Panicked, [], s)
      | Returns ttl \<Rightarrow>
          (case renew_at client_hex (fst peer) (snd peer) param ttl (inst_at E AtRenew) (sv_leases s) of
             Panics \<Rightarrow> (Panicked, [], s)
           | Returns (leases, is_new) \<Rightarrow>
               (let s = s\<lparr>sv_leases := leases\<rparr>;
                    id_key = ''id:'' @ client_hex
                in if \<not> is_new \<and> in_cooldown id_key (inst_at E AtCooldown) (sv_cooldown s)
                   then (CoolingDown, [], s)
                   else
                     let ip_clients = others_on_ip (fst peer) client_hex (inst_at E AtOthers) (sv_leases s);
                         (effs, r, x) = run_hook E client_hex (fst peer) (snd peer) param is_new ''grant''
                           ip_clients (sv_executor s);
                         s = s\<lparr>sv_executor := x\<rparr>
                     in case r of
                          Inl e \<Rightarrow> (HookFailed e, effs, s)
                        | Inr result \<Rightarrow>
                            (HookRan result, effs,
                             s\<lparr>sv_cooldown := cd_mark id_key (inst_at E AtMark) (sv_cooldown s),
                               sv_status := set_hook name \<lparr>hi_client_id = name, hi_source_ip = fst peer,
                                 hi_at_unix = time_at E AtHook, hi_exit_code = cr_exit_code result,
                                 hi_timed_out = cr_timed_out result, hi_param = param,
                                 hi_reason = Some ''grant''\<rparr> (sv_status s)\<rparr>))))"

definition accept_response ::
  "env \<Rightarrow> response \<Rightarrow> client_info \<Rightarrow> string option \<Rightarrow> peer \<Rightarrow> server \<Rightarrow> handled" where
  "accept_response E r info param peer s =
     (let s = s\<lparr>sv_active := ai_mark (fst peer) (inst_at E AtMarkActive) (sv_active s)\<rparr>;
          pulse = \<lparr>pi_source_ip = fst peer, pi_source_port = snd peer, pi_at_unix = time_at E AtPulse\<rparr>;
          st = (sv_status s)\<lparr>st_verified := st_verified (sv_status s) + 1\<rparr>;
          s = s\<lparr>sv_status := set_pulse (ci_name info) pulse st\<rparr>
      in grant E (r_interval r) (to_hex (r_client_id r)) (ci_name info) param peer s)"

definition handle_response :: "primitives \<Rightarrow> env \<Rightarrow> response \<Rightarrow> peer \<Rightarrow> server \<Rightarrow> handled" where
  "handle_response P E r peer s =
     (case authenticate P E (response_payload P r s) (r_client_id r) (r_nonce r) (r_param r) (r_signature r) peer s of
        Inl res \<Rightarrow> res
      | Inr (info, param, effs, s) \<Rightarrow>
          (let (out, effs', s) = accept_response E r info param peer s in (out, effs @ effs', s)))"

subsection \<open>BYE\<close>

definition bye_payload :: "primitives \<Rightarrow> bye \<Rightarrow> server \<Rightarrow> int \<Rightarrow> bytes" where
  "bye_payload P b s expires_at =
     bye_signing_payload (ss_server_id (sc_server (sv_config s))) (to_hex (b_client_id b))
       (b64_encode P (b_nonce b)) (b_interval b) expires_at (param_b64 P (b_param b))"

text \<open>The run of the revoke hook, for a BYE and for an expired lease.\<close>

definition run_revoke ::
  "env \<Rightarrow> expired_lease \<Rightarrow> string \<Rightarrow> string option \<Rightarrow> string \<Rightarrow> nat \<Rightarrow> process_executor \<Rightarrow> server \<Rightarrow> handled" where
  "run_revoke E e name param why remaining x s =
     (let (effs, r, x) = run_hook E (x_client_id e) (x_ip e) (x_source_port e) param False why remaining x;
          s = s\<lparr>sv_revoke := Some x\<rparr>
      in case r of
           Inl err \<Rightarrow> (HookFailed err, effs, s)
         | Inr result \<Rightarrow>
             (HookRan result, effs,
              s\<lparr>sv_status := set_revoke name \<lparr>hi_client_id = name, hi_source_ip = x_ip e,
                  hi_at_unix = time_at E AtHook, hi_exit_code = cr_exit_code result,
                  hi_timed_out = cr_timed_out result, hi_param = param, hi_reason = Some why\<rparr> (sv_status s)\<rparr>))"

definition accept_bye :: "env \<Rightarrow> bye \<Rightarrow> string option \<Rightarrow> server \<Rightarrow> handled" where
  "accept_bye E b param s =
     (case release_at (to_hex (b_client_id b)) (inst_at E AtRelease) (sv_leases s) of
        (_, None) \<Rightarrow> (NoLease, [], s)
      | (leases, Some (e, remaining)) \<Rightarrow>
          (let s = s\<lparr>sv_leases := leases\<rparr> in
           case sv_revoke s of
             None \<Rightarrow> (NoRevokeHook, [], s)
           | Some x \<Rightarrow>
               run_revoke E e (display_name (x_client_id e) s) (opt_or param (x_param e)) ''bye'' remaining x s))"

definition handle_bye :: "primitives \<Rightarrow> env \<Rightarrow> bye \<Rightarrow> peer \<Rightarrow> server \<Rightarrow> handled" where
  "handle_bye P E b peer s =
     (case authenticate P E (bye_payload P b s) (b_client_id b) (b_nonce b) (b_param b) (b_signature b) peer s of
        Inl res \<Rightarrow> res
      | Inr (info, param, effs, s) \<Rightarrow>
          (let (out, effs', s) = accept_bye E b param s in (out, effs @ effs', s)))"

subsection \<open>Datagrams\<close>

definition faulty :: "env \<Rightarrow> outcome \<Rightarrow> ip_addr \<Rightarrow> server \<Rightarrow> handled" where
  "faulty E out ip s = (case note_faulty E ip s of Panics \<Rightarrow> (Panicked, [], note_rejected E False s) | Returns s' \<Rightarrow> (out, [], s'))"

definition dispatch :: "primitives \<Rightarrow> env \<Rightarrow> bytes \<Rightarrow> reply_mode \<Rightarrow> peer \<Rightarrow> server \<Rightarrow> handled" where
  "dispatch P E packet_bytes reply peer s =
     (case decode packet_bytes of
        Inl e \<Rightarrow> faulty E (Malformed e) (fst peer) s
      | Inr (Hello h) \<Rightarrow> handle_hello P E h peer reply s
      | Inr (Response r) \<Rightarrow> handle_response P E r peer s
      | Inr (Bye b) \<Rightarrow> handle_bye P E b peer s
      | Inr (Challenge _) \<Rightarrow> (UnexpectedChallenge, [], note_rejected E False s))"

definition handle_datagram :: "primitives \<Rightarrow> env \<Rightarrow> bytes \<Rightarrow> peer \<Rightarrow> server \<Rightarrow> handled" where
  "handle_datagram P E data peer s =
     (case ss_wire_encryption (sc_server (sv_config s)) of
        Required \<Rightarrow>
          (case sv_secret s of
             None \<Rightarrow> (NoSecret, [], s)
           | Some secret \<Rightarrow>
               (case open_box P secret data CTX_WIRE of
                  Inl _ \<Rightarrow> faulty E Undecryptable (fst peer) s
                | Inr (inner, peer_eph) \<Rightarrow> dispatch P E inner (Sealed peer_eph) peer s))
      | Off \<Rightarrow> dispatch P E data Cleartext peer s)"

text \<open>The receive loop up to the spawn of the handler: \<open>Inl\<close> is a datagram that is shed.\<close>

definition gate :: "env \<Rightarrow> nat \<Rightarrow> ip_addr \<Rightarrow> server \<Rightarrow> (outcome \<times> server, server) res" where
  "gate E len ip s =
     (if ss_max_packet_size (sc_server (sv_config s)) < len then Inl (Oversized, s)
      else if is_blocked ip (inst_at E AtGate) (sv_blacklist s) then Inl (Blocked, s)
      else
        res_bind
          (if under_attack (inst_at E AtLockdown) (sv_blacklist s)
           then let s = s\<lparr>sv_lockdown_logged := True\<rparr>
                in if \<not> is_active_at ip (inst_at E AtActive) (sv_active s)
                   then Inl (LockedOut, s\<lparr>sv_blacklist :=
                          note_lockdown_drop (inst_at E AtDrop) (inst_at E AtDropArm) (sv_blacklist s)\<rparr>)
                   else Inr s
           else Inr (s\<lparr>sv_lockdown_logged := False\<rparr>))
          (\<lambda>s. if e_permit E then Inr s else Inl (NoPermit, s)))"

definition receive :: "primitives \<Rightarrow> env \<Rightarrow> bytes \<Rightarrow> peer \<Rightarrow> server \<Rightarrow> handled" where
  "receive P E data peer s =
     (case gate E (length data) (fst peer) s of
        Inl (out, s) \<Rightarrow> (out, [], s)
      | Inr s \<Rightarrow> handle_datagram P E data peer s)"

subsection \<open>Lease scan and cleanup\<close>

text \<open>
  \<open>run_lease_scan\<close> up to the spawn of its task: the leases to revoke, with display name and the
  number of other clients on the address. The task then revokes them one after the other.
\<close>

type_synonym revoke_item = "expired_lease \<times> string \<times> nat"

definition lease_scan :: "env \<Rightarrow> server \<Rightarrow> server \<times> revoke_item list" where
  "lease_scan E s =
     (let (leases, expired) = take_expired_at (inst_at E AtExpire) (sv_leases s);
          s = s\<lparr>sv_leases := leases\<rparr>
      in case sv_revoke s of
           None \<Rightarrow> (s, [])
         | Some _ \<Rightarrow> (s, map (\<lambda>(e, remaining). (e, display_name (x_client_id e) s, remaining)) expired))"

definition revoke_expired :: "env \<Rightarrow> revoke_item \<Rightarrow> server \<Rightarrow> handled" where
  "revoke_expired E item s =
     (let (e, name, remaining) = item in
      case sv_revoke s of
        None \<Rightarrow> (NoRevokeHook, [], s)
      | Some x \<Rightarrow> run_revoke E e name (x_param e) ''expired'' remaining x s)"

definition cleanup_tick :: "env \<Rightarrow> server \<Rightarrow> server \<times> revoke_item list" where
  "cleanup_tick E s =
     (let now = time_at E AtTick;
          s = s\<lparr>sv_nonces := fst (ns_purge_expired now (sv_nonces s)),
                sv_seen := fst (sc_purge_expired now (sv_seen s)),
                sv_limiter := rl_purge_stale (inst_at E AtPurgeLimiter) (sv_limiter s),
                sv_blacklist := bl_purge_stale (inst_at E AtPurgeBlacklist) (sv_blacklist s),
                sv_active := ai_purge_stale (inst_at E AtPurgeActive) (sv_active s),
                sv_cooldown := cd_purge_stale (inst_at E AtPurgeCooldown) (sv_cooldown s)\<rparr>
      in lease_scan E s)"

end
