(* ===== verification/Server_Facts.thy ===== *)
theory Server_Facts
  imports Server
begin

text \<open>
  Lemmas about the handlers: how each of them can end (\<open>hello_cases\<close>, \<open>auth_cases\<close>,
  \<open>grant_cases\<close>), which parts of the state it can change, and the invariant \<open>server_ok\<close>.
\<close>

subsection \<open>How HELLO ends\<close>

lemma verify_payload_raw_iff [simp]:
  "verify_payload_raw P k m sig = Inr u \<longleftrightarrow> ed_verify_strict P k m sig"
  "verify_payload_raw P k m sig = Inl e \<longleftrightarrow> \<not> ed_verify_strict P k m sig \<and> e = VerificationFailed"
  by (auto simp: verify_payload_raw_def)

text \<open>The state after the rate limiter has counted a HELLO, and after the replay cache has.\<close>

definition counted :: "env \<Rightarrow> peer \<Rightarrow> server \<Rightarrow> server" where
  "counted E peer s = s\<lparr>sv_limiter := fst (check_at (fst peer) (inst_at E AtRate) (sv_limiter s))\<rparr>"

definition skew_of :: "server \<Rightarrow> nat" where
  "skew_of s = ss_hello_max_skew_seconds (sc_server (sv_config s))"

definition seen_by :: "env \<Rightarrow> hello \<Rightarrow> server \<Rightarrow> seen_cache \<times> bool" where
  "seen_by E h s = insert_if_absent (replay_key h) (time_at E AtFresh) (u64_saturating_mul (skew_of s) 2) (sv_seen s)"

lemma counted_fields [simp]:
  "sv_config (counted E p s) = sv_config s" "sv_clients (counted E p s) = sv_clients s"
  "sv_secret (counted E p s) = sv_secret s" "sv_nonces (counted E p s) = sv_nonces s"
  "sv_seen (counted E p s) = sv_seen s" "sv_cooldown (counted E p s) = sv_cooldown s"
  "sv_blacklist (counted E p s) = sv_blacklist s" "sv_active (counted E p s) = sv_active s"
  "sv_executor (counted E p s) = sv_executor s" "sv_revoke (counted E p s) = sv_revoke s"
  "sv_leases (counted E p s) = sv_leases s" "sv_status (counted E p s) = sv_status s"
  "sv_lockdown_logged (counted E p s) = sv_lockdown_logged s"
  by (simp_all add: counted_def)

lemma hello_payload_counted [simp]: "hello_payload P h (counted E p s) = hello_payload P h s"
  by (simp add: hello_payload_def)

lemma hello_cases:
  obtains (limited) "handle_hello P E h peer reply s = (RateLimited, [], note_rejected E False (counted E peer s))"
  | (unknown) "map_of (sv_clients s) (h_client_id h) = None"
      "handle_hello P E h peer reply s = (UnknownClient,
         [SigCheck (dummy_verifying_key P) (hello_payload P h s) (h_signature h)], note_rejected E False (counted E peer s))"
  | (forged) info where "map_of (sv_clients s) (h_client_id h) = Some info"
      "\<not> ed_verify_strict P (ci_verifying_key info) (hello_payload P h s) (h_signature h)"
      "handle_hello P E h peer reply s = (InvalidSignature,
         [SigCheck (ci_verifying_key info) (hello_payload P h s) (h_signature h)], note_rejected E False (counted E peer s))"
  | (stale) info where "map_of (sv_clients s) (h_client_id h) = Some info"
      "int (skew_of s) < \<bar>time_at E AtFresh - h_timestamp h\<bar>"
      "handle_hello P E h peer reply s = (OutsideSkew,
         [SigCheck (ci_verifying_key info) (hello_payload P h s) (h_signature h)], note_rejected E False (counted E peer s))"
  | (replay) info where "map_of (sv_clients s) (h_client_id h) = Some info"
      "\<not> snd (seen_by E h s)"
      "handle_hello P E h peer reply s = (HelloReplay,
         [SigCheck (ci_verifying_key info) (hello_payload P h s) (h_signature h)],
         note_rejected E True ((counted E peer s)\<lparr>sv_seen := fst (seen_by E h s)\<rparr>))"
  | (accepted) info out effs s' where "map_of (sv_clients s) (h_client_id h) = Some info"
      "ed_verify_strict P (ci_verifying_key info) (hello_payload P h s) (h_signature h)"
      "\<bar>time_at E AtFresh - h_timestamp h\<bar> \<le> int (skew_of s)" "snd (seen_by E h s)"
      "accept_hello P E h peer reply (time_at E AtFresh) ((counted E peer s)\<lparr>sv_seen := fst (seen_by E h s)\<rparr>) = (out, effs, s')"
      "handle_hello P E h peer reply s =
         (out, SigCheck (ci_verifying_key info) (hello_payload P h s) (h_signature h) # effs, s')"
proof -
  obtain l ok where c: "check_at (fst peer) (inst_at E AtRate) (sv_limiter s) = (l, ok)" by fastforce
  then have cs: "s\<lparr>sv_limiter := l\<rparr> = counted E peer s" by (simp add: counted_def)
  note unfold = handle_hello_def c Let_def cs prod.case
  show thesis
  proof (cases ok)
    case False
    then show thesis by (intro limited) (simp add: unfold)
  next
    case ok: True
    show thesis
    proof (cases "map_of (sv_clients s) (h_client_id h)")
      case None
      with ok show thesis by (intro unknown) (simp_all add: unfold)
    next
      case (Some info)
      let ?sig = "ed_verify_strict P (ci_verifying_key info) (hello_payload P h s) (h_signature h)"
      let ?late = "int (skew_of s) < \<bar>time_at E AtFresh - h_timestamp h\<bar>"
      obtain sn fresh where sn: "seen_by E h s = (sn, fresh)" by fastforce
      note sn' = sn [unfolded seen_by_def skew_of_def]
      consider "\<not> ?sig" | "?sig" "?late" | "?sig" "\<not> ?late" "\<not> fresh" | "?sig" "\<not> ?late" fresh by blast
      then show thesis
      proof cases
        case 1
        with ok Some show thesis by (intro forged) (simp_all add: unfold verify_payload_raw_def)
      next
        case 2
        with ok Some show thesis by (intro stale) (simp_all add: unfold verify_payload_raw_def skew_of_def)
      next
        case 3
        with ok Some sn' show thesis
          by (intro replay [of info]) (simp_all add: unfold verify_payload_raw_def skew_of_def sn)
      next
        case 4
        obtain out effs s' where a: "accept_hello P E h peer reply (time_at E AtFresh)
            ((counted E peer s)\<lparr>sv_seen := sn\<rparr>) = (out, effs, s')" by (metis prod_cases3)
        with 4 ok Some sn' show thesis
          by (intro accepted [of info out effs s']) (simp_all add: unfold verify_payload_raw_def skew_of_def sn)
      qed
    qed
  qed
qed

text \<open>The state in which an accepted HELLO leaves the server, but for the counter.\<close>

definition issue :: "env \<Rightarrow> hello \<Rightarrow> peer \<Rightarrow> int \<Rightarrow> server \<Rightarrow> server" where
  "issue E h peer now s =
     s\<lparr>sv_active := ai_mark (fst peer) (inst_at E AtMarkActive) (sv_active s),
       sv_nonces := ns_insert (e_nonce E) (to_hex (h_client_id h)) (fst peer) (snd peer)
         (min (now + int (ss_nonce_ttl_seconds (sc_server (sv_config s)))) i64_max) (time_at E AtInsert) (sv_nonces s)\<rparr>"

definition challenge_for :: "env \<Rightarrow> hello \<Rightarrow> int \<Rightarrow> server \<Rightarrow> packet" where
  "challenge_for E h now s =
     Challenge \<lparr>c_client_id = h_client_id h, c_nonce = e_nonce E,
       c_expires_at = min (now + int (ss_nonce_ttl_seconds (sc_server (sv_config s)))) i64_max\<rparr>"

lemma send_reply_form:
  "send_reply P E c peer reply b s = ([], False) \<or> (\<exists>d. send_reply P E c peer reply b s = ([Sent peer d], True))"
proof -
  have "\<exists>x. send_reply P E c peer reply b s =
      (case x of None \<Rightarrow> ([], False) | Some d \<Rightarrow> if e_send_ok E then ([Sent peer d], True) else ([], False))"
    unfolding send_reply_def Let_def by blast
  then show ?thesis by (auto split: option.splits)
qed

lemma accept_hello_cases:
  obtains (issued) d where "send_reply P E (challenge_for E h now s) peer reply (h_nonce h) s = ([Sent peer d], True)"
      "accept_hello P E h peer reply now s = (ChallengeIssued, [Sent peer d],
         (issue E h peer now s)\<lparr>sv_status := (sv_status s)\<lparr>st_hello_accepted := st_hello_accepted (sv_status s) + 1\<rparr>\<rparr>)"
  | (unsent) "accept_hello P E h peer reply now s = (ReplyFailed, [], issue E h peer now s)"
proof -
  let ?c = "challenge_for E h now s"
  have r: "send_reply P E ?c peer reply (h_nonce h) (issue E h peer now s) = send_reply P E ?c peer reply (h_nonce h) s"
    by (cases reply) (simp_all add: send_reply_def issue_def)
  consider d where "send_reply P E ?c peer reply (h_nonce h) s = ([Sent peer d], True)"
    | "send_reply P E ?c peer reply (h_nonce h) s = ([], False)"
    using send_reply_form by blast
  then show thesis
  proof cases
    case (1 d)
    with r show thesis
      by (intro issued [of d]) (simp_all add: accept_hello_def issue_def challenge_for_def Let_def)
  next
    case 2
    with r show thesis
      by (intro unsent) (simp add: accept_hello_def issue_def challenge_for_def Let_def)
  qed
qed

subsection \<open>How the checks of RESPONSE and BYE end\<close>

text \<open>What a datagram that passes all checks has shown.\<close>

definition proven ::
  "primitives \<Rightarrow> env \<Rightarrow> (int \<Rightarrow> bytes) \<Rightarrow> client_id \<Rightarrow> bytes \<Rightarrow> bytes \<Rightarrow> peer \<Rightarrow> server \<Rightarrow>
   client_info \<Rightarrow> nonce_entry \<Rightarrow> bool" where
  "proven P E payload cid nonce sig peer s info entry \<longleftrightarrow>
     map_of (sv_clients s) cid = Some info \<and> map_of (sv_nonces s) nonce = Some entry \<and>
     \<not> ne_used entry \<and> ne_client_id entry = to_hex cid \<and>
     ne_source_ip entry = fst peer \<and> ne_source_port entry = snd peer \<and>
     time_at E AtValidate \<le> ne_expires_at_unix entry \<and>
     ed_verify_strict P (ci_verifying_key info) (payload (ne_expires_at_unix entry)) sig"

lemma check_proof_cases:
  obtains (refused) out effs r where "check_proof P E payload cid nonce sig peer s = Inl (out, effs, note_rejected E r s)"
      "out \<in> {UnknownClient, InvalidSignature} \<union> range NonceRejected" "\<forall>e \<in> set effs. \<exists>k m. e = SigCheck k m sig"
      "r \<longleftrightarrow> out = NonceRejected AlreadyUsed"
  | (passed) info entry where "proven P E payload cid nonce sig peer s info entry"
      "check_proof P E payload cid nonce sig peer s =
         Inr (info, [SigCheck (ci_verifying_key info) (payload (ne_expires_at_unix entry)) sig])"
proof (cases "map_of (sv_clients s) cid")
  case None
  then show thesis
    by (intro refused [of UnknownClient "[SigCheck (dummy_verifying_key P) (payload 0) sig]" False])
       (simp_all add: check_proof_def)
next
  case client: (Some info)
  show thesis
  proof (cases "validate nonce (to_hex cid) (fst peer) (snd peer) (time_at E AtValidate) (sv_nonces s)")
    case (Inl e)
    with client show thesis by (intro refused [of "NonceRejected e" "[]" "e = AlreadyUsed"]) (simp_all add: check_proof_def)
  next
    case (Inr entry)
    then have e: "map_of (sv_nonces s) nonce = Some entry"
      "check entry (to_hex cid) (fst peer) (snd peer) (time_at E AtValidate) = Inr ()"
      by (auto simp: validate_live live_at_eq_Some)
    show thesis
    proof (cases "ed_verify_strict P (ci_verifying_key info) (payload (ne_expires_at_unix entry)) sig")
      case True
      with client Inr e show thesis
        by (intro passed [of info entry]) (simp_all add: check_proof_def proven_def verify_payload_raw_def)
    next
      case False
      with client Inr show thesis
        by (intro refused [of InvalidSignature
              "[SigCheck (ci_verifying_key info) (payload (ne_expires_at_unix entry)) sig]" False])
           (simp_all add: check_proof_def verify_payload_raw_def)
    qed
  qed
qed

text \<open>The state in which the nonce has been consumed.\<close>

definition burnt :: "env \<Rightarrow> client_id \<Rightarrow> bytes \<Rightarrow> peer \<Rightarrow> server \<Rightarrow> server" where
  "burnt E cid nonce peer s =
     s\<lparr>sv_nonces := fst (consume nonce (to_hex cid) (fst peer) (snd peer) (time_at E AtConsume) (sv_nonces s))\<rparr>"

lemma burnt_fields [simp]:
  "sv_config (burnt E c n p s) = sv_config s" "sv_clients (burnt E c n p s) = sv_clients s"
  "sv_secret (burnt E c n p s) = sv_secret s" "sv_seen (burnt E c n p s) = sv_seen s"
  "sv_limiter (burnt E c n p s) = sv_limiter s" "sv_cooldown (burnt E c n p s) = sv_cooldown s"
  "sv_blacklist (burnt E c n p s) = sv_blacklist s" "sv_active (burnt E c n p s) = sv_active s"
  "sv_executor (burnt E c n p s) = sv_executor s" "sv_revoke (burnt E c n p s) = sv_revoke s"
  "sv_leases (burnt E c n p s) = sv_leases s" "sv_status (burnt E c n p s) = sv_status s"
  "sv_lockdown_logged (burnt E c n p s) = sv_lockdown_logged s"
  by (simp_all add: burnt_def)

lemma consume_proof_cases:
  obtains (lost) e where "consume_proof E cid nonce peer s = Inl (NonceLost e, note_rejected E (e = AlreadyUsed) s)"
      "consume nonce (to_hex cid) (fst peer) (snd peer) (time_at E AtConsume) (sv_nonces s) = (sv_nonces s, Inl e)"
  | (won) entry where "consume_proof E cid nonce peer s = Inr (burnt E cid nonce peer s)"
      "snd (consume nonce (to_hex cid) (fst peer) (snd peer) (time_at E AtConsume) (sv_nonces s)) = Inr entry"
proof (cases rule: consume_cases [of nonce "to_hex cid" "fst peer" "snd peer" "time_at E AtConsume" "sv_nonces s"])
  case (fails err)
  then show thesis by (intro lost [of err]) (simp_all add: consume_proof_def)
next
  case (succeeds e)
  then show thesis by (intro won) (simp_all add: consume_proof_def burnt_def)
qed

text \<open>A nonce that passed its check in the same state is lost only to time.\<close>

lemma proven_consumable:
  assumes "proven P E payload cid nonce sig peer s info entry" and "time_at E AtConsume \<le> ne_expires_at_unix entry"
  shows "snd (consume nonce (to_hex cid) (fst peer) (snd peer) (time_at E AtConsume) (sv_nonces s)) =
    Inr (entry\<lparr>ne_used := True\<rparr>)"
  using assms by (simp add: proven_def consume_live validate_live live_at_eq_Some)

lemma auth_cases:
  obtains (refused) out effs r where "authenticate P E payload cid nonce param sig peer s = Inl (out, effs, note_rejected E r s)"
      "out \<in> {UnknownClient, InvalidSignature} \<union> range NonceRejected \<union> range NonceLost"
      "\<forall>e \<in> set effs. \<exists>k m. e = SigCheck k m sig" "r \<longleftrightarrow> out = NonceRejected AlreadyUsed \<or> out = NonceLost AlreadyUsed"
  | (bad_param) info entry where "proven P E payload cid nonce sig peer s info entry"
      "authenticate P E payload cid nonce param sig peer s = Inl (ParamRejected,
         [SigCheck (ci_verifying_key info) (payload (ne_expires_at_unix entry)) sig],
         note_rejected E False (burnt E cid nonce peer s))"
  | (passed) info entry p where "proven P E payload cid nonce sig peer s info entry"
      "authenticate P E payload cid nonce param sig peer s = Inr (info, p,
         [SigCheck (ci_verifying_key info) (payload (ne_expires_at_unix entry)) sig], burnt E cid nonce peer s)"
      "decrypt_param P E param (burnt E cid nonce peer s) = (burnt E cid nonce peer s, Inr p)"
proof (cases rule: check_proof_cases [of P E payload cid nonce sig peer s])
  case (refused out effs r)
  then show thesis by (intro that(1) [of out effs r]) (auto simp: authenticate_def)
next
  case (passed info entry)
  show thesis
  proof (cases rule: consume_proof_cases [of E cid nonce peer s])
    case (lost e)
    with passed show thesis 
      by (intro that(1) [of "NonceLost e" "[SigCheck (ci_verifying_key info) (payload (ne_expires_at_unix entry)) sig]" "e = AlreadyUsed"])
         (auto simp: authenticate_def)
  next
    case (won entry')
    show thesis
    proof (cases rule: decrypt_param_cases [of P E param "burnt E cid nonce peer s"])
      case (ok p)
      with passed won show thesis by (intro that(3) [of info entry p]) (simp_all add: authenticate_def)
    next
      case bad
      with passed won show thesis by (intro that(2) [of info entry]) (simp_all add: authenticate_def)
    qed
  qed
qed

subsection \<open>Hooks, grants and releases\<close>

text \<open>A hook that has run to its end leaves the executor as it found it.\<close>

lemma run_hook_cases:
  obtains (refused) e where "run_hook E c ip p param n why k x = ([], Inl e, x)"
  | (ran) cmd r x' where "run_hook E c ip p param n why k x = ([Spawned cmd], r, x)"
      "execute_start (e_spawn_error E) c ip p param n why k x = (x', Inr cmd)"
proof (cases "execute_start (e_spawn_error E) c ip p param n why k x")
  case (Pair x' res)
  show thesis
  proof (cases res)
    case (Inl e)
    with Pair have "x' = x" by (auto simp: execute_start_def Let_def split: if_splits option.splits)
    with Pair Inl show thesis by (intro refused [of e]) (simp add: run_hook_def)
  next
    case (Inr cmd)
    with Pair have "x' = x\<lparr>pe_running := pe_running x + 1\<rparr>"
      by (auto simp: execute_start_def Let_def split: if_splits option.splits)
    then have "fst (execute_finish (e_wait E) x') = x"
      by (simp add: execute_finish_def Let_def split: wait_outcome.splits)
    with Pair Inr obtain r b where "execute_finish (e_wait E) x' = (x, r, b)" by (metis prod.collapse)
    with Pair Inr show thesis by (intro ran [of cmd r x']) (simp_all add: run_hook_def)
  qed
qed

text \<open>The part of the state that decides on access: what a refused packet must not touch.\<close>

definition same_setup :: "server \<Rightarrow> server \<Rightarrow> bool" where
  "same_setup s s' \<longleftrightarrow> sv_config s' = sv_config s \<and> sv_clients s' = sv_clients s \<and> sv_secret s' = sv_secret s \<and>
     sv_executor s' = sv_executor s \<and> sv_revoke s' = sv_revoke s"

lemma same_setup_refl [simp]: "same_setup s s"
  by (simp add: same_setup_def)

lemma same_setup_trans: "same_setup s t \<Longrightarrow> same_setup t u \<Longrightarrow> same_setup s u"
  by (simp add: same_setup_def)

lemma grant_cases:
  obtains (panics) "grant E iv hex name param peer s = (Panicked, [], s)"
      "lease_ttl iv (sv_config s) = Panics \<or> (\<exists>ttl. lease_ttl iv (sv_config s) = Returns ttl \<and>
         renew_at hex (fst peer) (snd peer) param ttl (inst_at E AtRenew) (sv_leases s) = Panics)"
  | (cooling) ttl leases where "lease_ttl iv (sv_config s) = Returns ttl"
      "renew_at hex (fst peer) (snd peer) param ttl (inst_at E AtRenew) (sv_leases s) = Returns (leases, False)"
      "in_cooldown (''id:'' @ hex) (inst_at E AtCooldown) (sv_cooldown s)"
      "grant E iv hex name param peer s = (CoolingDown, [], s\<lparr>sv_leases := leases\<rparr>)"
  | (failed) ttl leases new e effs where "lease_ttl iv (sv_config s) = Returns ttl"
      "renew_at hex (fst peer) (snd peer) param ttl (inst_at E AtRenew) (sv_leases s) = Returns (leases, new)"
      "run_hook E hex (fst peer) (snd peer) param new ''grant''
         (others_on_ip (fst peer) hex (inst_at E AtOthers) leases) (sv_executor s) = (effs, Inl e, sv_executor s)"
      "grant E iv hex name param peer s = (HookFailed e, effs, s\<lparr>sv_leases := leases\<rparr>)"
  | (ran) ttl leases new res effs st where "lease_ttl iv (sv_config s) = Returns ttl"
      "renew_at hex (fst peer) (snd peer) param ttl (inst_at E AtRenew) (sv_leases s) = Returns (leases, new)"
      "run_hook E hex (fst peer) (snd peer) param new ''grant''
         (others_on_ip (fst peer) hex (inst_at E AtOthers) leases) (sv_executor s) = (effs, Inr res, sv_executor s)"
      "grant E iv hex name param peer s = (HookRan res, effs,
         s\<lparr>sv_leases := leases, sv_cooldown := cd_mark (''id:'' @ hex) (inst_at E AtMark) (sv_cooldown s), sv_status := st\<rparr>)"
      "st_rejected st = st_rejected (sv_status s)" "st_replays st = st_replays (sv_status s)"
proof (cases "lease_ttl iv (sv_config s)")
  case Panics
  then show thesis by (intro panics) (simp_all add: grant_def)
next
  case ttl: (Returns ttl)
  show thesis
  proof (cases "renew_at hex (fst peer) (snd peer) param ttl (inst_at E AtRenew) (sv_leases s)")
    case Panics
    with ttl show thesis by (intro panics) (simp_all add: grant_def)
  next
    case (Returns lr)
    obtain leases new where lr: "lr = (leases, new)" by (cases lr)
    let ?hook = "run_hook E hex (fst peer) (snd peer) param new ''grant''
         (others_on_ip (fst peer) hex (inst_at E AtOthers) leases) (sv_executor s)"
    show thesis
    proof (cases "\<not> new \<and> in_cooldown (''id:'' @ hex) (inst_at E AtCooldown) (sv_cooldown s)")
      case True
      with ttl Returns lr show thesis by (intro cooling [of ttl leases]) (simp_all add: grant_def Let_def)
    next
      case False
      obtain effs r where h: "?hook = (effs, r, sv_executor s)"
        by (rule run_hook_cases [of E hex "fst peer" "snd peer" param new "''grant''"
              "others_on_ip (fst peer) hex (inst_at E AtOthers) leases" "sv_executor s"]) auto
      have upd: "s\<lparr>sv_leases := leases, sv_executor := sv_executor s\<rparr> = s\<lparr>sv_leases := leases\<rparr>" by simp
      show thesis
      proof (cases r)
        case (Inl e)
        with False ttl Returns lr h show thesis
          by (intro failed [of ttl leases new effs e]) (auto simp: grant_def Let_def)
      next
        case (Inr res)
        with False ttl Returns lr h show thesis
          by (intro ran [of ttl leases new effs res "set_hook name \<lparr>hi_client_id = name, hi_source_ip = fst peer,
                hi_at_unix = time_at E AtHook, hi_exit_code = cr_exit_code res, hi_timed_out = cr_timed_out res,
                hi_param = param, hi_reason = Some ''grant''\<rparr> (sv_status s)"])
             (auto simp: grant_def Let_def set_hook_def)
      qed
    qed
  qed
qed

lemma run_revoke_cases:
  obtains (failed) err effs where "run_revoke E e name param why k x s = (HookFailed err, effs, s\<lparr>sv_revoke := Some x\<rparr>)"
      "run_hook E (x_client_id e) (x_ip e) (x_source_port e) param False why k x = (effs, Inl err, x)"
  | (ran) res effs st where "run_revoke E e name param why k x s = (HookRan res, effs, s\<lparr>sv_revoke := Some x, sv_status := st\<rparr>)"
      "run_hook E (x_client_id e) (x_ip e) (x_source_port e) param False why k x = (effs, Inr res, x)"
      "st_rejected st = st_rejected (sv_status s)" "st_replays st = st_replays (sv_status s)"
proof -
  obtain effs r where h: "run_hook E (x_client_id e) (x_ip e) (x_source_port e) param False why k x = (effs, r, x)"
    by (rule run_hook_cases [of E "x_client_id e" "x_ip e" "x_source_port e" param False why k x]) auto
  show thesis
  proof (cases r)
    case (Inl err)
    with h show thesis by (intro failed [of err effs]) (simp_all add: run_revoke_def)
  next
    case (Inr res)
    with h show thesis
      by (intro ran [of res effs "set_revoke name \<lparr>hi_client_id = name, hi_source_ip = x_ip e,
                hi_at_unix = time_at E AtHook, hi_exit_code = cr_exit_code res, hi_timed_out = cr_timed_out res,
                hi_param = param, hi_reason = Some why\<rparr> (sv_status s)"])
         (simp_all add: run_revoke_def set_revoke_def Let_def)
  qed
qed

subsection \<open>How a datagram is read\<close>

definition opened :: "primitives \<Rightarrow> bytes \<Rightarrow> server \<Rightarrow> (bytes \<times> reply_mode) option" where
  "opened P data s =
     (case ss_wire_encryption (sc_server (sv_config s)) of
        Off \<Rightarrow> Some (data, Cleartext)
      | Required \<Rightarrow>
          (case sv_secret s of
             None \<Rightarrow> None
           | Some secret \<Rightarrow>
               (case open_box P secret data CTX_WIRE of Inl _ \<Rightarrow> None | Inr (inner, eph) \<Rightarrow> Some (inner, Sealed eph))))"

definition read_packet :: "primitives \<Rightarrow> bytes \<Rightarrow> server \<Rightarrow> (packet \<times> reply_mode) option" where
  "read_packet P data s =
     (case opened P data s of
        None \<Rightarrow> None
      | Some (inner, reply) \<Rightarrow> (case decode inner of Inl _ \<Rightarrow> None | Inr p \<Rightarrow> Some (p, reply)))"

lemma faulty_cases:
  obtains (counted) b where "faulty E out ip s = (out, [], (note_rejected E False s)\<lparr>sv_blacklist := b\<rparr>)"
      "\<exists>r. record_faulty_at ip (inst_at E AtFault) (inst_at E AtFaultArm) (sv_blacklist (note_rejected E False s)) = Returns (b, r)"
  | (panics) "faulty E out ip s = (Panicked, [], note_rejected E False s)"
      "record_faulty_at ip (inst_at E AtFault) (inst_at E AtFaultArm) (sv_blacklist (note_rejected E False s)) = Panics"
proof (cases "record_faulty_at ip (inst_at E AtFault) (inst_at E AtFaultArm) (sv_blacklist (note_rejected E False s))")
  case (Returns br)
  then show thesis by (cases br) (auto simp: faulty_def note_faulty_def Let_def intro: counted)
next
  case Panics
  then show thesis by (intro panics) (simp_all add: faulty_def note_faulty_def Let_def)
qed

lemma datagram_cases:
  obtains (no_secret) "handle_datagram P E data peer s = (NoSecret, [], s)" "read_packet P data s = None"
  | (unreadable) out where "handle_datagram P E data peer s = faulty E out (fst peer) s"
      "out \<in> {Undecryptable} \<union> range Malformed" "read_packet P data s = None"
  | (challenge) c reply where "read_packet P data s = Some (Challenge c, reply)"
      "handle_datagram P E data peer s = (UnexpectedChallenge, [], note_rejected E False s)"
  | (hello) h reply where "read_packet P data s = Some (Hello h, reply)"
      "handle_datagram P E data peer s = handle_hello P E h peer reply s"
  | (response) r reply where "read_packet P data s = Some (Response r, reply)"
      "handle_datagram P E data peer s = handle_response P E r peer s"
  | (bye) b reply where "read_packet P data s = Some (Bye b, reply)"
      "handle_datagram P E data peer s = handle_bye P E b peer s"
proof (cases "opened P data s")
  case None
  then show thesis
    by (cases "ss_wire_encryption (sc_server (sv_config s))"; cases "sv_secret s")
       (auto simp: opened_def handle_datagram_def read_packet_def split: sum.splits
         intro: no_secret unreadable [of Undecryptable])
next
  case (Some ir)
  obtain inner reply where ir: "ir = (inner, reply)" by (cases ir)
  with Some have h: "handle_datagram P E data peer s = dispatch P E inner reply peer s"
    by (auto simp: opened_def handle_datagram_def split: wire_encryption.splits option.splits sum.splits)
  show thesis
  proof (cases "decode inner")
    case (Inl e)
    with Some ir h show thesis by (intro unreadable [of "Malformed e"]) (simp_all add: read_packet_def dispatch_def)
  next
    case (Inr p)
    with Some ir have r: "read_packet P data s = Some (p, reply)" by (simp add: read_packet_def)
    show thesis
      using that(3-6) r Inr h by (cases p) (simp_all add: dispatch_def)
  qed
qed

lemma receive_cases:
  obtains (shed) out l b where "receive P E data peer s = (out, [], s\<lparr>sv_lockdown_logged := l, sv_blacklist := b\<rparr>)"
      "out \<in> {Oversized, Blocked, LockedOut, NoPermit}"
      "b = sv_blacklist s \<or> b = note_lockdown_drop (inst_at E AtDrop) (inst_at E AtDropArm) (sv_blacklist s)"
  | (handled) l where "receive P E data peer s = handle_datagram P E data peer (s\<lparr>sv_lockdown_logged := l\<rparr>)"
      "length data \<le> ss_max_packet_size (sc_server (sv_config s))"
      "\<not> is_blocked (fst peer) (inst_at E AtGate) (sv_blacklist s)"
      "under_attack (inst_at E AtLockdown) (sv_blacklist s) \<longrightarrow> is_active_at (fst peer) (inst_at E AtActive) (sv_active s)"
proof -
  let ?len = "ss_max_packet_size (sc_server (sv_config s)) < length data"
  let ?bl = "is_blocked (fst peer) (inst_at E AtGate) (sv_blacklist s)"
  let ?at = "under_attack (inst_at E AtLockdown) (sv_blacklist s)"
  let ?ac = "is_active_at (fst peer) (inst_at E AtActive) (sv_active s)"
  consider "?len" | "\<not> ?len" "?bl" | "\<not> ?len" "\<not> ?bl" "?at" "\<not> ?ac" | "\<not> ?len" "\<not> ?bl" "?at \<longrightarrow> ?ac" by blast
  then show thesis
  proof cases
    case 1
    then show thesis by (intro shed [of Oversized "sv_blacklist s" "sv_lockdown_logged s"]) (simp_all add: receive_def gate_def)
  next
    case 2
    then show thesis by (intro shed [of Blocked "sv_blacklist s" "sv_lockdown_logged s"]) (simp_all add: receive_def gate_def)
  next
    case 3
    then show thesis
      by (intro shed [of LockedOut "note_lockdown_drop (inst_at E AtDrop) (inst_at E AtDropArm) (sv_blacklist s)" True])
         (simp_all add: receive_def gate_def Let_def)
  next
    case 4
    have g: "gate E (length data) (fst peer) s = (if e_permit E then Inr (s\<lparr>sv_lockdown_logged := ?at\<rparr>)
        else Inl (NoPermit, s\<lparr>sv_lockdown_logged := ?at\<rparr>))"
      using 4 by (auto simp: gate_def Let_def)
    show thesis
    proof (cases "e_permit E")
      case True
      with g 4 show thesis by (intro handled [of ?at]) (auto simp: receive_def)
    next
      case False
      with g show thesis by (intro shed [of NoPermit "sv_blacklist s" ?at]) (auto simp: receive_def)
    qed
  qed
qed

end
