(* ===== verification/Server_Properties.thy ===== *)
theory Server_Properties
  imports Server_Facts
begin

text \<open>
  What the server promises about single datagrams and about runs: a run is a list of events, each
  a datagram, a cleanup tick or the revocation of an expired lease, with its own \<open>env\<close>. Every
  handler of a run is finished before the next event; the interleaving of handlers is the
  subject of the theory \<open>Interleaving\<close>.
\<close>

subsection \<open>Events\<close>

datatype event =
    Datagram env bytes peer
  | Tick env
  | Revoke env revoke_item

fun event_step :: "primitives \<Rightarrow> event \<Rightarrow> server \<Rightarrow> server" where
  "event_step P (Datagram E data peer) s = snd (snd (receive P E data peer s))"
| "event_step P (Tick E) s = fst (cleanup_tick E s)"
| "event_step P (Revoke E item) s = snd (snd (revoke_expired E item s))"

subsection \<open>The invariant\<close>

definition bounded :: "nat \<Rightarrow> nat \<Rightarrow> bool" where
  "bounded cap n \<longleftrightarrow> (0 < cap \<longrightarrow> n \<le> cap)"

text \<open>
  Each table is well formed, has the capacity and times that the configuration sets, and is within
  that capacity; every replay is counted as a rejection.
\<close>

definition rl_inv :: "nat \<Rightarrow> hello_rate_limiter \<Rightarrow> bool" where
  "rl_inv n r \<longleftrightarrow> rl_ok r \<and> rl_max_entries r = n \<and> bounded n (length (rl_state r))"

definition bl_inv :: "nat \<Rightarrow> nat \<Rightarrow> blacklist \<Rightarrow> bool" where
  "bl_inv n secs b \<longleftrightarrow> bl_ok b \<and> bl_max_entries b = n \<and> bl_duration b = from_secs secs \<and> bounded n (length (bl_state b))"

definition ai_inv :: "nat \<Rightarrow> active_ips \<Rightarrow> bool" where
  "ai_inv n a \<longleftrightarrow> ai_ok a \<and> ai_max_entries a = max n 1 \<and> length (ai_seen a) \<le> max n 1"

definition lt_inv :: "nat \<Rightarrow> lease_tracker \<Rightarrow> bool" where
  "lt_inv n t \<longleftrightarrow> lt_ok t \<and> lt_max_entries t = max n 1 \<and> length (lt_leases t) \<le> max n 1"

definition server_ok :: "server \<Rightarrow> bool" where
  "server_ok s \<longleftrightarrow>
     (let cfg = sc_server (sv_config s); n = ss_max_tracked_ips cfg
      in hm_ok (sv_nonces s) \<and> hm_ok (sv_seen s) \<and> rl_inv n (sv_limiter s) \<and> cd_ok (sv_cooldown s) \<and>
         bl_inv n (ss_blacklist_seconds cfg) (sv_blacklist s) \<and> ai_inv n (sv_active s) \<and> lt_inv n (sv_leases s) \<and>
         st_replays (sv_status s) \<le> st_rejected (sv_status s))"

lemmas server_ok_alt = server_ok_def [unfolded Let_def]

lemma rl_inv_step: "rl_inv n r \<Longrightarrow> rl_inv n (rl_step x r)"
  using rl_cap.size_step [of r x] rl_cap.cap_step [of x r] rl_ok_step [of r x] by (auto simp: rl_inv_def bounded_def)

lemma bl_inv_step: "bl_inv n d b \<Longrightarrow> bl_inv n d (bl_step x b)"
  using bl_cap.size_step [of b x] bl_cap.cap_step [of x b] bl_ok_step [of b x]
  by (auto simp: bl_inv_def bounded_def)

lemma ai_inv_step: "ai_inv n a \<Longrightarrow> ai_inv n (ai_step x a)"
  using ai_cap.size_step [of a x] ai_cap.cap_step [of x a] ai_cap.inv_step [of a x] by (auto simp: ai_inv_def)

lemma lt_inv_step: "lt_inv n t \<Longrightarrow> lt_inv n (lt_step x t)"
  using lt_cap.size_step [of t x] lt_cap.cap_step [of x t] lt_ok_step [of t x] by (auto simp: lt_inv_def)

lemma table_invs [simp]:
  "rl_inv n r \<Longrightarrow> rl_inv n (fst (check_at ip t r))"
  "rl_inv n r \<Longrightarrow> rl_inv n (rl_purge_stale t r)"
  "bl_inv n d b \<Longrightarrow> bl_inv n d (note_rejection t u b)"
  "bl_inv n d b \<Longrightarrow> bl_inv n d (note_lockdown_drop t u b)"
  "bl_inv n d b \<Longrightarrow> bl_inv n d (bl_purge_stale t b)"
  "ai_inv n a \<Longrightarrow> ai_inv n (ai_mark ip t a)"
  "ai_inv n a \<Longrightarrow> ai_inv n (ai_purge_stale t a)"
  "lt_inv n l \<Longrightarrow> lt_inv n (fst (release_at c t l))"
  "lt_inv n l \<Longrightarrow> lt_inv n (fst (take_expired_at t l))"
  using rl_inv_step [of n r "RlCheck ip t"] rl_inv_step [of n r "RlPurge t"] bl_inv_step [of n d b "BlReject t u"]
    bl_inv_step [of n d b "BlDrop t u"] bl_inv_step [of n d b "BlPurge t"] ai_inv_step [of n a "AiMark ip t"]
    ai_inv_step [of n a "AiPurge t"] lt_inv_step [of n l "LtRelease c t"] lt_inv_step [of n l "LtExpire t"]
  by simp_all

lemma record_faulty_inv: "bl_inv n d b \<Longrightarrow> record_faulty_at ip t u b = Returns (b', r) \<Longrightarrow> bl_inv n d b'"
  using bl_inv_step [of n d b "BlFaulty ip t u"] by (simp add: bl_step.simps(1))

lemma renew_inv: "lt_inv n l \<Longrightarrow> renew_at c ip p q ttl t l = Returns (l', r) \<Longrightarrow> lt_inv n l'"
  using lt_inv_step [of n l "LtRenew c ip p q ttl t"] by simp

lemma note_rejected_ok [simp]: "server_ok s \<Longrightarrow> server_ok (note_rejected E r s)"
  by (simp add: server_ok_alt) (simp add: note_rejected_def)

lemma counted_ok [simp]: "server_ok s \<Longrightarrow> server_ok (counted E p s)"
  by (simp add: server_ok_alt) (simp add: counted_def)

lemma burnt_ok [simp]: "server_ok s \<Longrightarrow> server_ok (burnt E c n p s)"
  by (simp add: server_ok_alt) (simp add: burnt_def)

lemma lockdown_logged_ok [simp]: "server_ok (s\<lparr>sv_lockdown_logged := l\<rparr>) \<longleftrightarrow> server_ok s"
  by (simp add: server_ok_alt)

lemma issue_ok: "server_ok s \<Longrightarrow> server_ok (issue E h p now s)"
  by (simp add: server_ok_alt issue_def)

lemma faulty_ok: "server_ok s \<Longrightarrow> faulty E out ip s = (out', effs, s') \<Longrightarrow> server_ok s'"
proof -
  assume s: "server_ok s" and f: "faulty E out ip s = (out', effs, s')"
  let ?cfg = "sc_server (sv_config s)"
  have b: "bl_inv (ss_max_tracked_ips ?cfg) (ss_blacklist_seconds ?cfg) (sv_blacklist (note_rejected E False s))"
    using note_rejected_ok [OF s, of E False] by (simp add: server_ok_alt)
  show ?thesis
  proof (cases rule: faulty_cases [of E out ip s])
    case (counted b')
    with f b record_faulty_inv have "bl_inv (ss_max_tracked_ips ?cfg) (ss_blacklist_seconds ?cfg) b'" by blast
    moreover have "server_ok (note_rejected E False s)" using s by simp
    ultimately show ?thesis using f counted(1) by (auto simp: server_ok_alt)
  next
    case panics
    with f s show ?thesis by auto
  qed
qed

lemma seen_ok: "server_ok s \<Longrightarrow> server_ok (s\<lparr>sv_seen := fst (seen_by E h s')\<rparr>) \<longleftrightarrow> hm_ok (fst (seen_by E h s'))"
  by (simp add: server_ok_alt)

lemma hello_ok: "server_ok s \<Longrightarrow> handle_hello P E h peer reply s = (out, effs, s') \<Longrightarrow> server_ok s'"
proof -
  assume s: "server_ok s" and r: "handle_hello P E h peer reply s = (out, effs, s')"
  have seen: "server_ok ((counted E peer s)\<lparr>sv_seen := fst (seen_by E h s)\<rparr>)"
    using counted_ok [OF s, of E peer] s by (simp add: server_ok_alt seen_by_def)
  show ?thesis
  proof (cases rule: hello_cases [of P E h peer reply s])
    case (accepted info out' effs' t)
    have "server_ok t"
      using accepted(5) issue_ok [OF seen, of E h peer "time_at E AtFresh"]
      by (cases rule: accept_hello_cases [of P E h "time_at E AtFresh" "(counted E peer s)\<lparr>sv_seen := fst (seen_by E h s)\<rparr>" peer reply])
         (auto simp: server_ok_alt issue_def)
    with r accepted(6) show ?thesis by simp
  qed (use r s seen in auto)
qed

lemma grant_ok: "server_ok s \<Longrightarrow> grant E iv hex name param peer s = (out, effs, s') \<Longrightarrow> server_ok s'"
  by (cases rule: grant_cases [of E iv hex name param peer s]) (auto simp: server_ok_alt dest: renew_inv)

lemma accept_response_ok:
  "server_ok s \<Longrightarrow> accept_response E r info param peer s = (out, effs, s') \<Longrightarrow> server_ok s'"
  unfolding accept_response_def Let_def
  by (erule grant_ok [rotated]) (simp add: server_ok_alt set_pulse_def Let_def)

lemma run_revoke_ok: "server_ok s \<Longrightarrow> run_revoke E e name param why k x s = (out, effs, s') \<Longrightarrow> server_ok s'"
  by (cases rule: run_revoke_cases [of E e name param why k x s]) (auto simp: server_ok_alt)

lemma accept_bye_ok: "server_ok s \<Longrightarrow> accept_bye E b param s = (out, effs, s') \<Longrightarrow> server_ok s'"
proof -
  assume s: "server_ok s" and r: "accept_bye E b param s = (out, effs, s')"
  let ?rel = "release_at (to_hex (b_client_id b)) (inst_at E AtRelease) (sv_leases s)"
  have l: "server_ok (s\<lparr>sv_leases := fst ?rel\<rparr>)" using s by (simp add: server_ok_alt)
  obtain leases res where rel: "?rel = (leases, res)" by fastforce
  show ?thesis
  proof (cases res)
    case None
    with r rel s show ?thesis by (simp add: accept_bye_def)
  next
    case (Some er)
    obtain e k where "er = (e, k)" by (cases er)
    with Some r rel l show ?thesis
      by (auto simp: accept_bye_def Let_def split: option.splits elim: run_revoke_ok [rotated])
  qed
qed

lemma response_ok: "server_ok s \<Longrightarrow> handle_response P E r peer s = (out, effs, s') \<Longrightarrow> server_ok s'"
  by (cases rule: auth_cases [of P E "response_payload P r s" "r_client_id r" "r_nonce r" "r_param r" "r_signature r" peer s])
     (auto simp: handle_response_def split: prod.splits dest: accept_response_ok [rotated])

lemma bye_ok: "server_ok s \<Longrightarrow> handle_bye P E b peer s = (out, effs, s') \<Longrightarrow> server_ok s'"
  by (cases rule: auth_cases [of P E "bye_payload P b s" "b_client_id b" "b_nonce b" "b_param b" "b_signature b" peer s])
     (auto simp: handle_bye_def split: prod.splits dest: accept_bye_ok [rotated])

lemma datagram_ok: "server_ok s \<Longrightarrow> handle_datagram P E data peer s = (out, effs, s') \<Longrightarrow> server_ok s'"
  by (cases rule: datagram_cases [of P E data peer s])
     (auto dest: faulty_ok [rotated] hello_ok [rotated] response_ok [rotated] bye_ok [rotated])

lemma receive_ok: "server_ok s \<Longrightarrow> receive P E data peer s = (out, effs, s') \<Longrightarrow> server_ok s'"
proof -
  assume s: "server_ok s" and r: "receive P E data peer s = (out, effs, s')"
  show ?thesis
  proof (cases rule: receive_cases [of P E data peer s])
    case shed
    with s r show ?thesis by (auto simp: server_ok_alt)
  next
    case (handled logged)
    with s r show ?thesis using datagram_ok [of "s\<lparr>sv_lockdown_logged := logged\<rparr>"] by simp
  qed
qed

lemma lease_scan_ok: "server_ok s \<Longrightarrow> server_ok (fst (lease_scan E s))"
  by (auto simp: lease_scan_def Let_def server_ok_alt case_prod_unfold split: option.splits)

lemma tick_ok: "server_ok s \<Longrightarrow> server_ok (fst (cleanup_tick E s))"
  unfolding cleanup_tick_def Let_def by (rule lease_scan_ok) (simp add: server_ok_alt)

lemma revoke_expired_ok: "server_ok s \<Longrightarrow> server_ok (snd (snd (revoke_expired E item s)))"
proof -
  assume s: "server_ok s"
  obtain e name k where item: "item = (e, name, k)" by (cases item)
  show ?thesis
  proof (cases "sv_revoke s")
    case None
    with s item show ?thesis by (simp add: revoke_expired_def)
  next
    case (Some x)
    obtain out effs s' where r: "run_revoke E e name (x_param e) ''expired'' k x s = (out, effs, s')"
      by (metis prod_cases3)
    with run_revoke_ok [OF s r] item Some show ?thesis by (simp add: revoke_expired_def)
  qed
qed

lemma event_ok: "server_ok s \<Longrightarrow> server_ok (event_step P ev s)"
proof (cases ev)
  case (Datagram E data peer)
  assume "server_ok s"
  moreover obtain out effs s' where "receive P E data peer s = (out, effs, s')" by (metis prod_cases3)
  ultimately show ?thesis using Datagram receive_ok by simp
qed (simp_all add: tick_ok revoke_expired_ok)

lemma events_ok: "server_ok s \<Longrightarrow> server_ok (fold (event_step P) evs s)"
  by (induction evs arbitrary: s) (simp_all add: event_ok)

lemma from_config_ok: "from_config P now cfg x y = Returns (Inr s) \<Longrightarrow> server_ok s"
  by (auto simp: from_config_def Let_def res_bind_eq_Inr server_ok_def rl_inv_def bl_inv_def ai_inv_def lt_inv_def bounded_def ns_new_def sc_new_def rl_new_def
      cd_new_def bl_new_def ai_new_def lt_new_def default_status_def split: may_panic.splits sum.splits)

subsection \<open>Effects\<close>

lemma opened_logged [simp]: "opened P data (s\<lparr>sv_lockdown_logged := l\<rparr>) = opened P data s"
  by (cases "ss_wire_encryption (sc_server (sv_config s))") (simp_all add: opened_def)

lemma logged_irrelevant [simp]:
  "read_packet P data (s\<lparr>sv_lockdown_logged := l\<rparr>) = read_packet P data s"
  "hello_payload P h (s\<lparr>sv_lockdown_logged := l\<rparr>) = hello_payload P h s"
  "skew_of (s\<lparr>sv_lockdown_logged := l\<rparr>) = skew_of s"
  "seen_by E h (s\<lparr>sv_lockdown_logged := l\<rparr>) = seen_by E h s"
  "proven P E f c n g p (s\<lparr>sv_lockdown_logged := l\<rparr>) = proven P E f c n g p s"
  "response_payload P r (s\<lparr>sv_lockdown_logged := l\<rparr>) = response_payload P r s"
  "bye_payload P b (s\<lparr>sv_lockdown_logged := l\<rparr>) = bye_payload P b s"
  by (auto simp: read_packet_def hello_payload_def skew_of_def seen_by_def proven_def
      response_payload_def bye_payload_def fun_eq_iff)

definition authentic_hello :: "primitives \<Rightarrow> env \<Rightarrow> hello \<Rightarrow> server \<Rightarrow> bool" where
  "authentic_hello P E h s \<longleftrightarrow>
     (\<exists>info. map_of (sv_clients s) (h_client_id h) = Some info \<and>
        ed_verify_strict P (ci_verifying_key info) (hello_payload P h s) (h_signature h)) \<and>
     \<bar>time_at E AtFresh - h_timestamp h\<bar> \<le> int (skew_of s) \<and> snd (seen_by E h s)"

lemma hello_sent:
  assumes "handle_hello P E h peer reply s = (out, effs, s')" and "Sent p d \<in> set effs"
  shows "p = peer \<and> out = ChallengeIssued \<and> authentic_hello P E h s"
proof (cases rule: hello_cases [of P E h peer reply s])
  case (accepted info out' effs' t)
  with assms have a: "Sent p d \<in> set effs'" "out = out'" by auto
  then have "p = peer \<and> out = ChallengeIssued" using accepted(5)
    by (cases rule: accept_hello_cases [of P E h "time_at E AtFresh" "(counted E peer s)\<lparr>sv_seen := fst (seen_by E h s)\<rparr>" peer reply])
       auto
  with accepted show ?thesis by (auto simp: authentic_hello_def)
qed (use assms in auto)

lemma hello_spawns_nothing:
  assumes "handle_hello P E h peer reply s = (out, effs, s')"
  shows "Spawned cmd \<notin> set effs"
proof (cases rule: hello_cases [of P E h peer reply s])
  case (accepted info out' effs' t)
  then have "Spawned cmd \<notin> set effs'"
    by (cases rule: accept_hello_cases [of P E h "time_at E AtFresh" "(counted E peer s)\<lparr>sv_seen := fst (seen_by E h s)\<rparr>" peer reply])
       auto
  with accepted assms show ?thesis by auto
qed (use assms in auto)

lemma hook_sends_nothing: "fst (run_hook E c ip p param n why k x) = effs \<Longrightarrow> Sent q d \<notin> set effs"
  by (cases rule: run_hook_cases [of E c ip p param n why k x]) auto

lemma grant_sends_nothing: "grant E iv hex name param peer s = (out, effs, s') \<Longrightarrow> Sent q d \<notin> set effs"
  by (cases rule: grant_cases [of E iv hex name param peer s]) (auto dest!: arg_cong [where f = fst] hook_sends_nothing)

lemma revoke_sends_nothing: "run_revoke E e name param why k x s = (out, effs, s') \<Longrightarrow> Sent q d \<notin> set effs"
  by (cases rule: run_revoke_cases [of E e name param why k x s]) (auto dest!: arg_cong [where f = fst] hook_sends_nothing)

lemma accept_bye_sends_nothing: "accept_bye E b param s = (out, effs, s') \<Longrightarrow> Sent q d \<notin> set effs"
  by (auto simp: accept_bye_def Let_def split: prod.splits option.splits dest: revoke_sends_nothing)

lemma response_effects:
  assumes "handle_response P E r peer s = (out, effs, s')"
  shows "Sent p d \<notin> set effs \<and> (Spawned cmd \<in> set effs \<longrightarrow>
    (\<exists>info entry. proven P E (response_payload P r s) (r_client_id r) (r_nonce r) (r_signature r) peer s info entry))"
proof (cases rule: auth_cases [of P E "response_payload P r s" "r_client_id r" "r_nonce r" "r_param r" "r_signature r" peer s])
  case (passed info entry q)
  obtain out' effs' t where a: "accept_response E r info q peer (burnt E (r_client_id r) (r_nonce r) peer s) = (out', effs', t)"
    by (metis prod_cases3)
  then have "Sent p d \<notin> set effs'" by (auto simp: accept_response_def Let_def dest: grant_sends_nothing)
  with a passed assms show ?thesis by (auto simp: handle_response_def)
qed (use assms in \<open>auto simp: handle_response_def\<close>)

lemma bye_effects:
  assumes "handle_bye P E b peer s = (out, effs, s')"
  shows "Sent p d \<notin> set effs \<and> (Spawned cmd \<in> set effs \<longrightarrow>
    (\<exists>info entry. proven P E (bye_payload P b s) (b_client_id b) (b_nonce b) (b_signature b) peer s info entry))"
proof (cases rule: auth_cases [of P E "bye_payload P b s" "b_client_id b" "b_nonce b" "b_param b" "b_signature b" peer s])
  case (passed info entry q)
  obtain out' effs' t where a: "accept_bye E b q (burnt E (b_client_id b) (b_nonce b) peer s) = (out', effs', t)"
    by (metis prod_cases3)
  then have "Sent p d \<notin> set effs'" by (auto dest: accept_bye_sends_nothing)
  with a passed assms show ?thesis by (auto simp: handle_bye_def)
qed (use assms in \<open>auto simp: handle_bye_def\<close>)

lemma faulty_effects: "faulty E out ip s = (out', effs, s') \<Longrightarrow> effs = []"
  by (cases rule: faulty_cases [of E out ip s]) auto

text \<open>A datagram that reaches a handler, seen from the receive loop.\<close>

lemma receive_effect:
  assumes "receive P E data peer s = (out, effs, s')" and "e \<in> set effs"
  obtains h reply where "read_packet P data s = Some (Hello h, reply)"
      "\<exists>l. handle_hello P E h peer reply (s\<lparr>sv_lockdown_logged := l\<rparr>) = (out, effs, s')"
  | r reply where "read_packet P data s = Some (Response r, reply)"
      "\<exists>l. handle_response P E r peer (s\<lparr>sv_lockdown_logged := l\<rparr>) = (out, effs, s')"
  | b reply where "read_packet P data s = Some (Bye b, reply)"
      "\<exists>l. handle_bye P E b peer (s\<lparr>sv_lockdown_logged := l\<rparr>) = (out, effs, s')"
proof (cases rule: receive_cases [of P E data peer s])
  case shed
  with assms show thesis by auto
next
  case (handled l)
  let ?s = "s\<lparr>sv_lockdown_logged := l\<rparr>"
  from handled assms have d: "handle_datagram P E data peer ?s = (out, effs, s')" by simp
  show thesis
  proof (cases rule: datagram_cases [of P E data peer ?s])
    case no_secret
    with d assms(2) show thesis by auto
  next
    case unreadable
    with d assms(2) faulty_effects show thesis by fastforce
  next
    case challenge
    with d assms(2) show thesis by auto
  next
    case (hello h reply)
    with d show thesis by (intro that(1) [of h reply]) auto
  next
    case (response r reply)
    with d show thesis by (intro that(2) [of r reply]) auto
  next
    case (bye b reply)
    with d show thesis by (intro that(3) [of b reply]) auto
  qed
qed

subsection \<open>What a refused packet leaves alone\<close>

definition refusals :: "outcome set" where
  "refusals = {Oversized, Blocked, LockedOut, NoPermit, NoSecret, Undecryptable, UnexpectedChallenge, RateLimited,
     UnknownClient, InvalidSignature, OutsideSkew, HelloReplay} \<union>
     range Malformed \<union> range NonceRejected \<union> range NonceLost"

definition same_access :: "server \<Rightarrow> server \<Rightarrow> bool" where
  "same_access s s' \<longleftrightarrow>
     sv_config s' = sv_config s \<and> sv_clients s' = sv_clients s \<and> sv_secret s' = sv_secret s \<and>
     sv_nonces s' = sv_nonces s \<and> sv_seen s' = sv_seen s \<and> sv_cooldown s' = sv_cooldown s \<and>
     sv_active s' = sv_active s \<and> sv_leases s' = sv_leases s \<and> sv_executor s' = sv_executor s \<and>
     sv_revoke s' = sv_revoke s \<and> st_verified (sv_status s') = st_verified (sv_status s) \<and>
     st_hello_accepted (sv_status s') = st_hello_accepted (sv_status s) \<and>
     st_clients (sv_status s') = st_clients (sv_status s)"

lemma same_access_facts [simp]:
  "same_access s (note_rejected E r s)" "same_access s s"
  "same_access s (note_rejected E r (counted E p s))"
  by (simp_all add: same_access_def)

lemma accept_hello_outcome: "accept_hello P E h peer reply now s = (out, effs, s') \<Longrightarrow> out \<notin> refusals"
  by (cases rule: accept_hello_cases [of P E h now s peer reply]) (auto simp: refusals_def)

lemma grant_outcome: "grant E iv hex name param peer s = (out, effs, s') \<Longrightarrow> out \<notin> refusals"
  by (cases rule: grant_cases [of E iv hex name param peer s]) (auto simp: refusals_def)

lemma accept_bye_outcome: "accept_bye E b param s = (out, effs, s') \<Longrightarrow> out \<notin> refusals"
  by (auto simp: accept_bye_def Let_def refusals_def run_revoke_def split: prod.splits option.splits sum.splits)

lemma hello_refused:
  assumes "handle_hello P E h peer reply s = (out, effs, s')" and "out \<in> refusals"
  shows "same_access s s'"
proof (cases rule: hello_cases [of P E h peer reply s])
  case (replay info)
  then have "fst (seen_by E h s) = sv_seen s"
    by (auto simp: seen_by_def insert_if_absent_def Let_def split: option.splits if_splits)
  with replay assms show ?thesis by (auto simp: same_access_def)
next
  case (accepted info out' effs' t)
  with assms show ?thesis by (auto dest: accept_hello_outcome)
qed (use assms in auto)

lemma response_refused:
  assumes "handle_response P E r peer s = (out, effs, s')" and "out \<in> refusals"
  shows "same_access s s'"
proof (cases rule: auth_cases [of P E "response_payload P r s" "r_client_id r" "r_nonce r" "r_param r" "r_signature r" peer s])
  case (passed info entry q)
  with assms show ?thesis
    by (auto simp: handle_response_def accept_response_def Let_def split: prod.splits dest: grant_outcome)
qed (use assms in \<open>auto simp: handle_response_def refusals_def\<close>)

lemma bye_refused:
  assumes "handle_bye P E b peer s = (out, effs, s')" and "out \<in> refusals"
  shows "same_access s s'"
proof (cases rule: auth_cases [of P E "bye_payload P b s" "b_client_id b" "b_nonce b" "b_param b" "b_signature b" peer s])
  case (passed info entry q)
  with assms show ?thesis
    by (auto simp: handle_bye_def split: prod.splits dest: accept_bye_outcome)
qed (use assms in \<open>auto simp: handle_bye_def refusals_def\<close>)

lemma faulty_same: "faulty E out ip s = (out', effs, s') \<Longrightarrow> same_access s s'"
  by (cases rule: faulty_cases [of E out ip s]) (auto simp: same_access_def)

lemma datagram_refused:
  assumes "handle_datagram P E data peer s = (out, effs, s')" and "out \<in> refusals"
  shows "same_access s s'"
proof (cases rule: datagram_cases [of P E data peer s])
  case unreadable
  with assms show ?thesis by (metis faulty_same)
next
  case hello
  with assms show ?thesis by (metis hello_refused)
next
  case response
  with assms show ?thesis by (metis response_refused)
next
  case bye
  with assms show ?thesis by (metis bye_refused)
qed (use assms in auto)

lemma receive_refused:
  assumes "receive P E data peer s = (out, effs, s')" and "out \<in> refusals"
  shows "same_access s s'"
proof (cases rule: receive_cases [of P E data peer s])
  case shed
  with assms show ?thesis by (auto simp: same_access_def)
next
  case (handled l)
  with assms have "same_access (s\<lparr>sv_lockdown_logged := l\<rparr>) s'" by (auto dest: datagram_refused)
  then show ?thesis by (simp add: same_access_def)
qed

end
