(* ===== verification/Client.thy ===== *)
theory Client
  imports Config Crypto
begin

text \<open>
  The client, \<open>signedpulse-client/src/client.rs\<close>: the targets that a configuration resolves to,
  the framing of packets, one handshake attempt, the retry cycle with its backoff, the loop of
  one target and the one-shot run over all targets. What a socket delivers, the clock, random
  bytes and the run of \<open>param_command\<close> are in the record \<open>attempt_env\<close> and in arguments.
\<close>

subsection \<open>Targets\<close>

record server_target =
  t_name :: string
  t_server_id :: string
  t_server_addr :: string
  t_server_pub :: "bytes option"
  t_wire_encryption :: bool
  t_interval :: duration
  t_retry_initial :: duration
  t_retry_max :: duration
  t_retries :: nat
  t_param_command :: "string list option"
  t_param_command_timeout :: duration
  t_param_max_len :: nat

datatype client_error =
    InvalidPrivateKey crypto_error
  | InvalidClientId
  | InvalidServerKey string crypto_error
  | WireKeyMissing string
  | ParamKeyMissing string
  | ParamTooLong
  | ParamControlCharacters
  | ParamSpawnFailed
  | ParamWaitFailed
  | ParamTimedOut
  | ParamExited
  | ParamNotUtf8
  | SocketFailed
  | SealFailed crypto_error
  | ReplyTimedOut
  | ReplyNotAuthentic
  | MissingSessionSecret
  | ReplyMalformed protocol_error
  | NotAChallenge
  | ChallengeForOther
  | AllAttemptsFailed nat

definition resolve_target ::
  "primitives \<Rightarrow> string \<Rightarrow> string \<Rightarrow> string \<Rightarrow> string option \<Rightarrow> bool \<Rightarrow> nat \<Rightarrow> nat \<Rightarrow> nat \<Rightarrow> nat \<Rightarrow>
   string list option \<Rightarrow> nat \<Rightarrow> nat \<Rightarrow> (client_error, server_target) res" where
  "resolve_target P name server_id server_addr enc_key wire interval_seconds retry_initial_ms retry_max_ms
     retries param_command param_command_timeout_seconds param_max_len =
     res_bind (case enc_key of
         None \<Rightarrow> Inr None
       | Some b64 \<Rightarrow>
           (case x25519_from_base64 P b64 of Inl e \<Rightarrow> Inl (InvalidServerKey name e) | Inr k \<Rightarrow> Inr (Some k)))
     (\<lambda>server_pub.
     if wire \<and> server_pub = None then Inl (WireKeyMissing name)
     else if param_command \<noteq> None \<and> server_pub = None then Inl (ParamKeyMissing name)
     else Inr \<lparr>t_name = name, t_server_id = server_id, t_server_addr = server_addr, t_server_pub = server_pub,
       t_wire_encryption = wire, t_interval = from_secs interval_seconds,
       t_retry_initial = from_millis retry_initial_ms, t_retry_max = from_millis retry_max_ms,
       t_retries = retries, t_param_command = param_command,
       t_param_command_timeout = from_secs param_command_timeout_seconds, t_param_max_len = param_max_len\<rparr>)"

definition resolve_override ::
  "primitives \<Rightarrow> string \<Rightarrow> server_override \<Rightarrow> client_section \<Rightarrow> (client_error, server_target) res" where
  "resolve_override P name ov base =
     resolve_target P name (unwrap_or (so_server_id ov) name) (so_server_addr ov) (so_server_encryption_key ov)
       (unwrap_or (so_wire_encryption ov) (cs_wire_encryption base))
       (unwrap_or (so_interval_seconds ov) (cs_interval_seconds base))
       (unwrap_or (so_retry_initial_ms ov) (cs_retry_initial_ms base))
       (unwrap_or (so_retry_max_ms ov) (cs_retry_max_ms base))
       (unwrap_or (so_retries ov) (cs_retries base))
       (opt_or (so_param_command ov) (cs_param_command base))
       (unwrap_or (so_param_command_timeout_seconds ov) (cs_param_command_timeout_seconds base))
       (unwrap_or (so_param_max_len ov) (cs_param_max_len base))"

definition primary_target :: "primitives \<Rightarrow> client_section \<Rightarrow> (client_error, server_target) res" where
  "primary_target P c =
     resolve_target P (cs_server_id c) (cs_server_id c) (cs_server_addr c) (cs_server_encryption_key c)
       (cs_wire_encryption c) (cs_interval_seconds c) (cs_retry_initial_ms c) (cs_retry_max_ms c)
       (cs_retries c) (cs_param_command c) (cs_param_command_timeout_seconds c) (cs_param_max_len c)"

fun resolve_overrides ::
  "primitives \<Rightarrow> client_section \<Rightarrow> (string \<times> server_override) list \<Rightarrow> (client_error, server_target list) res" where
  "resolve_overrides P c [] = Inr []"
| "resolve_overrides P c ((label, ov) # rest) =
     res_bind (resolve_override P label ov c) (\<lambda>t.
     res_bind (resolve_overrides P c rest) (\<lambda>ts. Inr (t # ts)))"

text \<open>The status leg of one server; the text of \<open>last_result\<close> is a constructor here.\<close>

datatype leg_result = LegPending | LegOk | LegFailed client_error

record server_leg_status =
  leg_server_addr :: string
  leg_server_id :: string
  leg_interval_seconds :: nat
  leg_last_attempt :: "int option"
  leg_last_success :: "int option"
  leg_last_result :: leg_result

record client_status_snapshot =
  cst_started_at :: int
  cst_pid :: nat
  cst_servers :: "(string, server_leg_status) hmap"

definition pending_leg :: "server_target \<Rightarrow> server_leg_status" where
  "pending_leg t =
     \<lparr>leg_server_addr = t_server_addr t, leg_server_id = t_server_id t,
      leg_interval_seconds = as_secs (t_interval t), leg_last_attempt = None, leg_last_success = None,
      leg_last_result = LegPending\<rparr>"

definition seed_legs :: "server_target list \<Rightarrow> (string, server_leg_status) hmap" where
  "seed_legs ts = fold (\<lambda>t m. hm_put (t_name t) (pending_leg t) m) ts []"

record client =
  ct_signing_key :: bytes
  ct_client_id :: client_id
  ct_targets :: "server_target list"
  ct_status :: client_status_snapshot
  ct_bye_on_shutdown :: bool

definition client_from_config :: "primitives \<Rightarrow> int \<Rightarrow> nat \<Rightarrow> client_section \<Rightarrow> (client_error, client) res may_panic" where
  "client_from_config P now pid c =
     (case load_signing_key P (cs_private_key c) of
        Inl e \<Rightarrow> Returns (Inl (InvalidPrivateKey e))
      | Inr key \<Rightarrow>
          (case from_hex (cs_client_id c) of
             Panics \<Rightarrow> Panics
           | Returns (Inl _) \<Rightarrow> Returns (Inl InvalidClientId)
           | Returns (Inr cid) \<Rightarrow> Returns (
               res_bind (primary_target P c) (\<lambda>t.
               res_bind (resolve_overrides P c (cs_servers c)) (\<lambda>ts.
               Inr \<lparr>ct_signing_key = key, ct_client_id = cid, ct_targets = t # ts,
                    ct_status = \<lparr>cst_started_at = now, cst_pid = pid, cst_servers = seed_legs (t # ts)\<rparr>,
                    ct_bye_on_shutdown = cs_bye_on_shutdown c\<rparr>)))))"

subsection \<open>The parameter\<close>

definition validate_param :: "string \<Rightarrow> nat \<Rightarrow> (client_error, unit) res" where
  "validate_param v max_len =
     (if max_len < length v then Inl ParamTooLong
      else if has_control v then Inl ParamControlCharacters
      else Inr ())"

text \<open>
  How a run of \<open>param_command\<close> ends; \<open>ParamOutput\<close> is a run that exits with success. An empty
  argv, which validation excludes, makes \<open>argv[0]\<close> panic.
\<close>

datatype param_run = SpawnError | WaitError | RunTimeout | RunFailure | ParamOutput bytes

definition param_of_output :: "bytes \<Rightarrow> nat \<Rightarrow> (client_error, string option) res" where
  "param_of_output out max_len =
     (let text = bytes_str out in
      if \<not> valid_utf8 text then Inl ParamNotUtf8
      else let trimmed = trim text
           in res_bind (validate_param trimmed max_len) (\<lambda>_. Inr (Some trimmed)))"

definition generate_param :: "param_run \<Rightarrow> server_target \<Rightarrow> (client_error, string option) res may_panic" where
  "generate_param run t =
     (case t_param_command t of
        None \<Rightarrow> Returns (Inr None)
      | Some [] \<Rightarrow> Panics
      | Some (program # args) \<Rightarrow> Returns
          (case run of
             SpawnError \<Rightarrow> Inl ParamSpawnFailed
           | WaitError \<Rightarrow> Inl ParamWaitFailed
           | RunTimeout \<Rightarrow> Inl ParamTimedOut
           | RunFailure \<Rightarrow> Inl ParamExited
           | ParamOutput out \<Rightarrow> param_of_output out (t_param_max_len t)))"

subsection \<open>Framing\<close>

definition frame_outbound ::
  "primitives \<Rightarrow> bytes \<Rightarrow> bytes \<Rightarrow> server_target \<Rightarrow> bytes \<Rightarrow> (client_error, bytes \<times> bytes option) res" where
  "frame_outbound P eph xnonce t packet_bytes =
     (if \<not> t_wire_encryption t then Inr (packet_bytes, None)
      else case t_server_pub t of
        None \<Rightarrow> Inl (WireKeyMissing (t_name t))
      | Some server_pub \<Rightarrow>
          (case seal P eph xnonce server_pub packet_bytes CTX_WIRE of
             Inl e \<Rightarrow> Inl (SealFailed e)
           | Inr (blob, eph_secret) \<Rightarrow> Inr (blob, Some eph_secret)))"

definition unframe_inbound ::
  "primitives \<Rightarrow> server_target \<Rightarrow> bytes \<Rightarrow> bytes option \<Rightarrow> bytes \<Rightarrow> (client_error, bytes) res" where
  "unframe_inbound P t datagram session bind =
     (if \<not> t_wire_encryption t then Inr datagram
      else case session of
        None \<Rightarrow> Inl MissingSessionSecret
      | Some secret \<Rightarrow>
          (case t_server_pub t of
             None \<Rightarrow> Inl (WireKeyMissing (t_name t))
           | Some server_pub \<Rightarrow>
               (case open_reply P secret server_pub datagram bind of
                  Inl _ \<Rightarrow> Inl ReplyNotAuthentic
                | Inr m \<Rightarrow> Inr m)))"

definition seal_param :: "primitives \<Rightarrow> bytes \<Rightarrow> bytes \<Rightarrow> server_target \<Rightarrow> string \<Rightarrow> (client_error, bytes) res" where
  "seal_param P eph xnonce t plaintext =
     (case t_server_pub t of
        None \<Rightarrow> Inl (ParamKeyMissing (t_name t))
      | Some server_pub \<Rightarrow>
          (case seal P eph xnonce server_pub (str_bytes plaintext) CTX_PARAM of
             Inl e \<Rightarrow> Inl (SealFailed e)
           | Inr (blob, _) \<Rightarrow> Inr blob))"

subsection \<open>One attempt\<close>

datatype mode = Renew | Release

text \<open>What the socket delivers within the attempt's timeout.\<close>

datatype reception = Received bytes | RecvError | NothingInTime

record attempt_env =
  a_unix :: int
  a_random :: bytes
  a_eph_hello :: bytes
  a_xn_hello :: bytes
  a_eph_param :: bytes
  a_xn_param :: bytes
  a_eph_final :: bytes
  a_xn_final :: bytes
  a_reply :: reception
  a_send_hello_ok :: bool
  a_send_final_ok :: bool

definition build_hello :: "primitives \<Rightarrow> client \<Rightarrow> server_target \<Rightarrow> int \<Rightarrow> bytes \<Rightarrow> packet" where
  "build_hello P c t timestamp hello_nonce =
     Hello \<lparr>h_client_id = ct_client_id c, h_timestamp = timestamp, h_nonce = hello_nonce,
       h_signature = sign_payload_raw P (ct_signing_key c)
         (hello_signing_payload (t_server_id t) (to_hex (ct_client_id c)) timestamp (b64_encode P hello_nonce))\<rparr>"

text \<open>\<open>Duration::as_secs\<close> of the interval, cut to 32 bits.\<close>

definition advertised_interval :: "server_target \<Rightarrow> nat" where
  "advertised_interval t = min (as_secs (t_interval t)) u32_max"

definition build_final :: "primitives \<Rightarrow> client \<Rightarrow> server_target \<Rightarrow> mode \<Rightarrow> challenge \<Rightarrow> bytes option \<Rightarrow> packet" where
  "build_final P c t mode ch param =
     (let param_b64 = (case param of Some b \<Rightarrow> b64_encode P b | None \<Rightarrow> []);
          interval = advertised_interval t;
          nonce_b64 = b64_encode P (c_nonce ch);
          hex = to_hex (ct_client_id c)
      in case mode of
           Renew \<Rightarrow> Response \<lparr>r_client_id = ct_client_id c, r_nonce = c_nonce ch, r_interval = interval, r_param = param,
             r_signature = sign_payload_raw P (ct_signing_key c)
               (response_signing_payload (t_server_id t) hex nonce_b64 interval (c_expires_at ch) param_b64)\<rparr>
         | Release \<Rightarrow> Bye \<lparr>b_client_id = ct_client_id c, b_nonce = c_nonce ch, b_interval = interval, b_param = param,
             b_signature = sign_payload_raw P (ct_signing_key c)
               (bye_signing_payload (t_server_id t) hex nonce_b64 interval (c_expires_at ch) param_b64)\<rparr>)"

text \<open>Steps 1 and 2: the HELLO, its datagram, and what is kept to open the reply.\<close>

definition attempt_hello ::
  "primitives \<Rightarrow> client \<Rightarrow> server_target \<Rightarrow> attempt_env \<Rightarrow> (client_error, bytes \<times> bytes option \<times> bytes) res" where
  "attempt_hello P c t A =
     (let hello_nonce = take 16 (a_random A) in
      res_bind (frame_outbound P (a_eph_hello A) (a_xn_hello A) t
                  (encode (build_hello P c t (a_unix A) hello_nonce))) (\<lambda>(d, session). Inr (d, session, hello_nonce)))"

text \<open>Step 3: the reply is opened, decoded and checked.\<close>

definition read_challenge ::
  "primitives \<Rightarrow> client \<Rightarrow> server_target \<Rightarrow> bytes option \<Rightarrow> bytes \<Rightarrow> bytes \<Rightarrow> (client_error, challenge) res" where
  "read_challenge P c t session hello_nonce datagram =
     res_bind (unframe_inbound P t datagram session hello_nonce) (\<lambda>bs.
     case decode bs of
       Inl e \<Rightarrow> Inl (ReplyMalformed e)
     | Inr (Challenge ch) \<Rightarrow>
         if c_client_id ch \<noteq> ct_client_id c then Inl ChallengeForOther else Inr ch
     | Inr _ \<Rightarrow> Inl NotAChallenge)"

text \<open>Steps 4 to 6: the final packet's datagram.\<close>

definition attempt_final ::
  "primitives \<Rightarrow> client \<Rightarrow> server_target \<Rightarrow> attempt_env \<Rightarrow> string option \<Rightarrow> mode \<Rightarrow> challenge \<Rightarrow> (client_error, bytes) res" where
  "attempt_final P c t A param mode ch =
     res_bind (case param of
         None \<Rightarrow> Inr None
       | Some p \<Rightarrow> res_bind (seal_param P (a_eph_param A) (a_xn_param A) t p) (\<lambda>b. Inr (Some b))) (\<lambda>blob.
     res_bind (frame_outbound P (a_eph_final A) (a_xn_final A) t (encode (build_final P c t mode ch blob))) (\<lambda>(d, _).
     Inr d))"

text \<open>The whole attempt: the datagrams it sent, and how it ended. The receive buffer has 2048 bytes.\<close>

definition attempt_once ::
  "primitives \<Rightarrow> client \<Rightarrow> server_target \<Rightarrow> attempt_env \<Rightarrow> string option \<Rightarrow> mode \<Rightarrow> bytes list \<times> (client_error, unit) res" where
  "attempt_once P c t A param mode =
     (case attempt_hello P c t A of
        Inl e \<Rightarrow> ([], Inl e)
      | Inr (d, session, hello_nonce) \<Rightarrow>
          if \<not> a_send_hello_ok A then ([], Inl SocketFailed)
          else (case a_reply A of
             RecvError \<Rightarrow> ([d], Inl SocketFailed)
           | NothingInTime \<Rightarrow> ([d], Inl ReplyTimedOut)
           | Received reply \<Rightarrow>
               (case res_bind (read_challenge P c t session hello_nonce (take 2048 reply))
                       (attempt_final P c t A param mode) of
                  Inl e \<Rightarrow> ([d], Inl e)
                | Inr f \<Rightarrow> if a_send_final_ok A then ([d, f], Inr ()) else ([d], Inl SocketFailed))))"

subsection \<open>The retry cycle\<close>

definition duration_max :: duration where
  "duration_max = u64_max * 1000000000 + 999999999"

definition backoff :: "server_target \<Rightarrow> nat \<Rightarrow> duration" where
  "backoff t k = min (min (t_retry_initial t * 2 ^ min (k - 1) 31) duration_max) (t_retry_max t)"

text \<open>
  The loop from attempt \<open>k\<close> with \<open>n\<close> attempts left: the timeout of each attempt made, with the
  datagrams it sent, and whether one succeeded.
\<close>

fun attempts_loop ::
  "primitives \<Rightarrow> client \<Rightarrow> server_target \<Rightarrow> (nat \<Rightarrow> attempt_env) \<Rightarrow> string option \<Rightarrow> mode \<Rightarrow> nat \<Rightarrow> nat \<Rightarrow>
   (duration \<times> bytes list) list \<times> bool" where
  "attempts_loop P c t A param mode k 0 = ([], False)"
| "attempts_loop P c t A param mode k (Suc n) =
     (case attempt_once P c t (A k) param mode of
        (ds, Inr _) \<Rightarrow> ([(backoff t k, ds)], True)
      | (ds, Inl _) \<Rightarrow>
          (let (rest, ok) = attempts_loop P c t A param mode (Suc k) n in ((backoff t k, ds) # rest, ok)))"

definition cycle_param ::
  "param_run \<Rightarrow> server_target \<Rightarrow> mode \<Rightarrow> string option \<Rightarrow> (client_error, string option) res may_panic" where
  "cycle_param run t mode override =
     (case override of
        Some p \<Rightarrow> Returns (res_bind (validate_param p (t_param_max_len t)) (\<lambda>_. Inr (Some p)))
      | None \<Rightarrow> (case mode of Renew \<Rightarrow> generate_param run t | Release \<Rightarrow> Returns (Inr None)))"

definition run_cycle ::
  "primitives \<Rightarrow> client \<Rightarrow> server_target \<Rightarrow> param_run \<Rightarrow> bool \<Rightarrow> (nat \<Rightarrow> attempt_env) \<Rightarrow> nat \<Rightarrow> mode \<Rightarrow> string option \<Rightarrow>
   ((duration \<times> bytes list) list \<times> (client_error, unit) res) may_panic" where
  "run_cycle P c t run socket_ok A max_attempts mode override =
     (case cycle_param run t mode override of
        Panics \<Rightarrow> Panics
      | Returns (Inl e) \<Rightarrow> Returns ([], Inl e)
      | Returns (Inr param) \<Rightarrow> Returns
          (if \<not> socket_ok then ([], Inl SocketFailed)
           else
             let attempts = max max_attempts 1;
                 (log, ok) = attempts_loop P c t A param mode 1 attempts
             in (log, if ok then Inr () else Inl (AllAttemptsFailed attempts))))"

subsection \<open>The loop of a target\<close>

text \<open>
  What the world gives to one cycle of a target: how \<open>param_command\<close> ends, whether the socket can
  be bound and connected, and the attempts.
\<close>

record cycle_env =
  y_run :: param_run
  y_socket :: bool
  y_attempts :: "nat \<Rightarrow> attempt_env"

definition cycle ::
  "primitives \<Rightarrow> client \<Rightarrow> server_target \<Rightarrow> cycle_env \<Rightarrow> nat \<Rightarrow> mode \<Rightarrow> string option \<Rightarrow> (client_error, unit) res may_panic" where
  "cycle P c t Y n mode override =
     (case run_cycle P c t (y_run Y) (y_socket Y) (y_attempts Y) n mode override of
        Panics \<Rightarrow> Panics
      | Returns (_, r) \<Rightarrow> Returns r)"

definition with_leg ::
  "string \<Rightarrow> (server_leg_status \<Rightarrow> server_leg_status) \<Rightarrow> client_status_snapshot \<Rightarrow> client_status_snapshot" where
  "with_leg name f s =
     (case map_of (cst_servers s) name of
        None \<Rightarrow> s
      | Some leg \<Rightarrow> s\<lparr>cst_servers := hm_put name (f leg) (cst_servers s)\<rparr>)"

definition end_round :: "int \<Rightarrow> (client_error, unit) res \<Rightarrow> server_leg_status \<Rightarrow> server_leg_status" where
  "end_round now result leg =
     (case result of
        Inr _ \<Rightarrow> leg\<lparr>leg_last_success := Some now, leg_last_result := LegOk\<rparr>
      | Inl e \<Rightarrow> leg\<lparr>leg_last_result := LegFailed e\<rparr>)"

text \<open>One round of \<open>run_loop\<close>, with the time at its start; the loop then sleeps for the interval.\<close>

definition loop_round ::
  "primitives \<Rightarrow> client \<Rightarrow> server_target \<Rightarrow> int \<Rightarrow> cycle_env \<Rightarrow> client_status_snapshot \<Rightarrow> client_status_snapshot may_panic" where
  "loop_round P c t now Y s =
     (let s = with_leg (t_name t) (\<lambda>leg. leg\<lparr>leg_last_attempt := Some now\<rparr>) s in
      case cycle P c t Y (t_retries t) Renew None of
        Panics \<Rightarrow> Panics
      | Returns result \<Rightarrow> Returns (with_leg (t_name t) (end_round now result) s))"

subsection \<open>Runs over all targets\<close>

definition attempts_for :: "bool \<Rightarrow> server_target \<Rightarrow> nat" where
  "attempts_for retry t = (if retry then max (t_retries t) 1 else 1)"

text \<open>The loop of \<open>run_targets\<close>: the targets that failed, in order.\<close>

fun failures ::
  "primitives \<Rightarrow> client \<Rightarrow> (server_target \<Rightarrow> cycle_env) \<Rightarrow> mode \<Rightarrow> bool \<Rightarrow> string option \<Rightarrow> server_target list \<Rightarrow>
   server_target list may_panic" where
  "failures P c W mode retry override [] = Returns []"
| "failures P c W mode retry override (t # ts) =
     (case cycle P c t (W t) (attempts_for retry t) mode override of
        Panics \<Rightarrow> Panics
      | Returns r \<Rightarrow>
          (case failures P c W mode retry override ts of
             Panics \<Rightarrow> Panics
           | Returns fs \<Rightarrow> Returns (case r of Inr _ \<Rightarrow> fs | Inl _ \<Rightarrow> t # fs)))"

definition run_targets ::
  "primitives \<Rightarrow> client \<Rightarrow> (server_target \<Rightarrow> cycle_env) \<Rightarrow> mode \<Rightarrow> bool \<Rightarrow> string option \<Rightarrow> (nat, unit) res may_panic" where
  "run_targets P c W mode retry override =
     (case failures P c W mode retry override (ct_targets c) of
        Panics \<Rightarrow> Panics
      | Returns fs \<Rightarrow> Returns (if 0 < length fs then Inl (length fs) else Inr ()))"

definition run_once ::
  "primitives \<Rightarrow> client \<Rightarrow> (server_target \<Rightarrow> cycle_env) \<Rightarrow> bool \<Rightarrow> string option \<Rightarrow> (nat, unit) res may_panic" where
  "run_once P c W retry override = run_targets P c W Renew retry override"

definition release_all ::
  "primitives \<Rightarrow> client \<Rightarrow> (server_target \<Rightarrow> cycle_env) \<Rightarrow> string option \<Rightarrow> (nat, unit) res may_panic" where
  "release_all P c W override = run_targets P c W Release False override"

text \<open>\<open>send_bye_all\<close>: one attempt per target, failures logged only; the targets reached.\<close>

fun send_bye_all ::
  "primitives \<Rightarrow> client \<Rightarrow> (server_target \<Rightarrow> cycle_env) \<Rightarrow> server_target list \<Rightarrow> server_target list may_panic" where
  "send_bye_all P c W [] = Returns []"
| "send_bye_all P c W (t # ts) =
     (case cycle P c t (W t) 1 Release None of
        Panics \<Rightarrow> Panics
      | Returns r \<Rightarrow>
          (case send_bye_all P c W ts of
             Panics \<Rightarrow> Panics
           | Returns rs \<Rightarrow> Returns (case r of Inr _ \<Rightarrow> t # rs | Inl _ \<Rightarrow> rs)))"

text \<open>
  The select loop of \<open>run_forever\<close> over the events that end or do not end it; \<open>None\<close> is a run that
  has seen no ending yet. The result is the error it bails out with, or the targets to which a BYE
  was sent.
\<close>

datatype forever_event = ShutdownSignal | DumpRequest | LegExited string | LegPanicked | NoLegs

datatype forever_error = LegStopped string | LegPanic | NoLegsRunning

fun run_forever ::
  "primitives \<Rightarrow> client \<Rightarrow> (server_target \<Rightarrow> cycle_env) \<Rightarrow> forever_event list \<Rightarrow>
   (forever_error, server_target list) res may_panic option" where
  "run_forever P c W [] = None"
| "run_forever P c W (DumpRequest # es) = run_forever P c W es"
| "run_forever P c W (LegExited name # es) = Some (Returns (Inl (LegStopped name)))"
| "run_forever P c W (LegPanicked # es) = Some (Returns (Inl LegPanic))"
| "run_forever P c W (NoLegs # es) = Some (Returns (Inl NoLegsRunning))"
| "run_forever P c W (ShutdownSignal # es) = Some
     (if ct_bye_on_shutdown c
      then (case send_bye_all P c W (ct_targets c) of Panics \<Rightarrow> Panics | Returns rs \<Rightarrow> Returns (Inr rs))
      else Returns (Inr []))"

end
