(* ===== verification/Handshake.thy ===== *)
theory Handshake
  imports Server_Properties Client
begin

text \<open>
  The two programs together: a client's attempt against the server's handlers. The packets that
  one side frames are opened by the other, the server's reply is accepted by the client that
  asked, and the final packet passes every check of the server. The network is a function: it
  delivers the datagram that was sent.
\<close>

subsection \<open>A client and a server that know each other\<close>

definition contributory_with :: "primitives \<Rightarrow> bytes \<Rightarrow> bytes \<Rightarrow> bool" where
  "contributory_with P secret eph \<longleftrightarrow> length eph = X25519_KEY_LEN \<and> x_contributory P (x_dh P secret (x_public P eph))"

definition pinned :: "primitives \<Rightarrow> server_target \<Rightarrow> server \<Rightarrow> bytes \<Rightarrow> bool" where
  "pinned P t s secret \<longleftrightarrow> sv_secret s = Some secret \<and> length secret = X25519_KEY_LEN \<and>
     t_server_pub t = Some (x_public P secret)"

definition paired :: "primitives \<Rightarrow> client \<Rightarrow> server_target \<Rightarrow> client_info \<Rightarrow> bytes \<Rightarrow> server \<Rightarrow> bool" where
  "paired P c t info secret s \<longleftrightarrow>
     wf_client_id (ct_client_id c) \<and> key_signs P (ct_signing_key c) \<and>
     map_of (sv_clients s) (ct_client_id c) = Some info \<and>
     ci_verifying_key info = ed_public P (ct_signing_key c) \<and>
     t_server_id t = ss_server_id (sc_server (sv_config s)) \<and>
     (t_wire_encryption t \<longleftrightarrow> ss_wire_encryption (sc_server (sv_config s)) = Required) \<and>
     pinned P t s secret"

definition lawful :: "primitives \<Rightarrow> bool" where
  "lawful P \<longleftrightarrow> box_laws P \<and> aead_total P \<and> b64_faithful P"

text \<open>The random draws of an attempt have the lengths the code asks for; its clock is an \<open>i64\<close>.\<close>

definition well_drawn :: "primitives \<Rightarrow> bytes \<Rightarrow> attempt_env \<Rightarrow> bool" where
  "well_drawn P secret A \<longleftrightarrow>
     HELLO_NONCE_LEN \<le> length (a_random A) \<and> in_i64 (a_unix A) \<and>
     contributory_with P secret (a_eph_hello A) \<and> length (a_xn_hello A) = XNONCE_LEN \<and>
     contributory_with P secret (a_eph_param A) \<and> length (a_xn_param A) = XNONCE_LEN \<and>
     contributory_with P secret (a_eph_final A) \<and> length (a_xn_final A) = XNONCE_LEN"

definition reply_mode_of :: "primitives \<Rightarrow> server_target \<Rightarrow> bytes \<Rightarrow> reply_mode" where
  "reply_mode_of P t eph = (if t_wire_encryption t then Sealed (x_public P eph) else Cleartext)"

definition session_of :: "server_target \<Rightarrow> bytes \<Rightarrow> bytes option" where
  "session_of t eph = (if t_wire_encryption t then Some eph else None)"

subsection \<open>Frames\<close>

lemma seal_succeeds:
  assumes "lawful P" and "contributory_with P secret eph" and "length secret = X25519_KEY_LEN"
    and "length xn = XNONCE_LEN" and "length m < 2 ^ 32"
  obtains blob where "seal P eph xn (x_public P secret) m ctx = Inr (blob, eph)"
    "length blob = length m + 72" "open_box P secret blob ctx = Inr (m, x_public P eph)"
proof -
  have laws: "box_laws P" "aead_total P" using assms(1) by (simp_all add: lawful_def)
  have contr: "x_contributory P (x_dh P eph (x_public P secret))" and len: "length eph = X25519_KEY_LEN"
    using assms(2) dh_commutes [OF laws(1) _ assms(3), of eph] by (simp_all add: contributory_with_def)
  obtain c where c: "cipher_encrypt P (derive_key P (x_dh P eph (x_public P secret)) (x_public P eph)
      (x_public P secret) ctx) xn ctx m = Inr c" "length c = length m + 16"
    using cipher_encrypt_total [OF laws(2) derive_key_length [OF laws(1)] assms(4,5)] by blast
  let ?blob = "x_public P eph @ xn @ c"
  have s: "seal P eph xn (x_public P secret) m ctx = Inr (?blob, eph)"
    using c contr by (auto simp: seal_cases)
  moreover have "length ?blob = length m + 72"
    using c len assms(4) x_public_length [OF laws(1) len] by (simp add: crypto_consts)
  moreover have "open_box P secret ?blob ctx = Inr (m, x_public P eph)"
    using open_box_exact [OF laws(1) assms(3) len] s assms(4) by blast
  ultimately show thesis by (rule that)
qed

lemma frame_succeeds:
  assumes "lawful P" and "paired P c t info secret s" and "contributory_with P secret eph"
    and "length xn = XNONCE_LEN" and "length bs < 2 ^ 32"
  obtains d where "frame_outbound P eph xn t bs = Inr (d, session_of t eph)" "length d \<le> length bs + 72"
    "opened P d s = Some (bs, reply_mode_of P t eph)"
proof (cases "t_wire_encryption t")
  case False
  with assms(2) have "ss_wire_encryption (sc_server (sv_config s)) = Off"
    by (cases "ss_wire_encryption (sc_server (sv_config s))") (simp_all add: paired_def)
  with False show thesis
    by (intro that [of bs]) (simp_all add: frame_outbound_def session_of_def reply_mode_of_def opened_def)
next
  case True
  have p: "sv_secret s = Some secret" "length secret = X25519_KEY_LEN" "t_server_pub t = Some (x_public P secret)"
    "ss_wire_encryption (sc_server (sv_config s)) = Required"
    using assms(2) True by (simp_all add: paired_def pinned_def)
  obtain blob where "seal P eph xn (x_public P secret) bs CTX_WIRE = Inr (blob, eph)"
      "length blob = length bs + 72" "open_box P secret blob CTX_WIRE = Inr (bs, x_public P eph)"
    using seal_succeeds [OF assms(1,3) p(2) assms(4,5), of CTX_WIRE] by blast
  with p True show thesis
    by (intro that [of blob]) (simp_all add: frame_outbound_def session_of_def reply_mode_of_def opened_def)
qed

text \<open>The reply that the server frames for a HELLO is opened by the client that sent it.\<close>

lemma reply_succeeds:
  assumes "lawful P" and "paired P c t info secret s" and "contributory_with P secret eph"
    and "length (e_xnonce E) = XNONCE_LEN" and "e_send_ok E" and "length (encode p) < 2 ^ 32"
  obtains d where "send_reply P E p peer (reply_mode_of P t eph) bind s = ([Sent peer d], True)"
    "length d \<le> length (encode p) + 40" "unframe_inbound P t d (session_of t eph) bind = Inr (encode p)"
proof (cases "t_wire_encryption t")
  case False
  with assms(5) show thesis
    by (intro that [of "encode p"]) (simp_all add: send_reply_def reply_mode_of_def unframe_inbound_def)
next
  case True
  have laws: "box_laws P" "aead_total P" using assms(1) by (simp_all add: lawful_def)
  have k: "sv_secret s = Some secret" "length secret = X25519_KEY_LEN" "t_server_pub t = Some (x_public P secret)"
    using assms(2) by (simp_all add: paired_def pinned_def)
  have e: "length eph = X25519_KEY_LEN" "x_contributory P (x_dh P secret (x_public P eph))"
    using assms(3) by (simp_all add: contributory_with_def)
  let ?k = "derive_key P (x_dh P secret (x_public P eph)) (x_public P secret) (x_public P eph) CTX_REPLY"
  obtain x where x: "cipher_encrypt P ?k (e_xnonce E) (reply_aad bind) (encode p) = Inr x"
      "length x = length (encode p) + 16"
    using cipher_encrypt_total [OF laws(2) derive_key_length [OF laws(1)] assms(4,6)] by blast
  let ?d = "e_xnonce E @ x"
  have s: "seal_reply P (e_xnonce E) secret (x_public P eph) (encode p) bind = Inr ?d"
    using x e by (simp add: seal_reply_def Let_def)
  then have "open_reply P eph (x_public P secret) ?d bind = Inr (encode p)"
    using open_reply_exact [OF laws(1) k(2) e(1), of ?d bind "encode p"] assms(4) by blast
  with s k True x assms(4,5) show thesis
    by (intro that [of ?d])
       (simp_all add: send_reply_def reply_mode_of_def unframe_inbound_def session_of_def XNONCE_LEN_def)
qed

subsection \<open>HELLO and its reply\<close>

definition admits :: "env \<Rightarrow> nat \<Rightarrow> ip_addr \<Rightarrow> server \<Rightarrow> bool" where
  "admits E len ip s \<longleftrightarrow>
     len \<le> ss_max_packet_size (sc_server (sv_config s)) \<and> \<not> is_blocked ip (inst_at E AtGate) (sv_blacklist s) \<and>
     (under_attack (inst_at E AtLockdown) (sv_blacklist s) \<longrightarrow> is_active_at ip (inst_at E AtActive) (sv_active s)) \<and>
     e_permit E"

definition welcomes :: "env \<Rightarrow> hello \<Rightarrow> peer \<Rightarrow> server \<Rightarrow> bool" where
  "welcomes E h peer s \<longleftrightarrow> snd (check_at (fst peer) (inst_at E AtRate) (sv_limiter s)) \<and>
     \<bar>time_at E AtFresh - h_timestamp h\<bar> \<le> int (skew_of s) \<and> snd (seen_by E h s)"

definition hello_of :: "primitives \<Rightarrow> client \<Rightarrow> server_target \<Rightarrow> attempt_env \<Rightarrow> hello" where
  "hello_of P c t A =
     \<lparr>h_client_id = ct_client_id c, h_timestamp = a_unix A, h_nonce = take 16 (a_random A),
      h_signature = sign_payload_raw P (ct_signing_key c)
        (hello_signing_payload (t_server_id t) (to_hex (ct_client_id c)) (a_unix A) (b64_encode P (take 16 (a_random A))))\<rparr>"

lemma receive_admitted:
  assumes "admits E (length data) (fst peer) s"
  obtains l where "receive P E data peer s = handle_datagram P E data peer (s\<lparr>sv_lockdown_logged := l\<rparr>)"
proof (rule that [of "under_attack (inst_at E AtLockdown) (sv_blacklist s)"])
  show "receive P E data peer s = handle_datagram P E data peer
      (s\<lparr>sv_lockdown_logged := under_attack (inst_at E AtLockdown) (sv_blacklist s)\<rparr>)"
    using assms by (cases "under_attack (inst_at E AtLockdown) (sv_blacklist s)")
      (simp_all add: receive_def gate_def admits_def Let_def)
qed

lemma handle_read:
  assumes "read_packet P data s = Some (p, reply)"
  shows "handle_datagram P E data peer s = (case p of
      Hello h \<Rightarrow> handle_hello P E h peer reply s
    | Response r \<Rightarrow> handle_response P E r peer s
    | Bye b \<Rightarrow> handle_bye P E b peer s
    | Challenge c \<Rightarrow> (UnexpectedChallenge, [], note_rejected E False s))"
  using assms by (cases rule: datagram_cases [of P E data peer s]) auto

lemma decode_encode: "wf_packet p \<Longrightarrow> decode (encode p) = Inr p"
  by (simp add: decode_iff)

lemma admits_mono: "admits E n ip s \<Longrightarrow> m \<le> n \<Longrightarrow> admits E m ip s"
  by (simp add: admits_def)

lemma hello_welcomed:
  assumes "map_of (sv_clients s) (h_client_id h) = Some info"
    and "ed_verify_strict P (ci_verifying_key info) (hello_payload P h s) (h_signature h)"
    and "welcomes E h peer s"
  shows "handle_hello P E h peer reply s =
    (let (out, effs, s') = accept_hello P E h peer reply (time_at E AtFresh)
           ((counted E peer s)\<lparr>sv_seen := fst (seen_by E h s)\<rparr>)
     in (out, SigCheck (ci_verifying_key info) (hello_payload P h s) (h_signature h) # effs, s'))"
proof -
  obtain l where c: "check_at (fst peer) (inst_at E AtRate) (sv_limiter s) = (l, True)"
    using assms(3) by (metis welcomes_def prod.collapse)
  then have cs: "s\<lparr>sv_limiter := l\<rparr> = counted E peer s" by (simp add: counted_def)
  obtain sn where sn: "seen_by E h s = (sn, True)" using assms(3) by (metis welcomes_def prod.collapse)
  note sn' = sn [unfolded seen_by_def skew_of_def]
  have "\<not> int (skew_of s) < \<bar>time_at E AtFresh - h_timestamp h\<bar>" using assms(3) by (simp add: welcomes_def)
  with assms(1,2) show ?thesis
    by (simp add: handle_hello_def c cs Let_def verify_payload_raw_def skew_of_def sn sn')
qed

lemma length_encode_hello: "wf_packet (Hello h) \<Longrightarrow> length (encode (Hello h)) = 122"
  by (simp add: header_def wf_client_id_def CLIENT_ID_LEN_def HELLO_NONCE_LEN_def SIG_LEN_def)

lemma length_encode_challenge: "wf_packet (Challenge ch) \<Longrightarrow> length (encode (Challenge ch)) = 74"
  by (simp add: header_def wf_client_id_def CLIENT_ID_LEN_def CHALLENGE_NONCE_LEN_def)

lemma expiry_in_i64: "in_i64 (min (time_at E k + int n) i64_max)"
proof -
  have "0 \<le> x mod 2 ^ 64" for x :: int by simp
  then have "- (2 ^ 63) \<le> time_at E k" by (auto simp: time_at_def now_unix_def Let_def)
  then show ?thesis by (simp add: in_i64_def i64_min_def i64_max_def)
qed

lemma time_at_le: "time_at E k \<le> i64_max"
proof -
  have "x mod 2 ^ 64 < 2 ^ 64" for x :: int by simp
  then show ?thesis by (auto simp: time_at_def now_unix_def Let_def i64_max_def)
qed

lemma accept_hello_sent:
  assumes "send_reply P E (challenge_for E h now s) peer reply (h_nonce h) s = ([Sent peer d], True)"
  shows "accept_hello P E h peer reply now s = (ChallengeIssued, [Sent peer d],
    (issue E h peer now s)\<lparr>sv_status := (sv_status s)\<lparr>st_hello_accepted := st_hello_accepted (sv_status s) + 1\<rparr>\<rparr>)"
proof -
  have "send_reply P E (challenge_for E h now s) peer reply (h_nonce h) (issue E h peer now s) = ([Sent peer d], True)"
    using assms by (cases reply) (simp_all add: send_reply_def issue_def)
  then show ?thesis by (simp add: accept_hello_def issue_def challenge_for_def Let_def)
qed

text \<open>The challenge that a server gives to a HELLO, and the state in which it is left.\<close>

definition challenge_of :: "env \<Rightarrow> client \<Rightarrow> server \<Rightarrow> challenge" where
  "challenge_of E c s = \<lparr>c_client_id = ct_client_id c, c_nonce = e_nonce E,
     c_expires_at = min (time_at E AtFresh + int (ss_nonce_ttl_seconds (sc_server (sv_config s)))) i64_max\<rparr>"

definition entry_of :: "env \<Rightarrow> client \<Rightarrow> peer \<Rightarrow> server \<Rightarrow> nonce_entry" where
  "entry_of E c peer s = \<lparr>ne_client_id = to_hex (ct_client_id c), ne_source_ip = fst peer, ne_source_port = snd peer,
     ne_created_at_unix = time_at E AtInsert, ne_expires_at_unix = c_expires_at (challenge_of E c s), ne_used = False\<rparr>"

lemma paired_cong:
  "sv_clients s' = sv_clients s \<Longrightarrow> sv_config s' = sv_config s \<Longrightarrow> sv_secret s' = sv_secret s \<Longrightarrow>
   paired P c t info secret s' = paired P c t info secret s"
  by (simp add: paired_def pinned_def)

lemma paired_signs:
  assumes "paired P c t info secret s"
  shows "ed_verify_strict P (ci_verifying_key info) m (sign_payload_raw P (ct_signing_key c) m)"
    and "length (sign_payload_raw P (ct_signing_key c) m) = SIG_LEN"
  using assms by (simp_all add: paired_def key_signs_def sign_payload_raw_def SIGNATURE_LENGTH_def SIG_LEN_def)

lemma hello_answered:
  assumes P: "lawful P" and pr: "paired P c t info secret s" and A: "well_drawn P secret A"
    and E: "length (e_nonce E) = CHALLENGE_NONCE_LEN" "length (e_xnonce E) = XNONCE_LEN" "e_send_ok E"
    and adm: "admits E 194 (fst peer) s" and w: "welcomes E (hello_of P c t A) peer s"
  obtains d reply sig s1 where
    "attempt_hello P c t A = Inr (d, session_of t (a_eph_hello A), take 16 (a_random A))"
    "receive P E d peer s = (ChallengeIssued, [sig, Sent peer reply], s1)"
    "\<exists>k m. sig = SigCheck k m (h_signature (hello_of P c t A))"
    "read_challenge P c t (session_of t (a_eph_hello A)) (take 16 (a_random A)) (take 2048 reply) =
       Inr (challenge_of E c s)"
    "map_of (sv_nonces s1) (e_nonce E) = Some (entry_of E c peer s)" "same_setup s s1"
    "sv_cooldown s1 = sv_cooldown s" "sv_leases s1 = sv_leases s" "sv_blacklist s1 = sv_blacklist s"
proof -
  let ?h = "hello_of P c t A" and ?eph = "a_eph_hello A" and ?ch = "challenge_of E c s"
  have wf: "wf_packet (Hello ?h)"
    using pr A paired_signs [OF pr]
    by (simp add: hello_of_def paired_def well_drawn_def HELLO_NONCE_LEN_def)
  have bh: "build_hello P c t (a_unix A) (take 16 (a_random A)) = Hello ?h"
    by (simp add: build_hello_def hello_of_def)
  have len: "length (encode (Hello ?h)) = 122" by (rule length_encode_hello [OF wf])
  have eph: "contributory_with P secret ?eph" "length (a_xn_hello A) = XNONCE_LEN"
    using A by (simp_all add: well_drawn_def)
  have lt: "length (encode (Hello ?h)) < 2 ^ 32" unfolding len by simp
  obtain d where d: "frame_outbound P ?eph (a_xn_hello A) t (encode (Hello ?h)) = Inr (d, session_of t ?eph)"
      "length d \<le> length (encode (Hello ?h)) + 72" "opened P d s = Some (encode (Hello ?h), reply_mode_of P t ?eph)"
    by (rule frame_succeeds [OF P pr eph lt])
  have ah: "attempt_hello P c t A = Inr (d, session_of t ?eph, take 16 (a_random A))"
    using d(1) by (simp add: attempt_hello_def bh del: encode.simps)
  have rd: "read_packet P d s = Some (Hello ?h, reply_mode_of P t ?eph)"
    using d(3) decode_encode [OF wf] by (simp add: read_packet_def del: encode.simps)
  have "length d \<le> 194" using d(2) unfolding len by simp
  then obtain l where l: "receive P E d peer s = handle_datagram P E d peer (s\<lparr>sv_lockdown_logged := l\<rparr>)"
    using receive_admitted [OF admits_mono [OF adm]] by blast
  let ?s = "s\<lparr>sv_lockdown_logged := l\<rparr>"
  let ?t = "(counted E peer ?s)\<lparr>sv_seen := fst (seen_by E ?h ?s)\<rparr>"
  have cl: "map_of (sv_clients ?s) (h_client_id ?h) = Some info"
    using pr by (simp add: paired_def hello_of_def)
  have sg: "ed_verify_strict P (ci_verifying_key info) (hello_payload P ?h ?s) (h_signature ?h)"
    using pr paired_signs(1) [OF pr] by (simp add: hello_payload_def hello_of_def paired_def)
  have we: "welcomes E ?h peer ?s" using w by (simp add: welcomes_def)
  have prt: "paired P c t info secret ?t" using pr by (simp add: paired_def pinned_def)
  have wfc: "wf_packet (Challenge ?ch)"
    using pr E(1) by (simp add: challenge_of_def paired_def expiry_in_i64)
  have lc: "length (encode (Challenge ?ch)) = 74" by (rule length_encode_challenge [OF wfc])
  have ltc: "length (encode (Challenge ?ch)) < 2 ^ 32" unfolding lc by simp
  obtain reply where r: "send_reply P E (Challenge ?ch) peer (reply_mode_of P t ?eph) (h_nonce ?h) ?t = ([Sent peer reply], True)"
      "length reply \<le> length (encode (Challenge ?ch)) + 40"
      "unframe_inbound P t reply (session_of t ?eph) (h_nonce ?h) = Inr (encode (Challenge ?ch))"
    by (rule reply_succeeds [OF P prt eph(1) E(2,3) ltc])
  have cf: "challenge_for E ?h (time_at E AtFresh) ?t = Challenge ?ch"
    by (simp add: challenge_for_def challenge_of_def hello_of_def)
  define s1 where "s1 = (issue E ?h peer (time_at E AtFresh) ?t)\<lparr>sv_status :=
      (sv_status ?t)\<lparr>st_hello_accepted := st_hello_accepted (sv_status ?t) + 1\<rparr>\<rparr>"
  have ac: "accept_hello P E ?h peer (reply_mode_of P t ?eph) (time_at E AtFresh) ?t = (ChallengeIssued, [Sent peer reply], s1)"
    unfolding s1_def by (rule accept_hello_sent) (unfold cf, rule r(1))
  have hd: "receive P E d peer s = (ChallengeIssued,
      [SigCheck (ci_verifying_key info) (hello_payload P ?h ?s) (h_signature ?h), Sent peer reply], s1)"
  proof -
    have "read_packet P d ?s = Some (Hello ?h, reply_mode_of P t ?eph)" using rd by simp
    from handle_read [OF this, of E peer] l hello_welcomed [OF cl sg we] ac show ?thesis by simp
  qed
  have lr: "length reply \<le> 2048" using r(2) unfolding lc by simp
  have rc: "read_challenge P c t (session_of t ?eph) (take 16 (a_random A)) (take 2048 reply) = Inr ?ch"
    using r(3) lr decode_encode [OF wfc]
    by (simp add: read_challenge_def hello_of_def challenge_of_def del: encode.simps)
  show thesis
    by (rule that [OF ah hd _ rc])
       (simp_all add: s1_def issue_def ns_insert_def entry_of_def challenge_of_def hello_of_def same_setup_def)
qed

subsection \<open>The final packet\<close>

definition param_length :: "string option \<Rightarrow> nat" where
  "param_length param = (case param of None \<Rightarrow> 0 | Some p \<Rightarrow> length p)"

definition sealed_as :: "primitives \<Rightarrow> bytes \<Rightarrow> string option \<Rightarrow> bytes option \<Rightarrow> bool" where
  "sealed_as P secret param blob \<longleftrightarrow>
     (case param of
        None \<Rightarrow> blob = None
      | Some p \<Rightarrow> (\<exists>b e. blob = Some b \<and> length b = length p + 72 \<and> open_box P secret b CTX_PARAM = Inr (str_bytes p, e)))"

lemma param_sealed:
  assumes "lawful P" and "paired P c t info secret s" and "well_drawn P secret A" and "param_length param \<le> 60000"
  obtains blob where "(case param of
         None \<Rightarrow> Inr None
       | Some p \<Rightarrow> res_bind (seal_param P (a_eph_param A) (a_xn_param A) t p) (\<lambda>b. Inr (Some b))) = Inr blob"
    "sealed_as P secret param blob"
proof (cases param)
  case None
  then show thesis by (intro that [of None]) (simp_all add: sealed_as_def)
next
  case (Some p)
  have k: "length secret = X25519_KEY_LEN" "t_server_pub t = Some (x_public P secret)"
    using assms(2) by (simp_all add: paired_def pinned_def)
  have "length (str_bytes p) < 2 ^ 32" using assms(4) Some by (simp add: param_length_def)
  with assms(3) k obtain b where "seal P (a_eph_param A) (a_xn_param A) (x_public P secret) (str_bytes p) CTX_PARAM = Inr (b, a_eph_param A)"
      "length b = length (str_bytes p) + 72" "open_box P secret b CTX_PARAM = Inr (str_bytes p, x_public P (a_eph_param A))"
    using seal_succeeds [OF assms(1), of secret "a_eph_param A" "a_xn_param A" "str_bytes p" CTX_PARAM]
    by (auto simp: well_drawn_def)
  with Some k show thesis by (intro that [of "Some b"]) (auto simp: seal_param_def sealed_as_def)
qed

lemma sealed_field: "sealed_as P secret param blob \<Longrightarrow> param_length param \<le> 60000 \<Longrightarrow>
    wf_param blob \<and> length (param_field blob) \<le> 74 + param_length param"
  by (auto simp: sealed_as_def param_length_def wf_param_def param_field_def Let_def split: option.splits)

lemma final_wf:
  assumes "paired P c t info secret s" and "length (c_nonce ch) = CHALLENGE_NONCE_LEN"
    and "sealed_as P secret param blob" and "param_length param \<le> 60000"
  shows "wf_packet (build_final P c t mode ch blob)"
    and "length (encode (build_final P c t mode ch blob)) \<le> 208 + param_length param"
proof -
  have i: "advertised_interval t < 4294967296" by (simp add: advertised_interval_def u32_max_def)
  show "wf_packet (build_final P c t mode ch blob)"
    using i assms(1,2) sealed_field [OF assms(3,4)] paired_signs(2) [OF assms(1)]
    by (simp add: build_final_def Let_def paired_def split: mode.splits)
  show "length (encode (build_final P c t mode ch blob)) \<le> 208 + param_length param"
    using assms(1,2) sealed_field [OF assms(3,4)] paired_signs(2) [OF assms(1)]
    by (simp add: build_final_def Let_def paired_def wf_client_id_def CLIENT_ID_LEN_def CHALLENGE_NONCE_LEN_def SIG_LEN_def
        header_def split: mode.splits)
qed

lemma final_sent:
  assumes P: "lawful P" and pr: "paired P c t info secret s" and A: "well_drawn P secret A"
    and pl: "param_length param \<le> 60000" and n: "length (c_nonce ch) = CHALLENGE_NONCE_LEN"
  obtains f blob where "attempt_final P c t A param mode ch = Inr f" "length f \<le> 280 + param_length param"
    "read_packet P f s = Some (build_final P c t mode ch blob, reply_mode_of P t (a_eph_final A))"
    "sealed_as P secret param blob"
proof -
  obtain blob where b: "(case param of
         None \<Rightarrow> Inr None
       | Some p \<Rightarrow> res_bind (seal_param P (a_eph_param A) (a_xn_param A) t p) (\<lambda>b. Inr (Some b))) = Inr blob"
    "sealed_as P secret param blob"
    by (rule param_sealed [OF P pr A pl])
  let ?p = "build_final P c t mode ch blob"
  note wf = final_wf [OF pr n b(2) pl, of mode]
  have eph: "contributory_with P secret (a_eph_final A)" "length (a_xn_final A) = XNONCE_LEN"
    using A by (simp_all add: well_drawn_def)
  have lt: "length (encode ?p) < 2 ^ 32" using wf(2) pl by simp
  obtain f where f: "frame_outbound P (a_eph_final A) (a_xn_final A) t (encode ?p) = Inr (f, session_of t (a_eph_final A))"
      "length f \<le> length (encode ?p) + 72" "opened P f s = Some (encode ?p, reply_mode_of P t (a_eph_final A))"
    by (rule frame_succeeds [OF P pr eph lt])
  show thesis
    by (rule that [of f blob])
       (use f b wf decode_encode [OF wf(1)] in \<open>simp_all add: attempt_final_def read_packet_def\<close>)
qed

subsection \<open>The server accepts the final packet\<close>

text \<open>The parameter as the server hands it to the hook: one it refuses is not sendable.\<close>

definition sendable :: "string option \<Rightarrow> server \<Rightarrow> bool" where
  "sendable param s \<longleftrightarrow> param_length param \<le> 60000 \<and>
     (case param of None \<Rightarrow> True
      | Some p \<Rightarrow> clean_param (ss_max_param_len (sc_server (sv_config s))) (str_bytes p) = Some p)"

lemma param_received:
  assumes "sealed_as P secret param blob" and "sendable param s" and "sv_secret s = Some secret"
  shows "decrypt_param P E blob s = (s, Inr param)"
  using assms by (auto simp: sealed_as_def sendable_def decrypt_param_def split: option.splits)

lemma authenticate_passes:
  assumes "proven P E payload cid nonce sig peer s info entry"
    and "time_at E AtConsume \<le> ne_expires_at_unix entry"
    and "decrypt_param P E blob (burnt E cid nonce peer s) = (burnt E cid nonce peer s, Inr p)"
  shows "authenticate P E payload cid nonce blob sig peer s =
    Inr (info, p, [SigCheck (ci_verifying_key info) (payload (ne_expires_at_unix entry)) sig], burnt E cid nonce peer s)"
proof -
  have "validate nonce (to_hex cid) (fst peer) (snd peer) (time_at E AtValidate) (sv_nonces s) = Inr entry"
    using assms(1) by (simp add: proven_def validate_live live_at_eq_Some)
  then have c: "check_proof P E payload cid nonce sig peer s =
      Inr (info, [SigCheck (ci_verifying_key info) (payload (ne_expires_at_unix entry)) sig])"
    using assms(1) by (simp add: check_proof_def proven_def verify_payload_raw_def)
  have "snd (consume nonce (to_hex cid) (fst peer) (snd peer) (time_at E AtConsume) (sv_nonces s)) = Inr (entry\<lparr>ne_used := True\<rparr>)"
    by (rule proven_consumable [OF assms(1,2)])
  then have "consume_proof E cid nonce peer s = Inr (burnt E cid nonce peer s)"
    by (cases rule: consume_proof_cases [of E cid nonce peer s]) (auto simp: consume_proof_def split: prod.splits)
  with c assms(3) show ?thesis by (simp add: authenticate_def)
qed

text \<open>Any state of the server in which the challenge is still open.\<close>

definition open_challenge :: "client \<Rightarrow> challenge \<Rightarrow> peer \<Rightarrow> server \<Rightarrow> bool" where
  "open_challenge c ch peer s \<longleftrightarrow> (\<exists>e. map_of (sv_nonces s) (c_nonce ch) = Some e \<and> \<not> ne_used e \<and>
     ne_client_id e = to_hex (ct_client_id c) \<and> ne_source_ip e = fst peer \<and> ne_source_port e = snd peer \<and>
     ne_expires_at_unix e = c_expires_at ch)"

lemma response_granted:
  assumes P: "lawful P" and pr: "paired P c t info secret s" and A: "well_drawn P secret A"
    and n: "length (c_nonce ch) = CHALLENGE_NONCE_LEN" and o: "open_challenge c ch peer s"
    and time: "time_at E AtValidate \<le> c_expires_at ch" "time_at E AtConsume \<le> c_expires_at ch"
    and param: "sendable param s" and adm: "admits E (280 + param_length param) (fst peer) s"
  obtains f sig l r where "attempt_final P c t A param Renew ch = Inr f"
    "receive P E f peer s = (let (out, effs, s') = accept_response E r info param peer
        (burnt E (ct_client_id c) (c_nonce ch) peer (s\<lparr>sv_lockdown_logged := l\<rparr>)) in (out, sig # effs, s'))"
    "\<exists>k m b. sig = SigCheck k m b" "r_client_id r = ct_client_id c" "r_interval r = advertised_interval t"
proof -
  have pl: "param_length param \<le> 60000" using param by (simp add: sendable_def)
  obtain f blob where f: "attempt_final P c t A param Renew ch = Inr f" "length f \<le> 280 + param_length param"
    "read_packet P f s = Some (build_final P c t Renew ch blob, reply_mode_of P t (a_eph_final A))"
    "sealed_as P secret param blob"
    by (rule final_sent [OF P pr A pl n])
  obtain l where l: "receive P E f peer s = handle_datagram P E f peer (s\<lparr>sv_lockdown_logged := l\<rparr>)"
    using receive_admitted [OF admits_mono [OF adm f(2)]] by blast
  let ?s = "s\<lparr>sv_lockdown_logged := l\<rparr>"
  obtain r where r: "build_final P c t Renew ch blob = Response r" by (simp add: build_final_def Let_def)
  then have rf: "r_client_id r = ct_client_id c" "r_nonce r = c_nonce ch" "r_param r = blob"
      "r_interval r = advertised_interval t"
      "r_signature r = sign_payload_raw P (ct_signing_key c) (response_signing_payload (t_server_id t)
         (to_hex (ct_client_id c)) (b64_encode P (c_nonce ch)) (advertised_interval t) (c_expires_at ch) (param_b64 P blob))"
    by (auto simp: build_final_def Let_def param_b64_def)
  obtain e where e: "map_of (sv_nonces s) (c_nonce ch) = Some e" "\<not> ne_used e"
     "ne_client_id e = to_hex (ct_client_id c)" "ne_source_ip e = fst peer" "ne_source_port e = snd peer"
     "ne_expires_at_unix e = c_expires_at ch"
    using o by (auto simp: open_challenge_def)
  have pv: "proven P E (response_payload P r ?s) (ct_client_id c) (c_nonce ch) (r_signature r) peer ?s info e"
    using e pr time paired_signs(1) [OF pr] by (simp add: proven_def paired_def response_payload_def rf)
  have dp: "decrypt_param P E blob (burnt E (ct_client_id c) (c_nonce ch) peer ?s) =
      (burnt E (ct_client_id c) (c_nonce ch) peer ?s, Inr param)"
    by (rule param_received [OF f(4)]) (use param pr in \<open>auto simp: sendable_def paired_def pinned_def split: option.splits\<close>)
  have "read_packet P f ?s = Some (Response r, reply_mode_of P t (a_eph_final A))" using f(3) r by simp
  from handle_read [OF this, of E peer] authenticate_passes [OF pv _ dp] e time
  have "receive P E f peer s = (let (out, effs, s') = accept_response E r info param peer
        (burnt E (ct_client_id c) (c_nonce ch) peer ?s)
      in (out, SigCheck (ci_verifying_key info) (response_payload P r ?s (c_expires_at ch)) (r_signature r) # effs, s'))"
    unfolding l by (simp add: handle_response_def rf del: logged_irrelevant)
  then show thesis by (rule that [OF f(1) _ _ rf(1,4)]) auto
qed

subsection \<open>A whole attempt\<close>

text \<open>
  A first pulse in good conditions: the client has no lease and there is room for one, the lease
  time is within the validated bounds and the clock far from its end, the executor has a free slot
  and the child process can be started and exits by itself.
\<close>

definition lease_secs :: "server_target \<Rightarrow> server \<Rightarrow> nat" where
  "lease_secs t s = max 1 (min (u64_saturating_mul (advertised_interval t) (ss_lease_grace_multiplier (sc_server (sv_config s))))
     (ss_lease_max_seconds (sc_server (sv_config s))))"

definition ready_to_grant :: "env \<Rightarrow> client \<Rightarrow> server_target \<Rightarrow> server \<Rightarrow> bool" where
  "ready_to_grant E c t s \<longleftrightarrow>
     1 \<le> ss_lease_max_seconds (sc_server (sv_config s)) \<and>
     instant_add (inst_at E AtRenew) (from_secs (lease_secs t s)) \<noteq> None \<and>
     map_of (lt_leases (sv_leases s)) (to_hex (ct_client_id c)) = None \<and>
     length (lt_leases (sv_leases s)) < lt_max_entries (sv_leases s) \<and>
     pe_running (sv_executor s) < pe_max_concurrent (sv_executor s) \<and> e_spawn_error E = None"

lemma lease_ttl_validated: "1 \<le> ss_lease_max_seconds (sc_server cfg) \<Longrightarrow>
    lease_ttl n cfg = Returns (from_secs (max 1 (min (u64_saturating_mul n (ss_lease_grace_multiplier (sc_server cfg)))
      (ss_lease_max_seconds (sc_server cfg)))))"
  by (auto simp: lease_ttl_def Let_def clamp_def)

lemma grant_fresh:
  assumes "ready_to_grant E c t s" and "e_wait E = Exited code"
  obtains k s' where "grant E (advertised_interval t) (to_hex (ct_client_id c)) name param peer s =
      (HookRan \<lparr>cr_exit_code = code, cr_timed_out = False\<rparr>,
       [Spawned (build_command (sv_executor s) (fst peer) (to_hex (ct_client_id c)) (snd peer)
          (case param of Some p \<Rightarrow> p | None \<Rightarrow> []) ''1'' ''grant'' (show_nat k))], s')"
    "k = others_on_ip (fst peer) (to_hex (ct_client_id c)) (inst_at E AtOthers) (sv_leases s')"
    "map_of (lt_leases (sv_leases s')) (to_hex (ct_client_id c)) =
       Some \<lparr>l_expires_at = inst_at E AtRenew + from_secs (lease_secs t s), l_ip = fst peer, l_source_port = snd peer, l_param = param\<rparr>"
proof -
  have ttl: "lease_ttl (advertised_interval t) (sv_config s) = Returns (from_secs (lease_secs t s))"
    using assms(1) lease_ttl_validated by (simp add: ready_to_grant_def lease_secs_def)
  let ?hex = "to_hex (ct_client_id c)"
  let ?l = "\<lparr>l_expires_at = inst_at E AtRenew + from_secs (lease_secs t s), l_ip = fst peer, l_source_port = snd peer, l_param = param\<rparr>"
  let ?leases = "(sv_leases s)\<lparr>lt_leases := hm_put ?hex ?l (lt_leases (sv_leases s))\<rparr>"
  have rn: "renew_at ?hex (fst peer) (snd peer) param (from_secs (lease_secs t s)) (inst_at E AtRenew) (sv_leases s) =
      Returns (?leases, True)"
    using assms(1) by (auto simp: ready_to_grant_def renew_at_def Let_def instant_add_def split: if_splits)
  let ?k = "others_on_ip (fst peer) ?hex (inst_at E AtOthers) ?leases"
  let ?cmd = "build_command (sv_executor s) (fst peer) ?hex (snd peer) (case param of Some p \<Rightarrow> p | None \<Rightarrow> []) ''1'' ''grant'' (show_nat ?k)"
  have "run_hook E ?hex (fst peer) (snd peer) param True ''grant'' ?k (sv_executor s) =
      ([Spawned ?cmd], Inr \<lparr>cr_exit_code = code, cr_timed_out = False\<rparr>, sv_executor s)"
    using assms by (simp add: run_hook_def execute_start_def execute_finish_def ready_to_grant_def Let_def)
  with ttl rn show thesis
    by (intro that [of ?k]) (simp add: grant_def Let_def, simp_all)
qed

text \<open>The bytes that one handler sent back to the peer.\<close>

fun sent_to :: "peer \<Rightarrow> effect list \<Rightarrow> bytes list" where
  "sent_to p [] = []"
| "sent_to p (Sent q d # es) = (if q = p then d # sent_to p es else sent_to p es)"
| "sent_to p (_ # es) = sent_to p es"

text \<open>
  One attempt over a network that delivers: the HELLO to the server, its first reply to the
  client, the final packet to the server. The result is how the two handlers ended.
\<close>

definition exchange ::
  "primitives \<Rightarrow> client \<Rightarrow> server_target \<Rightarrow> attempt_env \<Rightarrow> string option \<Rightarrow> mode \<Rightarrow> env \<Rightarrow> env \<Rightarrow> peer \<Rightarrow> server \<Rightarrow>
   (outcome \<times> handled) option" where
  "exchange P c t A param mode E1 E2 peer s =
     (case attempt_hello P c t A of
        Inl _ \<Rightarrow> None
      | Inr (d, _) \<Rightarrow>
          (let (out, effs, s1) = receive P E1 d peer s in
           case sent_to peer effs of
             [] \<Rightarrow> None
           | reply # _ \<Rightarrow>
               (case attempt_once P c t (A\<lparr>a_reply := Received reply\<rparr>) param mode of
                  ([_, f], Inr _) \<Rightarrow> Some (out, receive P E2 f peer s1)
                | _ \<Rightarrow> None)))"

lemma attempt_reply [simp]:
  "attempt_hello P c t (A\<lparr>a_reply := r\<rparr>) = attempt_hello P c t A"
  "attempt_final P c t (A\<lparr>a_reply := r\<rparr>) param mode ch = attempt_final P c t A param mode ch"
  by (cases param; simp add: attempt_hello_def attempt_final_def)+

lemma attempt_completes:
  assumes "attempt_hello P c t A = Inr (d, session, n)" and "read_challenge P c t session n (take 2048 reply) = Inr ch"
    and "attempt_final P c t A param mode ch = Inr f" and "a_send_hello_ok A" and "a_send_final_ok A"
  shows "attempt_once P c t (A\<lparr>a_reply := Received reply\<rparr>) param mode = ([d, f], Inr ())"
  using assms by (simp add: attempt_once_def)

lemma exchange_completes:
  assumes P: "lawful P" and pr: "paired P c t info secret s" and A: "well_drawn P secret A"
    and sends: "a_send_hello_ok A" "a_send_final_ok A"
    and E1: "length (e_nonce E1) = CHALLENGE_NONCE_LEN" "length (e_xnonce E1) = XNONCE_LEN" "e_send_ok E1"
    and adm1: "admits E1 194 (fst peer) s" and w: "welcomes E1 (hello_of P c t A) peer s"
    and param: "sendable param s" and calm: "\<not> under_attack (inst_at E2 AtLockdown) (sv_blacklist s)"
    and adm2: "admits E2 (280 + param_length param) (fst peer) s"
    and time: "time_at E2 AtValidate \<le> c_expires_at (challenge_of E1 c s)"
      "time_at E2 AtConsume \<le> c_expires_at (challenge_of E1 c s)"
    and ready: "ready_to_grant E2 c t s" and wait: "e_wait E2 = Exited code"
  shows "\<exists>sig k s'. exchange P c t A param Renew E1 E2 peer s =
      Some (ChallengeIssued, HookRan \<lparr>cr_exit_code = code, cr_timed_out = False\<rparr>,
        [sig, Spawned (build_command (sv_executor s) (fst peer) (to_hex (ct_client_id c)) (snd peer)
           (case param of Some p \<Rightarrow> p | None \<Rightarrow> []) ''1'' ''grant'' (show_nat k))], s') \<and>
      map_of (lt_leases (sv_leases s')) (to_hex (ct_client_id c)) =
        Some \<lparr>l_expires_at = inst_at E2 AtRenew + from_secs (lease_secs t s), l_ip = fst peer,
              l_source_port = snd peer, l_param = param\<rparr>"
proof -
  obtain d reply sig s1 where h: "attempt_hello P c t A = Inr (d, session_of t (a_eph_hello A), take 16 (a_random A))"
    "receive P E1 d peer s = (ChallengeIssued, [sig, Sent peer reply], s1)"
    "\<exists>k m. sig = SigCheck k m (h_signature (hello_of P c t A))"
    "read_challenge P c t (session_of t (a_eph_hello A)) (take 16 (a_random A)) (take 2048 reply) =
       Inr (challenge_of E1 c s)"
    "map_of (sv_nonces s1) (e_nonce E1) = Some (entry_of E1 c peer s)" "same_setup s s1"
    "sv_cooldown s1 = sv_cooldown s" "sv_leases s1 = sv_leases s" "sv_blacklist s1 = sv_blacklist s"
    by (rule hello_answered [OF P pr A E1 adm1 w]) blast
  let ?ch = "challenge_of E1 c s"
  have same: "sv_config s1 = sv_config s" "sv_clients s1 = sv_clients s" "sv_secret s1 = sv_secret s"
    "sv_executor s1 = sv_executor s" using h(6) by (simp_all add: same_setup_def)
  have pr1: "paired P c t info secret s1" using pr same by (simp add: paired_def pinned_def)
  have param1: "sendable param s1" using param same by (simp add: sendable_def cong: option.case_cong)
  have adm: "admits E2 (280 + param_length param) (fst peer) s1"
    using adm2 calm same h(9) by (simp add: admits_def)
  have o: "open_challenge c ?ch peer s1" using h(5) by (simp add: open_challenge_def challenge_of_def entry_of_def)
  have n: "length (c_nonce ?ch) = CHALLENGE_NONCE_LEN" using E1(1) by (simp add: challenge_of_def)
  obtain f sig2 l r where f: "attempt_final P c t A param Renew ?ch = Inr f"
    "receive P E2 f peer s1 = (let (out, effs, s') = accept_response E2 r info param peer
        (burnt E2 (ct_client_id c) (c_nonce ?ch) peer (s1\<lparr>sv_lockdown_logged := l\<rparr>)) in (out, sig2 # effs, s'))"
    "\<exists>k m b. sig2 = SigCheck k m b" "r_client_id r = ct_client_id c" "r_interval r = advertised_interval t"
    by (rule response_granted [OF P pr1 A n o time param1 adm])
  define s2 where "s2 = burnt E2 (ct_client_id c) (c_nonce ?ch) peer (s1\<lparr>sv_lockdown_logged := l\<rparr>)"
  define s3 where "s3 = s2\<lparr>sv_active := ai_mark (fst peer) (inst_at E2 AtMarkActive) (sv_active s2),
    sv_status := set_pulse (ci_name info) \<lparr>pi_source_ip = fst peer, pi_source_port = snd peer, pi_at_unix = time_at E2 AtPulse\<rparr>
      ((sv_status s2)\<lparr>st_verified := st_verified (sv_status s2) + 1\<rparr>)\<rparr>"
  have s3: "sv_config s3 = sv_config s" "sv_leases s3 = sv_leases s" "sv_executor s3 = sv_executor s"
    using same h(8) by (simp_all add: s3_def s2_def)
  have secs: "lease_secs t s3 = lease_secs t s" using s3 by (simp add: lease_secs_def)
  have rg: "ready_to_grant E2 c t s3" using ready s3 secs by (simp add: ready_to_grant_def)
  obtain k s' where g: "grant E2 (advertised_interval t) (to_hex (ct_client_id c)) (ci_name info) param peer s3 =
      (HookRan \<lparr>cr_exit_code = code, cr_timed_out = False\<rparr>,
       [Spawned (build_command (sv_executor s3) (fst peer) (to_hex (ct_client_id c)) (snd peer)
          (case param of Some p \<Rightarrow> p | None \<Rightarrow> []) ''1'' ''grant'' (show_nat k))], s')"
    "map_of (lt_leases (sv_leases s')) (to_hex (ct_client_id c)) =
       Some \<lparr>l_expires_at = inst_at E2 AtRenew + from_secs (lease_secs t s3), l_ip = fst peer, l_source_port = snd peer, l_param = param\<rparr>"
    by (rule grant_fresh [OF rg wait, where name = "ci_name info" and param = param and peer = peer])
  have "accept_response E2 r info param peer s2 =
      grant E2 (advertised_interval t) (to_hex (ct_client_id c)) (ci_name info) param peer s3"
    by (simp add: accept_response_def Let_def f s3_def)
  with f(2) g have "receive P E2 f peer s1 = (HookRan \<lparr>cr_exit_code = code, cr_timed_out = False\<rparr>,
       [sig2, Spawned (build_command (sv_executor s) (fst peer) (to_hex (ct_client_id c)) (snd peer)
          (case param of Some p \<Rightarrow> p | None \<Rightarrow> []) ''1'' ''grant'' (show_nat k))], s')"
    by (simp add: s2_def [symmetric] s3)
  moreover have "attempt_once P c t (A\<lparr>a_reply := Received reply\<rparr>) param Renew = ([d, f], Inr ())"
    by (rule attempt_completes [OF h(1,4) f(1) sends])
  ultimately have "exchange P c t A param Renew E1 E2 peer s =
      Some (ChallengeIssued, HookRan \<lparr>cr_exit_code = code, cr_timed_out = False\<rparr>,
        [sig2, Spawned (build_command (sv_executor s) (fst peer) (to_hex (ct_client_id c)) (snd peer)
           (case param of Some p \<Rightarrow> p | None \<Rightarrow> []) ''1'' ''grant'' (show_nat k))], s')"
    using h(1-3) by (auto simp: exchange_def)
  with g(2) secs show ?thesis by auto
qed

subsection \<open>An instance\<close>

text \<open>
  A server built by \<open>from_config\<close> from a configuration with one client, that client, and a clock
  and random bytes, over the instance \<open>demo\<close> of the primitives.
\<close>

definition demo_id :: client_id where "demo_id = ClientId (replicate 32 9)"
definition demo_seed :: bytes where "demo_seed = replicate 32 2"
definition demo_secret :: bytes where "demo_secret = replicate 32 1"

definition demo_config :: server_config where
  "demo_config = \<lparr>sc_server = (default_server_section ''0.0.0.0:7777'' ''srv'')\<lparr>ss_encryption_private_key := Some (hexify demo_secret)\<rparr>,
     sc_command = default_command_section [''/usr/bin/hook'', ''{ip}'', ''{param}''],
     sc_clients = [\<lparr>ce_client_id = to_hex demo_id, ce_public_key = hexify demo_seed, ce_label = None\<rparr>]\<rparr>"

definition demo_server :: server where
  "demo_server = (let s = sc_server demo_config in
     \<lparr>sv_config = demo_config, sv_clients = [(demo_id, \<lparr>ci_verifying_key = demo_seed, ci_name = to_hex demo_id\<rparr>)],
      sv_secret = Some demo_secret, sv_nonces = ns_new, sv_seen = sc_new,
      sv_limiter = rl_new (ss_hello_rate_max s) (ss_hello_rate_window_seconds s) (ss_max_tracked_ips s),
      sv_cooldown = cd_new (ss_client_cooldown_seconds s),
      sv_blacklist = bl_new (ss_max_faulty_packets s) (ss_blacklist_seconds s)
        (ss_attack_blacklist_threshold s) (ss_attack_rejection_threshold s)
        (ss_attack_window_seconds s) (ss_max_tracked_ips s) 0,
      sv_active = ai_new (ss_active_ip_ttl_seconds s) (ss_max_tracked_ips s),
      sv_lockdown_logged = False, sv_executor = grant_executor demo_config, sv_revoke = None,
      sv_leases = lt_new (ss_max_tracked_ips s), sv_status = default_status\<rparr>)"

definition demo_target :: server_target where
  "demo_target = \<lparr>t_name = ''srv'', t_server_id = ''srv'', t_server_addr = ''192.0.2.1:7777'', t_server_pub = Some demo_secret,
     t_wire_encryption = True, t_interval = from_secs 60, t_retry_initial = from_millis 500,
     t_retry_max = from_millis 4000, t_retries = 3, t_param_command = None,
     t_param_command_timeout = from_secs 5, t_param_max_len = 256\<rparr>"

definition demo_client :: client where
  "demo_client = \<lparr>ct_signing_key = demo_seed, ct_client_id = demo_id, ct_targets = [demo_target],
     ct_status = \<lparr>cst_started_at = 0, cst_pid = 1, cst_servers = seed_legs [demo_target]\<rparr>, ct_bye_on_shutdown = True\<rparr>"

definition demo_attempt :: attempt_env where
  "demo_attempt = \<lparr>a_unix = 1000, a_random = replicate 32 5, a_eph_hello = replicate 32 11, a_xn_hello = replicate 24 12,
     a_eph_param = replicate 32 13, a_xn_param = replicate 24 14, a_eph_final = replicate 32 15,
     a_xn_final = replicate 24 16, a_reply = NothingInTime, a_send_hello_ok = True, a_send_final_ok = True\<rparr>"

definition demo_env :: env where
  "demo_env = \<lparr>unix_at = (\<lambda>_. 1000000000000), inst_at = (\<lambda>_. 5), e_nonce = replicate 32 7, e_xnonce = replicate 24 8,
     e_permit = True, e_send_ok = True, e_spawn_error = None, e_wait = Exited (Some 0)\<rparr>"

definition demo_peer :: peer where "demo_peer = (V4 192 0 2 7, 40000)"

lemmas demo_defs = demo_config_def demo_server_def demo_target_def demo_client_def demo_attempt_def demo_env_def
  demo_peer_def demo_id_def demo_seed_def demo_secret_def Let_def

lemma demo_public [simp]: "x_public demo s = s" "ed_public demo s = s" "x_contributory demo s" "ed_valid_public demo s"
  by (simp_all add: demo_def)

lemma demo_id_wf [simp]: "wf_client_id demo_id"
  by (simp add: demo_id_def wf_client_id_def CLIENT_ID_LEN_def)

lemma demo_from_config: "from_config demo 0 demo_config (grant_executor demo_config) None = Returns (Inr demo_server)"
proof -
  have b: "b64_encode demo = hexify" "b64_decode_res demo (hexify x) = Inr x" for x
    by (simp_all add: demo_def b64_decode_res_def)
  have "load_clients demo (sc_clients demo_config) [] =
      Returns (Inr [(demo_id, \<lparr>ci_verifying_key = demo_seed, ci_name = to_hex demo_id\<rparr>)])"
    by (simp add: demo_config_def from_hex_to_hex load_verifying_key_def b array_of_def demo_seed_def PUBLIC_KEY_LENGTH_def
        hm_put_def)
  moreover have "load_secret demo (ss_encryption_private_key (sc_server demo_config)) = Inr (Some demo_secret)"
    by (simp add: demo_config_def load_secret_def x25519_from_base64_def b array_of_def demo_secret_def X25519_KEY_LEN_def)
  ultimately show ?thesis by (simp add: from_config_def demo_server_def Let_def)
qed

lemma demo_lawful [simp]: "lawful demo"
  by (simp add: lawful_def)

lemma demo_well_drawn [simp]: "well_drawn demo demo_secret demo_attempt"
  by (simp add: well_drawn_def contributory_with_def demo_attempt_def HELLO_NONCE_LEN_def crypto_consts in_i64_def
      i64_min_def i64_max_def)

lemma demo_paired [simp]:
  "paired demo demo_client demo_target \<lparr>ci_verifying_key = demo_seed, ci_name = to_hex demo_id\<rparr> demo_secret demo_server"
  by (simp add: paired_def pinned_def demo_client_def demo_target_def demo_server_def Let_def demo_config_def
      default_server_section_def demo_secret_def demo_seed_def X25519_KEY_LEN_def)

lemma demo_admits [simp]: "n \<le> 2048 \<Longrightarrow> admits demo_env n ip demo_server"
  "under_attack k (sv_blacklist demo_server) = False"
  by (simp_all add: admits_def demo_server_def Let_def bl_new_def is_blocked_def is_blocked_at_def under_attack_def demo_env_def
      demo_config_def default_server_section_def)

lemma demo_time [simp]: "time_at demo_env k = 1000"
  by (simp add: time_at_def demo_env_def now_unix_def Let_def)

lemma demo_welcomes [simp]: "welcomes demo_env (hello_of demo demo_client demo_target demo_attempt) demo_peer demo_server"
  by (simp add: welcomes_def check_at_def seen_by_def skew_of_def insert_if_absent_def hello_of_def demo_attempt_def
      demo_server_def Let_def rl_new_def sc_new_def demo_config_def default_server_section_def hm_has_def)

lemma demo_ready: "ready_to_grant demo_env demo_client demo_target demo_server"
  by (simp add: ready_to_grant_def lease_secs_def advertised_interval_def demo_server_def Let_def demo_target_def
      demo_config_def default_server_section_def default_command_section_def grant_executor_def pe_new_def lt_new_def
      demo_env_def instant_add_def instant_max_def u64_saturating_mul_def u64_max_def u32_max_def from_secs_def)

lemma demo_sendable: "sendable (Some ''ok'') demo_server"
proof -
  have "clean_param (ss_max_param_len (sc_server (sv_config demo_server))) (str_bytes ''ok'') = Some ''ok''"
    by (simp add: demo_server_def Let_def demo_config_def default_server_section_def) code_simp
  then show ?thesis by (simp add: sendable_def param_length_def)
qed

lemma demo_expiry [simp]: "c_expires_at (challenge_of demo_env demo_client demo_server) = 1030"
  by (simp add: challenge_of_def demo_server_def Let_def demo_config_def default_server_section_def i64_max_def)

lemma demo_sends: "a_send_hello_ok demo_attempt" "a_send_final_ok demo_attempt"
    "length (e_nonce demo_env) = CHALLENGE_NONCE_LEN" "length (e_xnonce demo_env) = XNONCE_LEN"
    "e_send_ok demo_env" "e_wait demo_env = Exited (Some 0)" "ct_client_id demo_client = demo_id"
  by (simp_all add: demo_attempt_def demo_env_def demo_client_def CHALLENGE_NONCE_LEN_def XNONCE_LEN_def)

lemma demo_timely: "admits demo_env 194 (fst demo_peer) demo_server"
    "admits demo_env (280 + param_length (Some ''ok'')) (fst demo_peer) demo_server"
    "\<not> under_attack (inst_at demo_env AtLockdown) (sv_blacklist demo_server)"
    "time_at demo_env k \<le> c_expires_at (challenge_of demo_env demo_client demo_server)"
  by (simp_all add: param_length_def)

text \<open>The last step of the exchange of the instance: a hook is started.\<close>

lemma demo_grant:
  obtains f s1 sig cmd s' res where "receive demo demo_env f demo_peer s1 = (HookRan res, [sig, Spawned cmd], s')"
proof -
  have "\<exists>f s1. receive demo demo_env f demo_peer s1 = r"
    if "exchange demo demo_client demo_target demo_attempt param mode demo_env demo_env demo_peer demo_server = Some (o1, r)" for param mode o1 r
    using that by (auto simp: exchange_def split: sum.splits list.splits prod.splits)
  with exchange_completes [OF demo_lawful demo_paired demo_well_drawn demo_sends(1-5) demo_timely(1) demo_welcomes
      demo_sendable demo_timely(3,2,4,4) demo_ready demo_sends(6)] that
  show thesis by blast
qed

subsection \<open>Properties\<close>

text \<open>
  C1: The two programs complete a pulse together, in cleartext and in encrypted mode: when client
  and server share their keys and server identifier, the HELLO is timely, within budget and not
  seen before, and the answer to the challenge arrives before it expires, then one attempt makes
  the server issue a challenge, accept the final packet and run the grant hook once, with the
  client's address, identifier and decrypted parameter; the client then holds a lease on
  that address for the advertised interval times the grace factor, within the configured maximum.
\<close>

theorem handshake_completes:
  assumes P: "lawful P" and pr: "paired P c t info secret s" and A: "well_drawn P secret A"
    and sends: "a_send_hello_ok A" "a_send_final_ok A"
    and E1: "length (e_nonce E1) = CHALLENGE_NONCE_LEN" "length (e_xnonce E1) = XNONCE_LEN" "e_send_ok E1"
    and adm1: "admits E1 194 (fst peer) s" and w: "welcomes E1 (hello_of P c t A) peer s"
    and param: "sendable param s" and calm: "\<not> under_attack (inst_at E2 AtLockdown) (sv_blacklist s)"
    and adm2: "admits E2 (280 + param_length param) (fst peer) s"
    and time: "time_at E2 AtValidate \<le> c_expires_at (challenge_of E1 c s)"
      "time_at E2 AtConsume \<le> c_expires_at (challenge_of E1 c s)"
    and ready: "ready_to_grant E2 c t s" and wait: "e_wait E2 = Exited code"
  shows "\<exists>sig k s'. exchange P c t A param Renew E1 E2 peer s =
      Some (ChallengeIssued, HookRan \<lparr>cr_exit_code = code, cr_timed_out = False\<rparr>,
        [sig, Spawned (build_command (sv_executor s) (fst peer) (to_hex (ct_client_id c)) (snd peer)
           (case param of Some p \<Rightarrow> p | None \<Rightarrow> []) ''1'' ''grant'' (show_nat k))], s') \<and>
      map_of (lt_leases (sv_leases s')) (to_hex (ct_client_id c)) =
        Some \<lparr>l_expires_at = inst_at E2 AtRenew + from_secs (lease_secs t s), l_ip = fst peer,
              l_source_port = snd peer, l_param = param\<rparr>"
  by (rule exchange_completes [OF assms])

theorem handshake_completes_witness:
  "\<exists>sig k s'. exchange demo demo_client demo_target demo_attempt (Some ''ok'') Renew demo_env demo_env demo_peer demo_server =
      Some (ChallengeIssued, HookRan \<lparr>cr_exit_code = Some 0, cr_timed_out = False\<rparr>,
        [sig, Spawned (build_command (sv_executor demo_server) (fst demo_peer) (to_hex demo_id) (snd demo_peer)
           ''ok'' ''1'' ''grant'' (show_nat k))], s')"
proof -
  from handshake_completes [OF demo_lawful demo_paired demo_well_drawn demo_sends(1-5) demo_timely(1) demo_welcomes
      demo_sendable demo_timely(3,2,4,4) demo_ready demo_sends(6)]
  show ?thesis unfolding demo_sends(7) by auto
qed

end
