(* ===== verification/Client_Properties.thy ===== *)
theory Client_Properties
  imports Handshake
begin

text \<open>
  What the client promises: the targets of a validated configuration are well formed, a cycle makes
  a bounded number of attempts with the documented timeouts and stops at the first success, and in
  encrypted mode a final packet is only ever sent in answer to a challenge that the pinned server
  sealed for this very HELLO.
\<close>

subsection \<open>Well-formed targets\<close>

definition target_ok :: "server_target \<Rightarrow> bool" where
  "target_ok t \<longleftrightarrow>
     0 < t_interval t \<and> 0 < t_retry_initial t \<and> t_retry_initial t \<le> t_retry_max t \<and>
     (t_wire_encryption t \<or> t_param_command t \<noteq> None \<longrightarrow> t_server_pub t \<noteq> None) \<and>
     t_param_command t \<noteq> Some [] \<and> 0 < t_param_max_len t \<and> t_param_max_len t \<le> 60000 \<and>
     (\<forall>k. t_server_pub t = Some k \<longrightarrow> length k = X25519_KEY_LEN)"

lemma resolve_target_Inr:
  "resolve_target P name server_id addr enc wire secs init_ms max_ms n cmd timeout max_len = Inr t \<longleftrightarrow>
     (\<exists>pub. (case enc of None \<Rightarrow> pub = None | Some b \<Rightarrow> \<exists>k. x25519_from_base64 P b = Inr k \<and> pub = Some k) \<and>
        (wire \<or> cmd \<noteq> None \<longrightarrow> pub \<noteq> None) \<and>
        t = \<lparr>t_name = name, t_server_id = server_id, t_server_addr = addr, t_server_pub = pub, t_wire_encryption = wire,
          t_interval = from_secs secs, t_retry_initial = from_millis init_ms, t_retry_max = from_millis max_ms,
          t_retries = n, t_param_command = cmd, t_param_command_timeout = from_secs timeout, t_param_max_len = max_len\<rparr>)"
  by (auto simp: resolve_target_def res_bind_eq_Inr split: option.splits sum.splits)

lemma x25519_length: "x25519_from_base64 P b = Inr k \<Longrightarrow> length k = X25519_KEY_LEN"
  by (auto simp: x25519_from_base64_def array_of_def res_bind_eq_Inr split: if_splits)

lemma resolved_ok:
  assumes "resolve_target P name server_id addr enc wire secs init_ms max_ms n cmd timeout max_len = Inr t"
    and "0 < secs" and "0 < init_ms" and "init_ms \<le> max_ms" and "cmd \<noteq> Some []" and "0 < max_len" and "max_len \<le> 60000"
  shows "target_ok t \<and> t_name t = name"
  using assms x25519_length
  by (auto simp: resolve_target_Inr target_ok_def from_secs_def from_millis_def split: option.splits)

text \<open>What the validation of a client configuration means for its sections.\<close>

lemma validate_client_ok:
  assumes "validate_client c = Returns (Inr ())"
  shows "0 < cs_interval_seconds c" "0 < cs_retry_initial_ms c" "cs_retry_initial_ms c \<le> cs_retry_max_ms c"
    "cs_param_command c \<noteq> Some []" "0 < cs_param_max_len c" "cs_param_max_len c \<le> 60000"
    "\<exists>i. from_hex (cs_client_id c) = Returns (Inr i)"
    "check_overrides c (cs_servers c) = Inr ()"
  using assms by (auto simp: validate_client_def split: if_splits may_panic.splits sum.splits)

lemma override_target_ok:
  assumes "validate_client c = Returns (Inr ())" and "(label, ov) \<in> set (cs_servers c)"
    and "resolve_override P label ov c = Inr t"
  shows "target_ok t \<and> t_name t = label"
proof -
  note v = validate_client_ok [OF assms(1)]
  have o: "check_override c label ov = Inr ()" using v(8) assms(2) by (auto simp: check_overrides_ok)
  note o' = o [unfolded check_override_ok]
  have cmd: "opt_or (so_param_command ov) (cs_param_command c) \<noteq> Some []"
    using o' v(4) by (cases "so_param_command ov") auto
  have len: "0 < unwrap_or (so_param_max_len ov) (cs_param_max_len c)" "unwrap_or (so_param_max_len ov) (cs_param_max_len c) \<le> 60000"
    using o' v(5,6) by (cases "so_param_max_len ov"; auto)+
  have secs: "0 < unwrap_or (so_interval_seconds ov) (cs_interval_seconds c)"
    using o' v(1) by (cases "so_interval_seconds ov") auto
  have retry: "0 < unwrap_or (so_retry_initial_ms ov) (cs_retry_initial_ms c)"
    "unwrap_or (so_retry_initial_ms ov) (cs_retry_initial_ms c) \<le> unwrap_or (so_retry_max_ms ov) (cs_retry_max_ms c)"
    using o' by simp_all
  show ?thesis by (rule resolved_ok [OF assms(3) [unfolded resolve_override_def] secs retry cmd len])
qed

lemma resolve_overrides_Inr:
  "resolve_overrides P c ovs = Inr ts \<longleftrightarrow> list_all2 (\<lambda>(label, ov) t. resolve_override P label ov c = Inr t) ovs ts"
proof (induction ovs arbitrary: ts)
  case Nil
  then show ?case by auto
next
  case (Cons lo ovs)
  then show ?case by (cases lo; cases ts) (auto simp: res_bind_eq_Inr)
qed

lemma seed_legs_dom: "map_of (seed_legs ts) name \<noteq> None \<longleftrightarrow> name \<in> t_name ` set ts"
proof -
  have "map_of (fold (\<lambda>t m. hm_put (t_name t) (pending_leg t) m) ts m) name \<noteq> None \<longleftrightarrow>
      name \<in> t_name ` set ts \<or> map_of m name \<noteq> None" for m
    by (induction ts arbitrary: m) auto
  then show ?thesis by (simp add: seed_legs_def)
qed

lemma client_targets:
  assumes "client_from_config P now pid c = Returns (Inr cl)"
  obtains t ts where "ct_targets cl = t # ts" "primary_target P c = Inr t" "resolve_overrides P c (cs_servers c) = Inr ts"
    "cst_servers (ct_status cl) = seed_legs (t # ts)" "load_signing_key P (cs_private_key c) = Inr (ct_signing_key cl)"
    "from_hex (cs_client_id c) = Returns (Inr (ct_client_id cl))"
  using assms by (auto simp: client_from_config_def res_bind_eq_Inr split: sum.splits may_panic.splits)

subsection \<open>Attempts\<close>

text \<open>The timeouts double until they reach the cap; the multiplication never saturates below it.\<close>

lemma backoff_eq:
  assumes "t_retry_max t \<le> duration_max"
  shows "backoff t k = min (t_retry_initial t * 2 ^ min (k - 1) 31) (t_retry_max t)"
  using assms by (simp add: backoff_def min_def)

lemma attempt_once_cases:
  obtains (nothing) e where "attempt_once P c t A param mode = ([], Inl e)"
  | (hello) d session n e where "attempt_hello P c t A = Inr (d, session, n)"
      "attempt_once P c t A param mode = ([d], Inl e)"
  | (complete) d session n reply ch f where "attempt_hello P c t A = Inr (d, session, n)" "a_reply A = Received reply"
      "read_challenge P c t session n (take 2048 reply) = Inr ch" "attempt_final P c t A param mode ch = Inr f"
      "attempt_once P c t A param mode = ([d, f], Inr ())"
proof (cases "attempt_hello P c t A")
  case (Inl e)
  then have "attempt_once P c t A param mode = ([], Inl e)" by (simp add: attempt_once_def)
  then show thesis by (rule nothing)
next
  case (Inr x)
  obtain d session n where x: "x = (d, session, n)" by (cases x)
  let ?r = "\<lambda>reply. res_bind (read_challenge P c t session n (take 2048 reply)) (attempt_final P c t A param mode)"
  consider "\<not> a_send_hello_ok A" | "a_send_hello_ok A" "a_reply A = RecvError \<or> a_reply A = NothingInTime"
    | reply e where "a_send_hello_ok A" "a_reply A = Received reply" "?r reply = Inl e"
    | reply f where "a_send_hello_ok A" "a_reply A = Received reply" "?r reply = Inr f"
    by (metis reception.exhaust sum.exhaust)
  then show thesis
  proof cases
    case 1
    with Inr x have "attempt_once P c t A param mode = ([], Inl SocketFailed)" by (simp add: attempt_once_def)
    then show thesis by (rule nothing)
  next
    case 2
    with Inr x show thesis by (auto simp: attempt_once_def intro: hello)
  next
    case 3
    with Inr x show thesis by (intro hello [of d session n e]) (simp_all add: attempt_once_def)
  next
    case 4
    show thesis
    proof (cases "a_send_final_ok A")
      case True
      from 4 obtain ch where ch: "read_challenge P c t session n (take 2048 reply) = Inr ch"
          "attempt_final P c t A param mode ch = Inr f" by (auto simp: res_bind_eq_Inr)
      with 4 True Inr x show thesis by (intro complete [of d session n reply ch f]) (simp_all add: attempt_once_def)
    next
      case False
      with 4 Inr x show thesis by (intro hello [of d session n SocketFailed]) (simp_all add: attempt_once_def)
    qed
  qed
qed

lemma attempt_succeeds_iff: "snd (attempt_once P c t A param mode) = Inr () \<longleftrightarrow> length (fst (attempt_once P c t A param mode)) = 2"
  by (cases rule: attempt_once_cases [of P c t A param mode]) auto

lemma attempt_datagrams: "length (fst (attempt_once P c t A param mode)) \<le> 2"
  by (cases rule: attempt_once_cases [of P c t A param mode]) auto

text \<open>
  The loop: attempt \<open>k + i\<close> is the entry \<open>i\<close> of the log; all but the last entry are failures, and
  the run stops at a success or when the attempts are used up.
\<close>

lemma attempts_loop_log:
  assumes "attempts_loop P c t A param mode k n = (log, ok)"
  shows "length log \<le> n \<and>
    (\<forall>i < length log. log ! i = (backoff t (k + i), fst (attempt_once P c t (A (k + i)) param mode))) \<and>
    (\<forall>i. Suc i < length log \<longrightarrow> snd (attempt_once P c t (A (k + i)) param mode) \<noteq> Inr ()) \<and>
    (if ok then log \<noteq> [] \<and> snd (attempt_once P c t (A (k + length log - 1)) param mode) = Inr ()
     else length log = n \<and> (\<forall>i < n. snd (attempt_once P c t (A (k + i)) param mode) \<noteq> Inr ()))"
  using assms
proof (induction n arbitrary: k log ok)
  case 0
  then show ?case by auto
next
  case (Suc n)
  obtain ds r where a: "attempt_once P c t (A k) param mode = (ds, r)" by fastforce
  show ?case
  proof (cases r)
    case (Inr u)
    with Suc.prems a have "log = [(backoff t k, ds)]" "ok" by auto
    with a Inr show ?thesis by simp
  next
    case (Inl e)
    obtain rest ok' where r: "attempts_loop P c t A param mode (Suc k) n = (rest, ok')" by fastforce
    with Suc.prems a Inl have l: "log = (backoff t k, ds) # rest" "ok = ok'" by auto
    have first: "snd (attempt_once P c t (A (k + 0)) param mode) \<noteq> Inr ()" using a Inl by simp
    have shift: "\<And>i. A (k + Suc i) = A (Suc k + i)" by simp
    note ih = Suc.IH [OF r]
    have fails: "snd (attempt_once P c t (A (k + i)) param mode) \<noteq> Inr ()"
      if "\<And>j. i = Suc j \<Longrightarrow> snd (attempt_once P c t (A (Suc k + j)) param mode) \<noteq> Inr ()" for i
      using first that shift by (cases i) auto
    have "log ! i = (backoff t (k + i), fst (attempt_once P c t (A (k + i)) param mode))" if "i < length log" for i
      using ih that a unfolding l by (cases i) auto
    moreover have "snd (attempt_once P c t (A (k + i)) param mode) \<noteq> Inr ()" if "Suc i < length log" for i
      by (rule fails) (use ih that l in auto)
    moreover have "if ok then log \<noteq> [] \<and> snd (attempt_once P c t (A (k + length log - 1)) param mode) = Inr ()
        else length log = Suc n \<and> (\<forall>i < Suc n. snd (attempt_once P c t (A (k + i)) param mode) \<noteq> Inr ())"
    proof (cases ok)
      case True
      with ih l show ?thesis by (cases rest) auto
    next
      case False
      have "snd (attempt_once P c t (A (k + i)) param mode) \<noteq> Inr ()" if "i < Suc n" for i
        by (rule fails) (use ih that l False in auto)
      with False ih l show ?thesis by auto
    qed
    ultimately show ?thesis using ih l by auto
  qed
qed

lemma cycle_total: "t_param_command t \<noteq> Some [] \<Longrightarrow> cycle_param run t mode override \<noteq> Panics"
  by (auto simp: cycle_param_def generate_param_def split: option.splits mode.splits list.splits)

text \<open>A challenge that the client accepts in encrypted mode was sealed for this HELLO by the pinned server.\<close>

lemma challenge_sealed:
  assumes "box_laws P" and "t_wire_encryption t" and "t_server_pub t = Some (x_public P secret)"
    and "length secret = X25519_KEY_LEN" and "length eph = X25519_KEY_LEN"
    and "read_challenge P c t (Some eph) bind reply = Inr ch"
  shows "c_client_id ch = ct_client_id c \<and>
    (\<exists>n. length n = XNONCE_LEN \<and> seal_reply P n secret (x_public P eph) (encode (Challenge ch)) bind = Inr reply)"
proof -
  obtain m where u: "unframe_inbound P t reply (Some eph) bind = Inr m"
    using assms(6) by (auto simp: read_challenge_def res_bind_eq_Inr)
  obtain p where p: "decode m = Inr p" using assms(6) u by (cases "decode m") (auto simp: read_challenge_def)
  have m: "unframe_inbound P t reply (Some eph) bind = Inr m" "decode m = Inr (Challenge ch)" "c_client_id ch = ct_client_id c"
    using assms(6) u p by (cases p; auto simp: read_challenge_def split: if_splits)+
  then have "open_reply P eph (x_public P secret) reply bind = Inr m"
    using assms(2,3) by (auto simp: unframe_inbound_def split: sum.splits)
  with open_reply_exact [OF assms(1,4,5), of reply bind m]
  obtain n where "length n = XNONCE_LEN" "seal_reply P n secret (x_public P eph) m bind = Inr reply" by blast
  moreover have "m = encode (Challenge ch)" using m(2) by (simp add: decode_iff)
  ultimately show ?thesis using m(3) by blast
qed

lemma hello_session:
  assumes "attempt_hello P c t A = Inr (d, session, n)"
  shows "n = take 16 (a_random A) \<and> session = session_of t (a_eph_hello A)"
  using assms by (auto simp: attempt_hello_def frame_outbound_def session_of_def seal_cases res_bind_eq_Inr Let_def
      split: if_splits option.splits sum.splits)

text \<open>The attempt of the instance, with the reply of its server.\<close>

lemma demo_attempt_completes:
  obtains d reply f where
    "attempt_once demo demo_client demo_target (demo_attempt\<lparr>a_reply := Received reply\<rparr>) (Some ''ok'') Renew = ([d, f], Inr ())"
proof -
  obtain d reply sig s1 where h: "attempt_hello demo demo_client demo_target demo_attempt =
      Inr (d, session_of demo_target (a_eph_hello demo_attempt), take 16 (a_random demo_attempt))"
    "read_challenge demo demo_client demo_target (session_of demo_target (a_eph_hello demo_attempt))
       (take 16 (a_random demo_attempt)) (take 2048 reply) = Inr (challenge_of demo_env demo_client demo_server)"
    by (rule hello_answered [OF demo_lawful demo_paired demo_well_drawn demo_sends(3-5) demo_timely(1) demo_welcomes])
  have n: "length (c_nonce (challenge_of demo_env demo_client demo_server)) = CHALLENGE_NONCE_LEN"
    using demo_sends(3) by (simp add: challenge_of_def)
  have "param_length (Some ''ok'') \<le> 60000" by (simp add: param_length_def)
  from final_sent [OF demo_lawful demo_paired demo_well_drawn this n, of Renew]
  obtain f where "attempt_final demo demo_client demo_target demo_attempt (Some ''ok'') Renew
      (challenge_of demo_env demo_client demo_server) = Inr f" by blast
  from attempt_completes [OF h this demo_sends(1,2)] that show thesis by blast
qed

subsection \<open>Properties\<close>

text \<open>
  C16: The targets of a validated configuration are well formed: every interval and timeout is
  positive and the retry window ordered, a target that encrypts or sends a parameter has the
  server's key, no parameter command is empty, labels are distinct, and every target has its own
  leg in the status.
\<close>

theorem targets_well_formed:
  assumes "validate_client c = Returns (Inr ())" and "client_from_config P now pid c = Returns (Inr cl)"
    and "distinct (map fst (cs_servers c))"
  shows "(\<forall>t \<in> set (ct_targets cl). target_ok t \<and> map_of (cst_servers (ct_status cl)) (t_name t) \<noteq> None) \<and>
    distinct (map t_name (ct_targets cl)) \<and> length (ct_targets cl) = Suc (length (cs_servers c))"
proof -
  note v = validate_client_ok [OF assms(1)]
  obtain t ts where cl: "ct_targets cl = t # ts" "primary_target P c = Inr t" "resolve_overrides P c (cs_servers c) = Inr ts"
    "cst_servers (ct_status cl) = seed_legs (t # ts)"
    by (rule client_targets [OF assms(2)])
  have t: "target_ok t \<and> t_name t = cs_server_id c"
    by (rule resolved_ok [OF cl(2) [unfolded primary_target_def] v(1-6)])
  have all: "list_all2 (\<lambda>(label, ov) t. resolve_override P label ov c = Inr t) (cs_servers c) ts"
    using cl(3) by (simp add: resolve_overrides_Inr)
  have each: "target_ok (ts ! i) \<and> t_name (ts ! i) = fst (cs_servers c ! i)" if "i < length ts" for i
  proof -
    obtain label ov where i: "cs_servers c ! i = (label, ov)" by fastforce
    have "cs_servers c ! i \<in> set (cs_servers c)" using that list_all2_lengthD [OF all] by simp
    with i all that have "resolve_override P label ov c = Inr (ts ! i)" "(label, ov) \<in> set (cs_servers c)"
      by (auto simp: list_all2_conv_all_nth)
    with override_target_ok [OF assms(1)] i show ?thesis by auto
  qed
  have len: "length ts = length (cs_servers c)" using all by (simp add: list_all2_lengthD)
  have names: "map t_name ts = map fst (cs_servers c)"
    by (rule nth_equalityI) (use each len in simp_all)
  have "cs_server_id c \<notin> fst ` set (cs_servers c)"
    using v(8) by (auto simp: check_overrides_ok check_override_ok)
  then have "distinct (map t_name (t # ts))" using names assms(3) t by (metis distinct.simps(2) list.simps(9) set_map)
  moreover have "\<forall>x \<in> set (t # ts). target_ok x" using t each by (auto simp: in_set_conv_nth)
  moreover have "\<forall>x \<in> set (t # ts). map_of (seed_legs (t # ts)) (t_name x) \<noteq> None"
    using seed_legs_dom [of "t # ts"] by auto
  ultimately show ?thesis using cl len by simp
qed

definition sample_section :: client_section where
  "sample_section = (default_client_section (to_hex demo_id) ''192.0.2.1:7370'' ''srv'' (hexify demo_seed))
     \<lparr>cs_server_encryption_key := Some (hexify demo_secret), cs_servers := [(''backup'',
        \<lparr>so_server_addr = ''192.0.2.2:7370'', so_server_id = None, so_server_encryption_key = Some (hexify demo_secret),
         so_wire_encryption = None, so_interval_seconds = Some 60, so_retry_initial_ms = None, so_retry_max_ms = None,
         so_retries = None, so_param_command = None, so_param_command_timeout_seconds = None, so_param_max_len = None\<rparr>)]\<rparr>"

theorem targets_well_formed_witness:
  "\<exists>cl. client_from_config demo 0 1 sample_section = Returns (Inr cl) \<and> distinct (map t_name (ct_targets cl)) \<and>
     length (ct_targets cl) = 2"
proof -
  have b: "b64_decode_res demo (hexify x) = Inr x" for x by (simp add: demo_def b64_decode_res_def)
  have v: "validate_client sample_section = Returns (Inr ())"
    by (simp add: validate_client_def sample_section_def default_client_section_def from_hex_to_hex check_override_def)
  have "client_from_config demo 0 1 sample_section \<noteq> Panics" "\<forall>e. client_from_config demo 0 1 sample_section \<noteq> Returns (Inl e)"
    by (simp_all add: client_from_config_def sample_section_def default_client_section_def load_signing_key_def b array_of_def
        from_hex_to_hex primary_target_def resolve_override_def resolve_target_def x25519_from_base64_def demo_seed_def
        demo_secret_def SECRET_KEY_LENGTH_def X25519_KEY_LEN_def)
  then obtain cl where cl: "client_from_config demo 0 1 sample_section = Returns (Inr cl)"
    by (metis may_panic.exhaust sum.exhaust)
  with targets_well_formed [OF v cl] show ?thesis by (simp add: sample_section_def default_client_section_def)
qed

text \<open>
  C15: A cycle comes to an end. For a well-formed target it never panics, makes at most the number
  of attempts it was given (at least one is allowed), waits \<open>backoff t k\<close> in attempt \<open>k\<close>, sends at
  most two datagrams in each, stops at the first attempt that gets its final packet out, and fails
  only when all attempts have failed or none could be made.
\<close>

theorem cycle_is_bounded:
  assumes "t_param_command t \<noteq> Some []"
  shows "\<exists>log r. run_cycle P c t run sock A n mode override = Returns (log, r) \<and> length log \<le> max n 1 \<and>
    (\<forall>i < length log. fst (log ! i) = backoff t (Suc i) \<and> length (snd (log ! i)) \<le> 2) \<and>
    (\<forall>i. Suc i < length log \<longrightarrow> length (snd (log ! i)) < 2) \<and>
    (r = Inr () \<longleftrightarrow> log \<noteq> [] \<and> length (snd (last log)) = 2) \<and>
    (\<forall>m. r = Inl (AllAttemptsFailed m) \<longrightarrow> m = max n 1 \<and> length log = m)"
proof -
  consider e where "cycle_param run t mode override = Returns (Inl e)"
    | param where "cycle_param run t mode override = Returns (Inr param)"
    using cycle_total [OF assms, of run mode override] by (metis may_panic.exhaust sum.exhaust)
  then show ?thesis
  proof cases
    case (1 e)
    have "e \<noteq> AllAttemptsFailed m" for m
      using 1 by (auto simp: cycle_param_def generate_param_def param_of_output_def validate_param_def res_bind_eq_Inl Let_def
          split: option.splits mode.splits list.splits param_run.splits if_splits)
    with 1 show ?thesis by (simp add: run_cycle_def)
  next
    case (2 param)
    show ?thesis
    proof (cases sock)
      case False
      with 2 show ?thesis by (simp add: run_cycle_def)
    next
      case True
      let ?n = "max n 1" and ?d = "\<lambda>k. fst (attempt_once P c t (A k) param mode)"
      obtain log ok where l: "attempts_loop P c t A param mode 1 ?n = (log, ok)" by fastforce
      note a = attempts_loop_log [OF l]
      have r: "run_cycle P c t run sock A n mode override =
          Returns (log, if ok then Inr () else Inl (AllAttemptsFailed ?n))"
        using 2 True l by (simp add: run_cycle_def Let_def)
      have entry: "log ! i = (backoff t (Suc i), ?d (Suc i))" if "i < length log" for i using a that by simp
      have two: "length (?d k) = 2 \<longleftrightarrow> snd (attempt_once P c t (A k) param mode) = Inr ()" "length (?d k) \<le> 2" for k
        using attempt_succeeds_iff attempt_datagrams by blast+
      have early: "length (snd (log ! i)) < 2" if "Suc i < length log" for i
      proof -
        have "snd (attempt_once P c t (A (Suc i)) param mode) \<noteq> Inr ()" using a that by simp
        with two [of "Suc i"] entry [of i] that show ?thesis by simp
      qed
      have final: "ok \<longleftrightarrow> log \<noteq> [] \<and> length (snd (last log)) = 2"
      proof (cases "log = []")
        case True
        with a show ?thesis by (auto split: if_splits)
      next
        case False
        then have "last log = (backoff t (length log), ?d (length log))"
          using entry [of "length log - 1"] by (simp add: last_conv_nth)
        with a False two(1) [of "length log"] show ?thesis
          by (cases ok) (auto split: if_splits dest: spec [of _ "length log - 1"])
      qed
      show ?thesis
        using r a entry two(2) early final by (intro exI [of _ log] exI conjI) (auto split: if_splits)
    qed
  qed
qed

theorem cycle_is_bounded_witness:
  "\<exists>log r. run_cycle demo demo_client demo_target SpawnError True (\<lambda>_. demo_attempt) 3 Renew (Some ''ok'') = Returns (log, r) \<and>
     length log \<le> 3"
  using cycle_is_bounded [of demo_target demo demo_client SpawnError True "\<lambda>_. demo_attempt" 3 Renew "Some ''ok''"]
  by (auto simp: demo_target_def)

text \<open>
  The timeouts of a cycle's attempts: the first is the configured initial timeout, each further
  one is twice the previous until the configured maximum, which is never exceeded; neither the
  32-bit shift nor the saturating multiplication disturbs that for the first 32 attempts.
\<close>

theorem backoff_schedule:
  assumes "target_ok t" and "t_retry_max t \<le> duration_max"
  shows "backoff t 1 = t_retry_initial t \<and> (\<forall>k. 0 < backoff t k \<and> backoff t k \<le> t_retry_max t) \<and>
    (\<forall>k. 1 \<le> k \<and> k < 32 \<longrightarrow> backoff t (Suc k) = min (2 * backoff t k) (t_retry_max t)) \<and>
    (\<forall>k. backoff t k \<le> backoff t (Suc k))"
proof -
  have le: "0 < t_retry_initial t" "t_retry_initial t \<le> t_retry_max t" using assms(1) by (simp_all add: target_ok_def)
  note eq = backoff_eq [OF assms(2)]
  have doubles: "backoff t (Suc k) = min (2 * backoff t k) (t_retry_max t)" if "1 \<le> k" "k < 32" for k
  proof -
    define j where "j = k - 1"
    then have j: "k = Suc j" "j < 31" using that by simp_all
    have "2 * min x m = min (2 * x) (2 * m)" for x m :: nat by (simp add: min_def)
    with j show ?thesis by (simp add: eq)
  qed
  have mono: "backoff t k \<le> backoff t (Suc k)" for k
  proof -
    have "min (k - 1) 31 \<le> min k 31" by auto
    then have "t_retry_initial t * 2 ^ min (k - 1) 31 \<le> t_retry_initial t * 2 ^ min k 31"
      by (intro mult_left_mono power_increasing) simp_all
    then show ?thesis by (simp add: eq min_le_iff_disj)
  qed
  have bounds: "backoff t 1 = t_retry_initial t" "0 < backoff t k" "backoff t k \<le> t_retry_max t" for k
    using le by (simp_all add: eq)
  with doubles mono show ?thesis by blast
qed

theorem backoff_schedule_witness:
  "map (backoff demo_target) [1, 2, 3, 4, 5] = map from_millis [500, 1000, 2000, 4000, 4000]"
proof -
  have "target_ok demo_target" "t_retry_max demo_target \<le> duration_max"
    by (simp_all add: target_ok_def demo_target_def demo_secret_def X25519_KEY_LEN_def from_secs_def from_millis_def
        duration_max_def u64_max_def)
  from backoff_schedule [OF this] have b: "backoff demo_target (Suc 0) = from_millis 500"
    "\<And>k. 1 \<le> k \<Longrightarrow> k < 32 \<Longrightarrow> backoff demo_target (Suc k) = min (2 * backoff demo_target k) (from_millis 4000)"
    by (simp_all add: demo_target_def)
  have m: "min (2 * from_millis a) (from_millis b) = from_millis (min (2 * a) b)" for a b
    by (simp add: from_millis_def min_def)
  have "backoff demo_target (Suc 1) = from_millis 1000" using b(2) [of 1] b(1) m by simp
  moreover from this have "backoff demo_target (Suc 2) = from_millis 2000" using b(2) [of 2] m by (simp add: numeral_2_eq_2)
  moreover from this have "backoff demo_target (Suc 3) = from_millis 4000" using b(2) [of 3] m by (simp add: numeral_3_eq_3 numeral_2_eq_2)
  moreover from this have "backoff demo_target (Suc 4) = from_millis 4000" using b(2) [of 4] m by (simp add: eval_nat_numeral)
  ultimately show ?thesis using b(1) by (simp add: eval_nat_numeral)
qed

text \<open>
  C14: In encrypted mode the client proves itself only to the pinned server: an attempt sends its
  signed final packet only when what it received is a challenge for its own identifier that was
  sealed with the pinned server's secret, for this attempt's ephemeral key and this HELLO's nonce.
\<close>

theorem final_packet_only_for_pinned_server:
  assumes "box_laws P" and "t_wire_encryption t" and "t_server_pub t = Some (x_public P secret)"
    and "length secret = X25519_KEY_LEN" and "length (a_eph_hello A) = X25519_KEY_LEN"
    and "attempt_once P c t A param mode = ([d, f], r)"
  shows "\<exists>reply ch n. a_reply A = Received reply \<and> c_client_id ch = ct_client_id c \<and> length n = XNONCE_LEN \<and>
    seal_reply P n secret (x_public P (a_eph_hello A)) (encode (Challenge ch)) (take 16 (a_random A)) = Inr (take 2048 reply) \<and>
    attempt_final P c t A param mode ch = Inr f"
proof (cases rule: attempt_once_cases [of P c t A param mode])
  case (complete d' session n reply ch f')
  with hello_session [OF complete(1)] assms(2)
  have "read_challenge P c t (Some (a_eph_hello A)) (take 16 (a_random A)) (take 2048 reply) = Inr ch"
    by (simp add: session_of_def)
  from challenge_sealed [OF assms(1-5) this] complete assms(6) show ?thesis by auto
qed (use assms(6) in auto)

theorem final_packet_only_for_pinned_server_witness:
  "\<exists>(A :: attempt_env) reply (ch :: challenge) n. a_reply A = Received reply \<and> c_client_id ch = demo_id \<and> length n = XNONCE_LEN \<and>
    seal_reply demo n demo_secret (a_eph_hello A) (encode (Challenge ch)) (take 16 (a_random A)) = Inr (take 2048 reply)"
proof -
  obtain d reply f where a: "attempt_once demo demo_client demo_target (demo_attempt\<lparr>a_reply := Received reply\<rparr>) (Some ''ok'') Renew = ([d, f], Inr ())"
    by (rule demo_attempt_completes)
  have t: "t_wire_encryption demo_target" "t_server_pub demo_target = Some (x_public demo demo_secret)"
    "length demo_secret = X25519_KEY_LEN" "length (a_eph_hello (demo_attempt\<lparr>a_reply := Received reply\<rparr>)) = X25519_KEY_LEN"
    "ct_client_id demo_client = demo_id"
    by (simp_all add: demo_target_def demo_secret_def demo_attempt_def demo_client_def X25519_KEY_LEN_def)
  from final_packet_only_for_pinned_server [OF demo_laws(1) t(1-4) a] show ?thesis unfolding t(5) demo_public by blast
qed

end
