(* ===== verification/Tasks.thy ===== *)
theory Tasks
  imports Server_Properties
begin

text \<open>
  The concurrency of \<open>Server::run\<close>. The receive loop spawns a task per datagram and the cleanup
  task one per lease scan; between two accesses to a mutex or a semaphore another task may run. A
  \<open>stage\<close> is where a task stands, with its local variables; \<open>advance\<close> takes it over its next
  access to the shared state, and \<open>wstep\<close> lets any task, the receive loop or the cleanup timer
  move next. \<open>solo_datagram\<close> shows that a task that nobody interrupts does what the handlers of
  the theory \<open>Server\<close> say, so the two descriptions agree.

  One step of a task is at most one section of the code that the next tables depend on: the checks of
  a proof (\<open>validate\<close>) and its consumption are separate steps, as are the lease renewal, the
  cooldown test, the count of the other clients, the start and the end of a hook. The checks of a
  HELLO, with its reading of the clock, its entry in the replay cache, its mark as an active address,
  the entry of its nonce and the reply are steps too. A turn of the cleanup loop reads the clock and then
  purges table after table before it takes the expired leases, each in a step of its own.
\<close>

subsection \<open>Stages of a task\<close>

datatype claim = Pulse response | Farewell bye

primrec claim_payload :: "primitives \<Rightarrow> claim \<Rightarrow> server \<Rightarrow> int \<Rightarrow> bytes" where
  "claim_payload P (Pulse r) = response_payload P r"
| "claim_payload P (Farewell b) = bye_payload P b"

primrec claim_id :: "claim \<Rightarrow> client_id" where
  "claim_id (Pulse r) = r_client_id r"
| "claim_id (Farewell b) = b_client_id b"

primrec claim_nonce :: "claim \<Rightarrow> bytes" where
  "claim_nonce (Pulse r) = r_nonce r"
| "claim_nonce (Farewell b) = b_nonce b"

primrec claim_param :: "claim \<Rightarrow> bytes option" where
  "claim_param (Pulse r) = r_param r"
| "claim_param (Farewell b) = b_param b"

primrec claim_sig :: "claim \<Rightarrow> bytes" where
  "claim_sig (Pulse r) = r_signature r"
| "claim_sig (Farewell b) = b_signature b"

text \<open>Why a lease is revoked: a BYE, or a lease scan with further leases to revoke.\<close>

datatype cause = ByBye bye | ByScan "revoke_item list"

datatype stage =
    Opening peer bytes
  | Greeting peer hello reply_mode
  | Fresh peer hello reply_mode int
  | Unseen peer hello reply_mode int
  | Noted peer hello reply_mode int
  | Issuing peer hello reply_mode bytes int
  | Presented peer claim
  | Checked peer claim client_info
  | Consumed peer claim client_info
  | Accepted peer response client_info "string option"
  | Renewed peer response client_info "string option" bool
  | Warm peer response client_info "string option" bool
  | Starting peer response client_info "string option" bool nat
  | Granting peer response client_info "string option"
  | Releasing peer bye "string option"
  | Revoking expired_lease string "string option" nat cause
  | Closing expired_lease string "string option" cause
  | PurgeNonces int
  | PurgeSeen int
  | PurgeLimiter
  | PurgeBlacklist
  | PurgeActive
  | PurgeCooldown
  | ScanLeases
  | Sweeping "revoke_item list"
  | Finished outcome

primrec cause_word :: "cause \<Rightarrow> string" where
  "cause_word (ByBye b) = ''bye''"
| "cause_word (ByScan items) = ''expired''"

text \<open>A revoke is over: the handler of the BYE returns, the scan's task goes on with its list.\<close>

primrec resume :: "cause \<Rightarrow> outcome \<Rightarrow> stage" where
  "resume (ByBye b) out = Finished out"
| "resume (ByScan items) out = Sweeping items"

type_synonym advanced = "effect list \<times> stage \<times> server"

definition returned :: "handled \<Rightarrow> advanced" where
  "returned x = (let (out, effs, s) = x in (effs, Finished out, s))"

definition route :: "env \<Rightarrow> bytes \<Rightarrow> reply_mode \<Rightarrow> peer \<Rightarrow> server \<Rightarrow> advanced" where
  "route E packet_bytes reply peer s =
     (case decode packet_bytes of
        Inl e \<Rightarrow> returned (faulty E (Malformed e) (fst peer) s)
      | Inr (Hello h) \<Rightarrow> ([], Greeting peer h reply, s)
      | Inr (Response r) \<Rightarrow> ([], Presented peer (Pulse r), s)
      | Inr (Bye b) \<Rightarrow> ([], Presented peer (Farewell b), s)
      | Inr (Challenge _) \<Rightarrow> ([], Finished UnexpectedChallenge, note_rejected E False s))"

definition read_in :: "primitives \<Rightarrow> env \<Rightarrow> bytes \<Rightarrow> peer \<Rightarrow> server \<Rightarrow> advanced" where
  "read_in P E data peer s =
     (case ss_wire_encryption (sc_server (sv_config s)) of
        Required \<Rightarrow>
          (case sv_secret s of
             None \<Rightarrow> ([], Finished NoSecret, s)
           | Some secret \<Rightarrow>
               (case open_box P secret data CTX_WIRE of
                  Inl _ \<Rightarrow> returned (faulty E Undecryptable (fst peer) s)
                | Inr (inner, peer_eph) \<Rightarrow> route E inner (Sealed peer_eph) peer s))
      | Off \<Rightarrow> route E data Cleartext peer s)"

definition record_pulse :: "env \<Rightarrow> client_info \<Rightarrow> peer \<Rightarrow> server \<Rightarrow> server" where
  "record_pulse E info peer s =
     s\<lparr>sv_active := ai_mark (fst peer) (inst_at E AtMarkActive) (sv_active s),
       sv_status := set_pulse (ci_name info)
         \<lparr>pi_source_ip = fst peer, pi_source_port = snd peer, pi_at_unix = time_at E AtPulse\<rparr>
         ((sv_status s)\<lparr>st_verified := st_verified (sv_status s) + 1\<rparr>)\<rparr>"

fun advance :: "primitives \<Rightarrow> env \<Rightarrow> stage \<Rightarrow> server \<Rightarrow> advanced" where
  "advance P E (Opening peer data) s = read_in P E data peer s"
| "advance P E (Greeting peer h reply) s =
     (let (limiter, allowed) = check_at (fst peer) (inst_at E AtRate) (sv_limiter s);
          s = s\<lparr>sv_limiter := limiter\<rparr>;
          payload = hello_payload P h s
      in if \<not> allowed then ([], Finished RateLimited, note_rejected E False s)
         else case map_of (sv_clients s) (h_client_id h) of
           None \<Rightarrow> ([SigCheck (dummy_verifying_key P) payload (h_signature h)], Finished UnknownClient, note_rejected E False s)
         | Some info \<Rightarrow>
             (let checked = SigCheck (ci_verifying_key info) payload (h_signature h) in
              case verify_payload_raw P (ci_verifying_key info) payload (h_signature h) of
                Inl _ \<Rightarrow> ([checked], Finished InvalidSignature, note_rejected E False s)
              | Inr _ \<Rightarrow>
                  (let now = time_at E AtFresh in
                   if int (ss_hello_max_skew_seconds (sc_server (sv_config s))) < \<bar>now - h_timestamp h\<bar>
                   then ([checked], Finished OutsideSkew, note_rejected E False s)
                   else ([checked], Fresh peer h reply now, s))))"
| "advance P E (Fresh peer h reply now) s =
     (let ttl = u64_saturating_mul (ss_hello_max_skew_seconds (sc_server (sv_config s))) 2;
          (seen, fresh) = insert_if_absent (replay_key h) now ttl (sv_seen s);
          s = s\<lparr>sv_seen := seen\<rparr>
      in if \<not> fresh then ([], Finished HelloReplay, note_rejected E True s)
         else ([], Unseen peer h reply now, s))"
| "advance P E (Unseen peer h reply now) s =
     ([], Noted peer h reply now, s\<lparr>sv_active := ai_mark (fst peer) (inst_at E AtMarkActive) (sv_active s)\<rparr>)"
| "advance P E (Noted peer h reply now) s =
     (let expires_at = min (now + int (ss_nonce_ttl_seconds (sc_server (sv_config s)))) i64_max
      in ([], Issuing peer h reply (e_nonce E) expires_at,
          s\<lparr>sv_nonces := ns_insert (e_nonce E) (to_hex (h_client_id h)) (fst peer) (snd peer)
                  expires_at (time_at E AtInsert) (sv_nonces s)\<rparr>))"
| "advance P E (Issuing peer h reply nonce expires_at) s =
     (let c = Challenge \<lparr>c_client_id = h_client_id h, c_nonce = nonce, c_expires_at = expires_at\<rparr>;
          (sent, ok) = send_reply P E c peer reply (h_nonce h) s
      in if ok
         then (sent, Finished ChallengeIssued,
               s\<lparr>sv_status := (sv_status s)\<lparr>st_hello_accepted := st_hello_accepted (sv_status s) + 1\<rparr>\<rparr>)
         else (sent, Finished ReplyFailed, s))"
| "advance P E (Presented peer c) s =
     (case check_proof P E (claim_payload P c s) (claim_id c) (claim_nonce c) (claim_sig c) peer s of
        Inl res \<Rightarrow> returned res
      | Inr (info, effs) \<Rightarrow> (effs, Checked peer c info, s))"
| "advance P E (Checked peer c info) s =
     (case consume_proof E (claim_id c) (claim_nonce c) peer s of
        Inl (out, s) \<Rightarrow> ([], Finished out, s)
      | Inr s \<Rightarrow> ([], Consumed peer c info, s))"
| "advance P E (Consumed peer c info) s =
     (case decrypt_param P E (claim_param c) s of
        (s, Inl _) \<Rightarrow> ([], Finished ParamRejected, s)
      | (s, Inr p) \<Rightarrow>
          (case c of
             Pulse r \<Rightarrow> ([], Accepted peer r info p, record_pulse E info peer s)
           | Farewell b \<Rightarrow> ([], Releasing peer b p, s)))"
| "advance P E (Accepted peer r info p) s =
     (case lease_ttl (r_interval r) (sv_config s) of
        Panics \<Rightarrow> ([], Finished Panicked, s)
      | Returns ttl \<Rightarrow>
          (case renew_at (to_hex (r_client_id r)) (fst peer) (snd peer) p ttl (inst_at E AtRenew) (sv_leases s) of
             Panics \<Rightarrow> ([], Finished Panicked, s)
           | Returns (leases, is_new) \<Rightarrow> ([], Renewed peer r info p is_new, s\<lparr>sv_leases := leases\<rparr>)))"
| "advance P E (Renewed peer r info p is_new) s =
     (if \<not> is_new \<and> in_cooldown (''id:'' @ to_hex (r_client_id r)) (inst_at E AtCooldown) (sv_cooldown s)
      then ([], Finished CoolingDown, s) else ([], Warm peer r info p is_new, s))"
| "advance P E (Warm peer r info p is_new) s =
     ([], Starting peer r info p is_new
        (others_on_ip (fst peer) (to_hex (r_client_id r)) (inst_at E AtOthers) (sv_leases s)), s)"
| "advance P E (Starting peer r info p is_new k) s =
     (case execute_start (e_spawn_error E) (to_hex (r_client_id r)) (fst peer) (snd peer) p is_new ''grant'' k (sv_executor s) of
        (x, Inl e) \<Rightarrow> ([], Finished (HookFailed e), s\<lparr>sv_executor := x\<rparr>)
      | (x, Inr cmd) \<Rightarrow> ([Spawned cmd], Granting peer r info p, s\<lparr>sv_executor := x\<rparr>))"
| "advance P E (Granting peer r info p) s =
     (case execute_finish (e_wait E) (sv_executor s) of
        (x, Inl e, _) \<Rightarrow> ([], Finished (HookFailed e), s\<lparr>sv_executor := x\<rparr>)
      | (x, Inr result, _) \<Rightarrow>
          ([], Finished (HookRan result),
           s\<lparr>sv_executor := x,
             sv_cooldown := cd_mark (''id:'' @ to_hex (r_client_id r)) (inst_at E AtMark) (sv_cooldown s),
             sv_status := set_hook (ci_name info) \<lparr>hi_client_id = ci_name info, hi_source_ip = fst peer,
               hi_at_unix = time_at E AtHook, hi_exit_code = cr_exit_code result,
               hi_timed_out = cr_timed_out result, hi_param = p, hi_reason = Some ''grant''\<rparr> (sv_status s)\<rparr>))"
| "advance P E (Releasing peer b p) s =
     (case release_at (to_hex (b_client_id b)) (inst_at E AtRelease) (sv_leases s) of
        (_, None) \<Rightarrow> ([], Finished NoLease, s)
      | (leases, Some (e, remaining)) \<Rightarrow>
          ([], Revoking e (display_name (x_client_id e) s) (opt_or p (x_param e)) remaining (ByBye b),
           s\<lparr>sv_leases := leases\<rparr>))"
| "advance P E (Revoking e name p remaining c) s =
     (case sv_revoke s of
        None \<Rightarrow> ([], resume c NoRevokeHook, s)
      | Some x \<Rightarrow>
          (case execute_start (e_spawn_error E) (x_client_id e) (x_ip e) (x_source_port e) p False (cause_word c) remaining x of
             (x, Inl err) \<Rightarrow> ([], resume c (HookFailed err), s\<lparr>sv_revoke := Some x\<rparr>)
           | (x, Inr cmd) \<Rightarrow> ([Spawned cmd], Closing e name p c, s\<lparr>sv_revoke := Some x\<rparr>)))"
| "advance P E (Closing e name p c) s =
     (case sv_revoke s of
        None \<Rightarrow> ([], resume c NoRevokeHook, s)
      | Some x \<Rightarrow>
          (case execute_finish (e_wait E) x of
             (x, Inl err, _) \<Rightarrow> ([], resume c (HookFailed err), s\<lparr>sv_revoke := Some x\<rparr>)
           | (x, Inr result, _) \<Rightarrow>
               ([], resume c (HookRan result),
                s\<lparr>sv_revoke := Some x,
                  sv_status := set_revoke name \<lparr>hi_client_id = name, hi_source_ip = x_ip e,
                    hi_at_unix = time_at E AtHook, hi_exit_code = cr_exit_code result,
                    hi_timed_out = cr_timed_out result, hi_param = p, hi_reason = Some (cause_word c)\<rparr> (sv_status s)\<rparr>)))"
| "advance P E (PurgeNonces now) s = ([], PurgeSeen now, s\<lparr>sv_nonces := fst (ns_purge_expired now (sv_nonces s))\<rparr>)"
| "advance P E (PurgeSeen now) s = ([], PurgeLimiter, s\<lparr>sv_seen := fst (sc_purge_expired now (sv_seen s))\<rparr>)"
| "advance P E PurgeLimiter s =
     ([], PurgeBlacklist, s\<lparr>sv_limiter := rl_purge_stale (inst_at E AtPurgeLimiter) (sv_limiter s)\<rparr>)"
| "advance P E PurgeBlacklist s =
     ([], PurgeActive, s\<lparr>sv_blacklist := bl_purge_stale (inst_at E AtPurgeBlacklist) (sv_blacklist s)\<rparr>)"
| "advance P E PurgeActive s =
     ([], PurgeCooldown, s\<lparr>sv_active := ai_purge_stale (inst_at E AtPurgeActive) (sv_active s)\<rparr>)"
| "advance P E PurgeCooldown s =
     ([], ScanLeases, s\<lparr>sv_cooldown := cd_purge_stale (inst_at E AtPurgeCooldown) (sv_cooldown s)\<rparr>)"
| "advance P E ScanLeases s = (let (s, items) = lease_scan E s in ([], Sweeping items, s))"
| "advance P E (Sweeping []) s = ([], Sweeping [], s)"
| "advance P E (Sweeping ((e, name, remaining) # items)) s =
     ([], Revoking e name (x_param e) remaining (ByScan items), s)"
| "advance P E (Finished out) s = ([], Finished out, s)"

fun terminal :: "stage \<Rightarrow> bool" where
  "terminal (Finished out) \<longleftrightarrow> True"
| "terminal (Sweeping items) \<longleftrightarrow> items = []"
| "terminal _ \<longleftrightarrow> False"

subsection \<open>A task that nobody interrupts\<close>

primrec solo :: "primitives \<Rightarrow> env \<Rightarrow> nat \<Rightarrow> stage \<Rightarrow> server \<Rightarrow> advanced" where
  "solo P E 0 st s = ([], st, s)"
| "solo P E (Suc n) st s =
     (let (effs, st, s) = advance P E st s; (effs', st, s) = solo P E n st s in (effs @ effs', st, s))"

lemma solo_Finished [simp]: "solo P E n (Finished out) s = ([], Finished out, s)"
  by (induction n) simp_all

lemma solo_returned: "(let (effs, st, s) = returned x; (effs', st, s) = solo P E n st s in (effs @ effs', st, s)) = returned x"
  by (simp add: returned_def split: prod.split)

lemma solo_grant:
  "solo P E (Suc (Suc (Suc (Suc (Suc n))))) (Accepted peer r info p) s =
     returned (grant E (r_interval r) (to_hex (r_client_id r)) (ci_name info) p peer s)"
  by (simp add: grant_def returned_def run_hook_def Let_def split: may_panic.split prod.split sum.split)

lemma solo_revoke:
  "solo P E (Suc (Suc n)) (Revoking e name p k (ByBye b)) s =
     (case sv_revoke s of
        None \<Rightarrow> returned (NoRevokeHook, [], s)
      | Some x \<Rightarrow> returned (run_revoke E e name p ''bye'' k x s))"
  by (simp add: run_revoke_def returned_def run_hook_def Let_def split: option.split prod.split sum.split)

lemma display_name_leases [simp]: "display_name n (s\<lparr>sv_leases := l\<rparr>) = display_name n s"
  by (simp add: display_name_def split: may_panic.split sum.split)

lemma solo_release:
  "solo P E (Suc (Suc (Suc n))) (Releasing peer b p) s = returned (accept_bye E b p s)"
  by (subst solo.simps(2))
     (simp del: solo.simps(2) add: accept_bye_def solo_revoke returned_def Let_def split: option.split prod.split)

lemma solo_claim:
  "solo P E (Suc (Suc (Suc (Suc (Suc (Suc (Suc (Suc n)))))))) (Presented peer c) s =
     returned (case c of Pulse r \<Rightarrow> handle_response P E r peer s | Farewell b \<Rightarrow> handle_bye P E b peer s)"
proof (cases "check_proof P E (claim_payload P c s) (claim_id c) (claim_nonce c) (claim_sig c) peer s")
  case (Inl res)
  then show ?thesis
    by (cases c) (simp_all add: handle_response_def handle_bye_def authenticate_def returned_def split: prod.split)
next
  case (Inr ie)
  obtain info effs where ie: "ie = (info, effs)" by (cases ie)
  show ?thesis
  proof (cases "consume_proof E (claim_id c) (claim_nonce c) peer s")
    case (Inl r)
    with Inr ie show ?thesis
      by (cases c; cases r)
         (simp_all add: handle_response_def handle_bye_def authenticate_def returned_def)
  next
    case won: (Inr s1)
    obtain s2 pr where d: "decrypt_param P E (claim_param c) s1 = (s2, pr)" by fastforce
    note first = solo.simps(2) [of P E _ "Presented peer cl" for cl] solo.simps(2) [of P E _ "Checked peer cl info" for cl]
      solo.simps(2) [of P E _ "Consumed peer cl info" for cl]
    show ?thesis
    proof (cases pr)
      case Inl
      with Inr ie won d show ?thesis
        by (cases c) (simp_all add: handle_response_def handle_bye_def authenticate_def returned_def)
    next
      case ok: (Inr p)
      show ?thesis
      proof (cases c)
        case (Pulse r)
        with Inr ie won d ok show ?thesis
          by (simp del: solo.simps(2) add: first solo_grant handle_response_def authenticate_def accept_response_def
              record_pulse_def returned_def Let_def split: prod.split)
      next
        case (Farewell b)
        with Inr ie won d ok show ?thesis
          by (simp del: solo.simps(2) add: first solo_release handle_bye_def authenticate_def returned_def split: prod.split)
      qed
    qed
  qed
qed

lemma solo_accept:
  "solo P E (Suc (Suc (Suc n))) (Unseen peer h reply now) s = returned (accept_hello P E h peer reply now s)"
  by (simp add: accept_hello_def returned_def Let_def split: prod.split)

lemma solo_greeting:
  "solo P E (Suc (Suc (Suc (Suc (Suc n))))) (Greeting peer h reply) s = returned (handle_hello P E h peer reply s)"
proof -
  note first = solo.simps(2) [of P E _ "Greeting p h r" for p h r] solo.simps(2) [of P E _ "Fresh p h r t" for p h r t]
  show ?thesis
    by (simp del: solo.simps(2) add: first handle_hello_def solo_accept returned_def Let_def
        split: prod.split option.split sum.split)
qed

text \<open>The rest of a task's run after one step.\<close>

definition follow :: "primitives \<Rightarrow> env \<Rightarrow> nat \<Rightarrow> advanced \<Rightarrow> advanced" where
  "follow P E n x = (let (effs, st, s) = x; (effs', st, s) = solo P E n st s in (effs @ effs', st, s))"

lemma follow_simps [simp]:
  "follow P E n (returned x) = returned x"
  "follow P E n ([], st, s) = solo P E n st s"
  by (simp_all add: follow_def returned_def split: prod.split)

lemma solo_Suc: "solo P E (Suc n) st s = follow P E n (advance P E st s)"
  by (simp add: follow_def)

lemma solo_route: "follow P E 8 (route E bs reply peer s) = returned (dispatch P E bs reply peer s)"
proof -
  have "solo P E 8 (Presented peer c) s =
      returned (case c of Pulse r \<Rightarrow> handle_response P E r peer s | Farewell b \<Rightarrow> handle_bye P E b peer s)" for c
    using solo_claim [of P E 0] by (simp add: eval_nat_numeral del: solo.simps)
  moreover have "solo P E 8 (Greeting peer h reply) s = returned (handle_hello P E h peer reply s)" for h
    using solo_greeting [of P E 3] by (simp add: eval_nat_numeral del: solo.simps)
  ultimately show ?thesis
    by (simp add: route_def dispatch_def returned_def [of "(_, [], _)"] split: sum.split packet.split)
qed

lemma solo_handled: "solo P E 9 (Opening peer data) s = returned (handle_datagram P E data peer s)"
proof -
  have "solo P E (Suc 8) (Opening peer data) s = returned (handle_datagram P E data peer s)"
    unfolding solo_Suc advance.simps(1)
    by (simp add: read_in_def handle_datagram_def solo_route returned_def [of "(_, [], _)"]
        split: wire_encryption.split option.split sum.split prod.split)
  then show ?thesis by simp
qed

lemma solo_cleanup:
  "solo P E 7 (PurgeNonces (time_at E AtTick)) s = (let (s', items) = cleanup_tick E s in ([], Sweeping items, s'))"
  by (simp add: eval_nat_numeral cleanup_tick_def lease_scan_def Let_def split: option.split prod.split)


text \<open>The task of a lease scan revokes one lease after the other as \<open>revoke_expired\<close> does.\<close>

lemma solo_scan:
  assumes "sv_revoke s \<noteq> None"
  shows "\<exists>n \<in> {2, 3}. solo P E n (Sweeping (item # items)) s =
    (let (out, effs, s) = revoke_expired E item s in (effs, Sweeping items, s))"
proof -
  obtain e name k where item: "item = (e, name, k)" by (cases item)
  obtain x where x: "sv_revoke s = Some x" using assms by auto
  obtain x' r where st: "execute_start (e_spawn_error E) (x_client_id e) (x_ip e) (x_source_port e) (x_param e) False
      ''expired'' k x = (x', r)" by fastforce
  show ?thesis
  proof (cases r)
    case Inl
    with item x st show ?thesis
      by (intro bexI [of _ 2]) (simp_all add: eval_nat_numeral revoke_expired_def run_revoke_def run_hook_def)
  next
    case Inr
    with item x st show ?thesis
      by (intro bexI [of _ 3])
         (simp_all add: eval_nat_numeral revoke_expired_def run_revoke_def run_hook_def Let_def split: prod.split sum.split)
  qed
qed

end
