(* ===== verification/Interleaving.thy ===== *)
theory Interleaving
  imports Tasks Handshake
begin

text \<open>
  The server with all its tasks: a world is the shared state with the stages of the tasks spawned
  so far, and \<open>wstep\<close> is one move of the receive loop, the cleanup timer or any task. The invariants
  are proved by rule induction on runs: well-formed tables, permits and hook slots, the standing of a
  claim, and the count of challenges used up.

  A run stops at the first panic: \<open>wstep\<close> asks that no task has panicked. Every tick of the timer starts a turn of
  the cleanup as a task; the server's one cleanup task takes the turns one after the other, which is
  one of the schedules.
\<close>

subsection \<open>Worlds\<close>

type_synonym world = "server \<times> stage list"

datatype label =
    Shed outcome
  | Arrived
  | Ticked env
  | Advanced env stage "effect list" stage

text \<open>A datagram's task holds a permit of the in-flight semaphore until it ends; 0 is no bound.\<close>

fun holds_permit :: "stage \<Rightarrow> bool" where
  "holds_permit (Finished out) \<longleftrightarrow> False"
| "holds_permit (PurgeNonces now) \<longleftrightarrow> False"
| "holds_permit (PurgeSeen now) \<longleftrightarrow> False"
| "holds_permit PurgeLimiter \<longleftrightarrow> False"
| "holds_permit PurgeBlacklist \<longleftrightarrow> False"
| "holds_permit PurgeActive \<longleftrightarrow> False"
| "holds_permit PurgeCooldown \<longleftrightarrow> False"
| "holds_permit ScanLeases \<longleftrightarrow> False"
| "holds_permit (Sweeping items) \<longleftrightarrow> False"
| "holds_permit (Revoking e name p k c) \<longleftrightarrow> (case c of ByBye b \<Rightarrow> True | ByScan items \<Rightarrow> False)"
| "holds_permit (Closing e name p c) \<longleftrightarrow> (case c of ByBye b \<Rightarrow> True | ByScan items \<Rightarrow> False)"
| "holds_permit _ \<longleftrightarrow> True"

definition in_flight :: "stage list \<Rightarrow> nat" where
  "in_flight T = length (filter holds_permit T)"

definition permit_free :: "server \<Rightarrow> stage list \<Rightarrow> bool" where
  "permit_free s T \<longleftrightarrow>
     (let m = ss_max_inflight_packets (sc_server (sv_config s)) in m = 0 \<or> in_flight T < m)"

inductive wstep :: "primitives \<Rightarrow> world \<Rightarrow> label \<Rightarrow> world \<Rightarrow> bool" for P where
  shed: "Finished Panicked \<notin> set T \<Longrightarrow> e_permit E = permit_free s T \<Longrightarrow> gate (E :: env) len ip s = Inl (out, s') \<Longrightarrow>
    wstep P (s, T) (Shed out) (s', T)"
| arrive: "Finished Panicked \<notin> set T \<Longrightarrow> e_permit E = permit_free s T \<Longrightarrow> gate (E :: env) (length data) (fst peer) s = Inr s' \<Longrightarrow>
    wstep P (s, T) Arrived (s', T @ [Opening peer data])"
| tick: "Finished Panicked \<notin> set T \<Longrightarrow> wstep P (s, T) (Ticked E) (s, T @ [PurgeNonces (time_at E AtTick)])"
| task: "Finished Panicked \<notin> set T \<Longrightarrow> i < length T \<Longrightarrow> \<not> terminal (T ! i) \<Longrightarrow>
    advance P E (T ! i) s = (effs, st, s') \<Longrightarrow>
    wstep P (s, T) (Advanced E (T ! i) effs st) (s', T[i := st])"

inductive wrun :: "primitives \<Rightarrow> world \<Rightarrow> label list \<Rightarrow> world \<Rightarrow> bool" for P where
  start: "wrun P w [] w"
| step: "wrun P w tr w' \<Longrightarrow> wstep P w' l w'' \<Longrightarrow> wrun P w (tr @ [l]) w''"

inductive_cases wstep_cases [consumes 1, case_names shed arrive tick task]: "wstep P w l w'"

text \<open>What holds at the start and along every step holds in every world of a run.\<close>

lemma wrun_invariant [consumes 1, case_names start step]:
  assumes "wrun P w tr w'" and "I [] w"
    and "\<And>tr w l w'. I tr w \<Longrightarrow> wstep P w l w' \<Longrightarrow> I (tr @ [l]) w'"
  shows "I tr w'"
  using assms by (induction rule: wrun.induct) auto

subsection \<open>Counting tasks\<close>

definition tally :: "('a \<Rightarrow> bool) \<Rightarrow> 'a list \<Rightarrow> nat" where
  "tally Q xs = length (filter Q xs)"

lemma tally_simps [simp]:
  "tally Q [] = 0"
  "tally Q (x # xs) = (if Q x then 1 else 0) + tally Q xs"
  "tally Q (xs @ ys) = tally Q xs + tally Q ys"
  by (simp_all add: tally_def)

lemma tally_update:
  "i < length xs \<Longrightarrow> tally Q (xs[i := x]) + (if Q (xs ! i) then 1 else 0) = tally Q xs + (if Q x then 1 else 0)"
proof (induction xs arbitrary: i)
  case (Cons y xs)
  then show ?case by (cases i) (auto simp: tally_def)
qed simp

lemma tally_pos: "i < length xs \<Longrightarrow> Q (xs ! i) \<Longrightarrow> 0 < tally Q xs"
  by (auto simp: tally_def filter_empty_conv intro: nth_mem)

subsection \<open>What a step of a task leaves alone\<close>

lemmas step_splits = option.splits may_panic.splits sum.splits prod.splits if_splits claim.splits

lemma finish_running: "fst (execute_finish w x) = x\<lparr>pe_running := pe_running x - 1\<rparr>"
  by (simp add: execute_finish_def Let_def split: wait_outcome.split)

lemma start_running:
  "fst (execute_start e c ip p q n why k x) =
     (case snd (execute_start e c ip p q n why k x) of Inl _ \<Rightarrow> x | Inr _ \<Rightarrow> x\<lparr>pe_running := pe_running x + 1\<rparr>)"
  by (auto simp: execute_start_def Let_def split: option.split)

text \<open>The parts of the state that only hooks, and only the nonce steps, change.\<close>

definition same_frame :: "server \<Rightarrow> server \<Rightarrow> bool" where
  "same_frame s s' \<longleftrightarrow> sv_config s' = sv_config s \<and> sv_clients s' = sv_clients s \<and> sv_secret s' = sv_secret s"

lemma same_frame_refl [simp]: "same_frame s s"
  by (simp add: same_frame_def)

lemma faulty_touches: "faulty E out ip s = (out', effs, s') \<Longrightarrow>
    same_setup s s' \<and> sv_nonces s' = sv_nonces s \<and> effs = []"
  by (cases rule: faulty_cases [of E out ip s]) (auto simp: same_setup_def)

lemma greeting_step:
  assumes "advance P E (Greeting peer h reply) s = (effs, st, s')"
  obtains "same_setup s s'" "sv_nonces s' = sv_nonces s" "sv_seen s' = sv_seen s" "server_ok s \<Longrightarrow> server_ok s'"
    "(\<exists>out. st = Finished out) \<or>
     st = Fresh peer h reply (time_at E AtFresh) \<and> \<bar>time_at E AtFresh - h_timestamp h\<bar> \<le> int (skew_of s) \<and>
     (\<exists>info. map_of (sv_clients s) (h_client_id h) = Some info \<and>
        ed_verify_strict P (ci_verifying_key info) (hello_payload P h s) (h_signature h))"
    "\<forall>e \<in> set effs. \<exists>k m sig. e = SigCheck k m sig"
proof -
  obtain l ok where c: "check_at (fst peer) (inst_at E AtRate) (sv_limiter s) = (l, ok)" by fastforce
  then have l: "s\<lparr>sv_limiter := l\<rparr> = counted E peer s" by (simp add: counted_def)
  have p: "hello_payload P h (counted E peer s) = hello_payload P h s" by (simp add: hello_payload_def)
  have "server_ok s \<Longrightarrow> server_ok s'"
    using assms by (auto simp: c l p Let_def split: option.splits sum.splits if_splits)
  with assms show thesis
    by (intro that)
       (auto simp: c l p Let_def skew_of_def same_setup_def verify_payload_raw_def split: option.splits if_splits)
qed

lemma fresh_step:
  assumes "advance P E (Fresh peer h reply now) s = (effs, st, s')"
    and "(seen, new) = insert_if_absent (replay_key h) now (u64_saturating_mul (skew_of s) 2) (sv_seen s)"
  obtains "same_setup s s'" "sv_nonces s' = sv_nonces s" "sv_seen s' = seen" "server_ok s \<Longrightarrow> server_ok s'" "effs = []"
    "st = (if new then Unseen peer h reply now else Finished HelloReplay)"
proof -
  have "server_ok s \<Longrightarrow> hm_ok seen" using assms(2) [symmetric] hm_ok_insert_if_absent [of "sv_seen s"] 
    by (metis fst_conv server_ok_alt)
  then have "server_ok s \<Longrightarrow> server_ok (s\<lparr>sv_seen := seen\<rparr>)" by (simp add: server_ok_alt)
  with assms(1) assms(2) [symmetric, unfolded skew_of_def] show thesis
    by (intro that) (auto simp: Let_def same_setup_def split: if_splits)
qed

lemma issuing_step:
  assumes "advance P E (Issuing peer h reply n x) s = (effs, st, s')"
  obtains out where "same_setup s s'" "sv_nonces s' = sv_nonces s" "sv_seen s' = sv_seen s" "server_ok s \<Longrightarrow> server_ok s'"
    "st = Finished out" "effs = [] \<or> (\<exists>d. effs = [Sent peer d])"
proof -
  let ?c = "Challenge \<lparr>c_client_id = h_client_id h, c_nonce = n, c_expires_at = x\<rparr>"
  from send_reply_form [of P E ?c peer reply "h_nonce h" s] assms show thesis
    by (elim disjE exE) (rule that, auto simp: same_setup_def server_ok_alt)+
qed

text \<open>The steps of a HELLO after its decoding; only one of them touches the nonces.\<close>

fun greeted :: "stage \<Rightarrow> bool" where
  "greeted (Greeting peer h reply) \<longleftrightarrow> True"
| "greeted (Fresh peer h reply now) \<longleftrightarrow> True"
| "greeted (Unseen peer h reply now) \<longleftrightarrow> True"
| "greeted (Noted peer h reply now) \<longleftrightarrow> True"
| "greeted (Issuing peer h reply n x) \<longleftrightarrow> True"
| "greeted _ \<longleftrightarrow> False"

lemma greeted_step:
  assumes "advance P E st s = (effs, st', s')" and "greeted st"
  shows "same_setup s s' \<and> (server_ok s \<longrightarrow> server_ok s') \<and> (greeted st' \<or> (\<exists>out. st' = Finished out)) \<and>
    (sv_nonces s' = sv_nonces s \<or>
     (\<exists>peer h reply now c x. st = Noted peer h reply now \<and>
        sv_nonces s' = store_step (OpInsert (e_nonce E) c (fst peer) (snd peer) x (time_at E AtInsert)) (sv_nonces s)))"
proof (cases st)
  case (Greeting peer h reply)
  from assms(1) [unfolded this] show ?thesis by (rule greeting_step) auto
next
  case (Fresh peer h reply now)
  obtain seen new where "(seen, new) = insert_if_absent (replay_key h) now (u64_saturating_mul (skew_of s) 2) (sv_seen s)"
    by (metis surj_pair)
  from assms(1) [unfolded Fresh] this show ?thesis by (rule fresh_step) auto
next
  case (Issuing peer h reply m x)
  from assms(1) [unfolded this] show ?thesis by (rule issuing_step) auto
next
  case (Unseen peer h reply now)
  with assms show ?thesis by (auto simp: same_setup_def server_ok_alt)
next
  case (Noted peer h reply now)
  with assms(1) have "st' = Issuing peer h reply (e_nonce E) (min (now + int (ss_nonce_ttl_seconds (sc_server (sv_config s)))) i64_max)"
    and s': "s' = s\<lparr>sv_nonces := store_step (OpInsert (e_nonce E) (to_hex (h_client_id h)) (fst peer) (snd peer)
      (min (now + int (ss_nonce_ttl_seconds (sc_server (sv_config s)))) i64_max) (time_at E AtInsert)) (sv_nonces s)\<rparr>"
    by (auto simp: Let_def)
  moreover have "same_setup s s'" "server_ok s \<Longrightarrow> server_ok s'" unfolding s' by (simp_all add: same_setup_def server_ok_alt)
  ultimately show ?thesis using Noted by (auto simp del: store_step.simps)
qed (use assms(2) in simp_all)

lemma read_in_touches: "read_in P E data peer s = (effs, st, s') \<Longrightarrow>
    same_setup s s' \<and> sv_nonces s' = sv_nonces s \<and> effs = [] \<and>
    (case st of Finished out \<Rightarrow> True | Greeting p h r \<Rightarrow> True | Presented p c \<Rightarrow> True | _ \<Rightarrow> False)"
  by (auto simp: read_in_def route_def returned_def same_setup_def dest!: faulty_touches
      split: wire_encryption.splits option.splits sum.splits packet.splits prod.splits)

lemma check_proof_touches: "check_proof P E f c n g peer s = Inl (out, effs, s') \<Longrightarrow>
    same_setup s s' \<and> sv_nonces s' = sv_nonces s"
  by (cases rule: check_proof_cases [of P E f c n g peer s]) (auto simp: same_setup_def)

lemma consume_proof_touches:
  "consume_proof E c n peer s = Inl (out, s') \<Longrightarrow> same_setup s s' \<and> sv_nonces s' = sv_nonces s"
  "consume_proof E c n peer s = Inr s' \<Longrightarrow> same_setup s s' \<and>
     (\<exists>hex ip p t. sv_nonces s' = store_step (OpConsume n hex ip p t) (sv_nonces s) \<and>
        consumes (OpConsume n hex ip p t) (sv_nonces s) n)"
proof -
  assume "consume_proof E c n peer s = Inl (out, s')"
  then show "same_setup s s' \<and> sv_nonces s' = sv_nonces s"
    by (cases rule: consume_proof_cases [of E c n peer s]) (auto simp: same_setup_def)
next
  assume r: "consume_proof E c n peer s = Inr s'"
  then show "same_setup s s' \<and>
     (\<exists>hex ip p t. sv_nonces s' = store_step (OpConsume n hex ip p t) (sv_nonces s) \<and>
        consumes (OpConsume n hex ip p t) (sv_nonces s) n)"
  proof (cases rule: consume_proof_cases [of E c n peer s])
    case (won entry)
    with r have s': "s' = burnt E c n peer s" by simp
    have "sv_nonces s' = store_step (OpConsume n (to_hex c) (fst peer) (snd peer) (time_at E AtConsume)) (sv_nonces s)"
      by (simp add: s' burnt_def)
    moreover have "consumes (OpConsume n (to_hex c) (fst peer) (snd peer) (time_at E AtConsume)) (sv_nonces s) n"
      using won(2) by simp
    ultimately show ?thesis using s' by (auto simp: same_setup_def simp del: store_step.simps consumes.simps)
  qed simp
qed

lemma scan_touches:
  assumes "lease_scan E s = (s', items)"
  shows "same_setup s s' \<and> sv_nonces s' = sv_nonces s \<and> sv_seen s' = sv_seen s"
proof -
  have "same_setup s (fst (lease_scan E s)) \<and> sv_nonces (fst (lease_scan E s)) = sv_nonces s \<and>
      sv_seen (fst (lease_scan E s)) = sv_seen s"
    by (auto simp: lease_scan_def Let_def same_setup_def case_prod_unfold split: option.split)
  with assms show ?thesis by simp
qed

lemma decrypt_param_touches: "decrypt_param P E b s = (s', r) \<Longrightarrow> same_setup s s' \<and> sv_nonces s' = sv_nonces s"
  by (cases rule: decrypt_param_cases [of P E b s]) (auto simp: same_setup_def)

subsection \<open>Nonces\<close>

text \<open>A step that issues a challenge with the nonce \<open>n\<close>, one that uses it up, one that starts a hook for it.\<close>

fun issued :: "bytes \<Rightarrow> label \<Rightarrow> bool" where
  "issued n (Advanced E (Noted peer h reply now) effs st) \<longleftrightarrow> e_nonce E = n"
| "issued n _ \<longleftrightarrow> False"

fun used_up :: "bytes \<Rightarrow> label \<Rightarrow> bool" where
  "used_up n (Advanced E (Checked peer c info) effs (Consumed peer' c' info')) \<longleftrightarrow> claim_nonce c = n"
| "used_up n _ \<longleftrightarrow> False"

fun hooked :: "bytes \<Rightarrow> label \<Rightarrow> bool" where
  "hooked n (Advanced E (Starting peer r info p is_new k) effs st) \<longleftrightarrow> r_nonce r = n \<and> effs \<noteq> []"
| "hooked n (Advanced E (Revoking e name p k (ByBye b)) effs st) \<longleftrightarrow> b_nonce b = n \<and> effs \<noteq> []"
| "hooked n _ \<longleftrightarrow> False"

text \<open>A task that has used up the nonce \<open>n\<close> and not yet started its hook.\<close>

fun entitled :: "bytes \<Rightarrow> stage \<Rightarrow> bool" where
  "entitled n (Consumed peer c info) \<longleftrightarrow> claim_nonce c = n"
| "entitled n (Accepted peer r info p) \<longleftrightarrow> r_nonce r = n"
| "entitled n (Renewed peer r info p is_new) \<longleftrightarrow> r_nonce r = n"
| "entitled n (Warm peer r info p is_new) \<longleftrightarrow> r_nonce r = n"
| "entitled n (Starting peer r info p is_new k) \<longleftrightarrow> r_nonce r = n"
| "entitled n (Releasing peer b p) \<longleftrightarrow> b_nonce b = n"
| "entitled n (Revoking e name p k (ByBye b)) \<longleftrightarrow> b_nonce b = n"
| "entitled n _ \<longleftrightarrow> False"

lemma advance_nonces:
  assumes "advance P E st s = (effs, st', s')"
  shows "sv_nonces s' = sv_nonces s \<and> \<not> used_up n (Advanced E st effs st') \<or>
    (\<exists>x. sv_nonces s' = store_step x (sv_nonces s) \<and>
       (\<forall>m. issues x m \<longrightarrow> issued m (Advanced E st effs st')) \<and>
       (used_up n (Advanced E st effs st') \<longrightarrow> consumes x (sv_nonces s) n))"
proof (cases "greeted st")
  case True
  show ?thesis
  proof (cases "sv_nonces s' = sv_nonces s")
    case same: True
    with True show ?thesis by (cases st) simp_all
  next
    case False
    with greeted_step [OF assms True] obtain peer h reply now c x where "st = Noted peer h reply now"
      "sv_nonces s' = store_step (OpInsert (e_nonce E) c (fst peer) (snd peer) x (time_at E AtInsert)) (sv_nonces s)"
      by blast
    then show ?thesis
      by (intro disjI2 exI [of _ "OpInsert (e_nonce E) c (fst peer) (snd peer) x (time_at E AtInsert)"]) simp
  qed
next
  case False
  show ?thesis
  proof (cases st)
    case (Checked peer c info)
    show ?thesis
    proof (cases "consume_proof E (claim_id c) (claim_nonce c) peer s")
      case (Inl r)
      with Checked assms show ?thesis by (cases r) (auto dest: consume_proof_touches(1))
    next
      case (Inr t)
      from consume_proof_touches(2) [OF Inr] obtain hex ip p k where
        "sv_nonces t = store_step (OpConsume (claim_nonce c) hex ip p k) (sv_nonces s)"
        "consumes (OpConsume (claim_nonce c) hex ip p k) (sv_nonces s) (claim_nonce c)" by blast
      with Checked Inr assms show ?thesis
        by (intro disjI2 exI [of _ "OpConsume (claim_nonce c) hex ip p k"])
           (auto simp del: store_step.simps consumes.simps)
    qed
  next
    case (PurgeNonces now)
    with assms show ?thesis by (intro disjI2 exI [of _ "OpPurge now"]) auto
  next
    case (Sweeping items)
    with assms show ?thesis by (cases items) auto
  qed (use False assms in \<open>auto simp: returned_def record_pulse_def
         dest: read_in_touches check_proof_touches decrypt_param_touches scan_touches split: step_splits\<close>)
qed

lemma advance_entitled:
  assumes "advance P E st s = (effs, st', s')"
  shows "(if hooked n (Advanced E st effs st') then 1 else 0) + (if entitled n st' then 1 else 0) \<le>
    (if entitled n st then 1 else 0) + (if used_up n (Advanced E st effs st') then 1 else 0 :: nat)"
proof (cases "greeted st")
  case True
  with greeted_step [OF assms True] have "\<not> entitled n st'" by (cases st') auto
  with True show ?thesis by (cases st) simp_all
next
  case False
  show ?thesis
  proof (cases st)
    case (Opening peer data)
    with assms read_in_touches show ?thesis by (cases st') fastforce+
  next
    case (Sweeping items)
    with assms show ?thesis by (cases items) auto
  next
    case (Revoking e name p k c)
    with assms show ?thesis by (cases c) (auto split: step_splits)
  next
    case (Closing e name p c)
    with assms show ?thesis by (cases c) (auto split: step_splits)
  qed (use False assms in \<open>auto simp: returned_def split: step_splits\<close>)
qed

lemma gate_touches:
  "gate E len ip s = Inl (out, s') \<Longrightarrow> same_setup s s' \<and> sv_nonces s' = sv_nonces s"
  "gate E len ip s = Inr s' \<Longrightarrow> same_setup s s' \<and> sv_nonces s' = sv_nonces s"
  by (auto simp: gate_def Let_def same_setup_def split: if_splits)

definition nonce_account :: "bytes \<Rightarrow> label list \<Rightarrow> world \<Rightarrow> bool" where
  "nonce_account n tr w \<longleftrightarrow> hm_ok (sv_nonces (fst w)) \<and>
     tally (hooked n) tr + tally (entitled n) (snd w) \<le> tally (used_up n) tr \<and>
     tally (used_up n) tr + (if ns_unused (sv_nonces (fst w)) n then 1 else 0) \<le> tally (issued n) tr"

lemma nonce_account_step:
  assumes "nonce_account n tr w" and "wstep P w l w'"
  shows "nonce_account n (tr @ [l]) w'"
  using assms(2)
proof (cases rule: wstep_cases)
  case (shed T E s len ip out s')
  with assms(1) show ?thesis using gate_touches(1) [OF shed(6)] by (auto simp: nonce_account_def)
next
  case (arrive T E s data peer s')
  with assms(1) show ?thesis using gate_touches(2) [OF arrive(6)] by (auto simp: nonce_account_def)
next
  case (tick T s E)
  with assms(1) show ?thesis by (simp add: nonce_account_def)
next
  case (task T i E s effs st s')
  let ?l = "Advanced E (T ! i) effs st"
  note acc = assms(1) [unfolded nonce_account_def task fst_conv snd_conv]
  have ent: "tally (hooked n) (tr @ [?l]) + tally (entitled n) (T[i := st]) \<le> tally (used_up n) (tr @ [?l])"
    using acc advance_entitled [OF task(7), of n] tally_update [OF task(5), of "entitled n" st] by simp
  have "hm_ok (sv_nonces s') \<and>
      tally (used_up n) (tr @ [?l]) + (if ns_unused (sv_nonces s') n then 1 else 0) \<le> tally (issued n) (tr @ [?l])"
    using advance_nonces [OF task(7), of n]
  proof (elim disjE exE conjE)
    assume "sv_nonces s' = sv_nonces s" "\<not> used_up n ?l"
    with acc show ?thesis by simp
  next
    fix x
    assume x: "sv_nonces s' = store_step x (sv_nonces s)" "\<forall>m. issues x m \<longrightarrow> issued m ?l"
      "used_up n ?l \<longrightarrow> consumes x (sv_nonces s) n"
    have ok: "hm_ok (sv_nonces s)" using acc by blast
    show ?thesis
      using acc x nonces.take_has [OF ok, of x n] nonces.take_clears [OF ok, of x n]
        nonces.has_step [OF ok, of x n] nonces.inv_step [OF ok, of x]
      by (auto split: if_splits)
  qed
  with ent task show ?thesis by (simp add: nonce_account_def)
qed

lemma nonce_accounts:
  assumes "wrun P (s, []) tr w" and "sv_nonces s = ns_new"
  shows "nonce_account n tr w"
  using assms(1)
proof (induction rule: wrun_invariant)
  case start
  show ?case using assms(2) by (simp add: nonce_account_def ns_new_def ns_unused_def)
qed (rule nonce_account_step)

subsection \<open>Well-formed tables\<close>

lemma read_in_ok: "server_ok s \<Longrightarrow> read_in P E data peer s = (effs, st, s') \<Longrightarrow> server_ok s'"
  by (auto simp: read_in_def route_def returned_def dest: faulty_ok
      split: wire_encryption.splits option.splits sum.splits packet.splits prod.splits)

lemma record_pulse_ok: "server_ok s \<Longrightarrow> server_ok (record_pulse E info peer s)"
  by (simp add: server_ok_alt record_pulse_def set_pulse_def Let_def)

lemma advance_ok:
  assumes "server_ok s" and "advance P E st s = (effs, st', s')"
  shows "server_ok s'"
proof (cases "greeted st")
  case True
  from greeted_step [OF assms(2) True] assms(1) show ?thesis by blast
next
  case False
  show ?thesis
  proof (cases st)
    case (Opening peer data)
    with assms show ?thesis by (auto dest: read_in_ok)
  next
    case (Presented peer c)
    with assms show ?thesis
      by (cases rule: check_proof_cases [of P E "claim_payload P c s" "claim_id c" "claim_nonce c" "claim_sig c" peer s])
         (auto simp: returned_def)
  next
    case (Checked peer c info)
    with assms show ?thesis
      by (cases rule: consume_proof_cases [of E "claim_id c" "claim_nonce c" peer s]) auto
  next
    case (Consumed peer c info)
    with assms show ?thesis
      by (cases rule: decrypt_param_cases [of P E "claim_param c" s])
         (auto simp: record_pulse_ok split: claim.splits)
  next
    case (Accepted peer r info p)
    with assms show ?thesis
      by (auto simp: server_ok_alt split: may_panic.splits prod.splits dest: renew_inv)
  next
    case (Releasing peer b p)
    let ?rel = "release_at (to_hex (b_client_id b)) (inst_at E AtRelease) (sv_leases s)"
    obtain l res where rel: "?rel = (l, res)" by fastforce
    from assms(1) have "lt_inv (ss_max_tracked_ips (sc_server (sv_config s))) (fst ?rel)" by (simp add: server_ok_alt)
    with Releasing rel assms show ?thesis by (auto simp: server_ok_alt split: option.splits)
  next
    case ScanLeases
    with assms lease_scan_ok [of s E] show ?thesis by (auto split: prod.splits)
  next
    case (Sweeping items)
    with assms show ?thesis by (cases items) auto
  qed (use False assms in \<open>auto simp: returned_def server_ok_alt set_hook_def set_revoke_def Let_def
         dest: read_in_ok split: step_splits\<close>)
qed

lemma gate_ok:
  "server_ok s \<Longrightarrow> gate E len ip s = Inl (out, s') \<Longrightarrow> server_ok s'"
  "server_ok s \<Longrightarrow> gate E len ip s = Inr s' \<Longrightarrow> server_ok s'"
  by (auto simp: gate_def Let_def server_ok_alt split: if_splits)

lemma wstep_ok: "wstep P w l w' \<Longrightarrow> server_ok (fst w) \<Longrightarrow> server_ok (fst w')"
  by (cases rule: wstep_cases)
     (auto dest: gate_ok advance_ok)

lemma wrun_ok: "wrun P w tr w' \<Longrightarrow> server_ok (fst w) \<Longrightarrow> server_ok (fst w')"
  by (induction rule: wrun.induct) (auto intro: wstep_ok)

subsection \<open>Permits and hook slots\<close>

fun granting :: "stage \<Rightarrow> bool" where
  "granting (Granting peer r info p) \<longleftrightarrow> True"
| "granting _ \<longleftrightarrow> False"

fun closing :: "stage \<Rightarrow> bool" where
  "closing (Closing e name p c) \<longleftrightarrow> True"
| "closing _ \<longleftrightarrow> False"

definition slots :: "process_executor option \<Rightarrow> nat \<Rightarrow> bool" where
  "slots x k \<longleftrightarrow> (case x of None \<Rightarrow> k = 0 | Some x \<Rightarrow> pe_running x = k \<and> k \<le> pe_max_concurrent x)"

definition limits_of :: "server \<Rightarrow> nat \<times> nat option \<times> nat" where
  "limits_of s = (pe_max_concurrent (sv_executor s), map_option pe_max_concurrent (sv_revoke s),
     ss_max_inflight_packets (sc_server (sv_config s)))"

definition slots_ok :: "world \<Rightarrow> bool" where
  "slots_ok w \<longleftrightarrow>
     slots (Some (sv_executor (fst w))) (tally granting (snd w)) \<and>
     slots (sv_revoke (fst w)) (tally closing (snd w)) \<and>
     bounded (ss_max_inflight_packets (sc_server (sv_config (fst w)))) (in_flight (snd w))"

lemma setup_limits: "same_setup s s' \<Longrightarrow> limits_of s' = limits_of s \<and> sv_executor s' = sv_executor s \<and> sv_revoke s' = sv_revoke s"
  by (simp add: same_setup_def limits_of_def)

lemma start_cases:
  obtains (refused) e where "execute_start se c ip p q n why k x = (x, Inl e)"
  | (started) cmd where "execute_start se c ip p q n why k x = (x\<lparr>pe_running := pe_running x + 1\<rparr>, Inr cmd)"
      "pe_running x < pe_max_concurrent x"
proof (cases "pe_running x < pe_max_concurrent x")
  case True
  then show thesis using refused started by (cases se) (auto simp: execute_start_def Let_def)
next
  case False
  then show thesis by (intro refused [of AtCapacity]) (simp add: execute_start_def)
qed

lemma finish_cases:
  obtains r b where "execute_finish w x = (x\<lparr>pe_running := pe_running x - 1\<rparr>, r, b)"
  by (cases w) (auto simp: execute_finish_def Let_def)

text \<open>One step takes or gives back at most the slot that its stage says.\<close>

lemma advance_setup:
  assumes "advance P E st s = (effs, st', s')" and "\<not> granting st" "\<not> granting st'" "\<not> closing st" "\<not> closing st'"
  shows "same_setup s s'"
proof (cases "greeted st")
  case True
  from greeted_step [OF assms(1) True] show ?thesis by blast
next
  case False
  show ?thesis
  proof (cases st)
    case (Presented peer c)
    with assms show ?thesis by (auto simp: returned_def dest: check_proof_touches split: step_splits)
  next
    case (Checked peer c info)
    with assms show ?thesis by (auto dest: consume_proof_touches split: step_splits)
  next
    case (Consumed peer c info)
    with assms show ?thesis
      by (auto simp: record_pulse_def same_setup_def dest!: decrypt_param_touches split: step_splits)
  next
    case (Starting peer r info p n k)
    show ?thesis
      by (cases rule: start_cases [of "e_spawn_error E" "to_hex (r_client_id r)" "fst peer" "snd peer" p n "''grant''" k "sv_executor s"])
         (use Starting assms in \<open>auto simp: same_setup_def\<close>)
  next
    case (Revoking e name p k c)
    show ?thesis
    proof (cases "sv_revoke s")
      case None
      with Revoking assms show ?thesis by simp
    next
      case (Some x)
      show ?thesis
        by (cases rule: start_cases [of "e_spawn_error E" "x_client_id e" "x_ip e" "x_source_port e" p False "cause_word c" k x])
           (use Revoking Some assms in \<open>auto simp: same_setup_def\<close>)
    qed
  next
    case ScanLeases
    with assms scan_touches [of E s] show ?thesis by (auto split: prod.splits)
  next
    case (Sweeping items)
    with assms show ?thesis by (cases items) auto
  qed (use False assms in \<open>auto simp: returned_def same_setup_def dest: read_in_touches split: step_splits\<close>)
qed

lemma slots_simps [simp]:
  "slots None k \<longleftrightarrow> k = 0"
  "slots (Some x) k \<longleftrightarrow> pe_running x = k \<and> k \<le> pe_max_concurrent x"
  by (simp_all add: slots_def)

lemma resume_not_closing [simp]: "\<not> granting (resume c out)" "\<not> closing (resume c out)"
  by (cases c; simp)+

definition one_if :: "bool \<Rightarrow> nat" where
  "one_if b = (if b then 1 else 0)"

lemma one_if_simps [simp]: "one_if True = 1" "one_if False = 0"
  by (simp_all add: one_if_def)

text \<open>
  A step keeps the count of running hooks in line with the stages: \<open>m\<close> and \<open>k\<close> are the other
  tasks with a running grant hook and a running revoke hook.
\<close>

lemma advance_slots:
  assumes "advance P E st s = (effs, st', s')"
    and "slots (Some (sv_executor s)) (m + one_if (granting st))"
    and "slots (sv_revoke s) (k + one_if (closing st))"
  shows "slots (Some (sv_executor s')) (m + one_if (granting st')) \<and>
    slots (sv_revoke s') (k + one_if (closing st')) \<and> limits_of s' = limits_of s"
proof (cases "granting st \<or> granting st' \<or> closing st \<or> closing st'")
  case False
  with advance_setup [OF assms(1)] assms(2,3) setup_limits [of s s'] show ?thesis by simp
next
  case True
  then have ng: "\<not> greeted st" using greeted_step [OF assms(1)] by (cases st; cases st') auto
  show ?thesis
  proof (cases st)
    case (Opening peer data)
    with True assms read_in_touches show ?thesis by (cases st') fastforce+
  next
    case (Starting peer r info p n j)
    show ?thesis
      by (cases rule: start_cases [of "e_spawn_error E" "to_hex (r_client_id r)" "fst peer" "snd peer" p n "''grant''" j "sv_executor s"])
         (use Starting assms in \<open>auto simp: limits_of_def\<close>)
  next
    case (Granting peer r info p)
    show ?thesis
      by (rule finish_cases [of "e_wait E" "sv_executor s"])
         (use Granting assms in \<open>auto simp: limits_of_def split: sum.splits\<close>)
  next
    case (Revoking e name p j c)
    with True assms(1) have "sv_revoke s \<noteq> None" by (cases "sv_revoke s") auto
    then obtain x where x: "sv_revoke s = Some x" by blast
    show ?thesis
      by (cases rule: start_cases [of "e_spawn_error E" "x_client_id e" "x_ip e" "x_source_port e" p False "cause_word c" j x])
         (use Revoking x assms in \<open>auto simp: limits_of_def\<close>)
  next
    case (Closing e name p c)
    with assms(3) have "sv_revoke s \<noteq> None" by (cases "sv_revoke s") auto
    then obtain x where x: "sv_revoke s = Some x" by blast
    show ?thesis
      by (rule finish_cases [of "e_wait E" x])
         (use Closing x assms in \<open>auto simp: limits_of_def split: sum.splits\<close>)
  next
    case (Sweeping items)
    with True assms show ?thesis by (cases items) auto
  qed (use ng True assms in \<open>auto simp: returned_def split: step_splits\<close>)
qed

lemma advance_permit:
  assumes "advance P E st s = (effs, st', s')" and "\<not> holds_permit st"
  shows "\<not> holds_permit st'"
proof (cases st)
  case ScanLeases
  with assms show ?thesis by (auto split: prod.splits)
next
  case (Sweeping items)
  with assms show ?thesis by (cases items) auto
next
  case (Revoking e name p k c)
  with assms show ?thesis by (cases c) (auto split: step_splits)
next
  case (Closing e name p c)
  with assms show ?thesis by (cases c) (auto split: step_splits)
qed (use assms in \<open>auto simp del: advance.simps(2,3,6)\<close>)

lemma slots_ok_step:
  assumes "slots_ok w" and "wstep P w l w'"
  shows "slots_ok w' \<and> limits_of (fst w') = limits_of (fst w)"
  using assms(2)
proof (cases rule: wstep_cases)
  case (shed T E s len ip out s')
  then have "same_setup s s'" using gate_touches(1) by blast
  with assms(1) shed show ?thesis by (simp add: slots_ok_def same_setup_def limits_of_def)
next
  case (arrive T E s data peer s')
  then have "same_setup s s'" using gate_touches(2) by blast
  moreover have "permit_free s T" using arrive by (auto simp: gate_def Let_def split: if_splits)
  ultimately show ?thesis using assms(1) arrive
    by (auto simp: slots_ok_def same_setup_def limits_of_def bounded_def in_flight_def permit_free_def)
next
  case (tick T s E)
  with assms(1) show ?thesis by (simp add: slots_ok_def limits_of_def in_flight_def)
next
  case (task T i E s effs st s')
  note slots = assms(1) [unfolded slots_ok_def task fst_conv snd_conv]
  have t: "tally Q T = (tally Q T - one_if (Q (T ! i))) + one_if (Q (T ! i)) \<and>
      tally Q (T[i := st]) = (tally Q T - one_if (Q (T ! i))) + one_if (Q st)" for Q
    using tally_update [OF task(5), of Q st] tally_pos [OF task(5), of Q]
    by (auto simp: one_if_def split: if_splits)
  have *: "slots (Some (sv_executor s')) (tally granting (T[i := st])) \<and>
      slots (sv_revoke s') (tally closing (T[i := st])) \<and> limits_of s' = limits_of s"
    using slots advance_slots [OF task(7)] t by metis
  moreover have "in_flight (T[i := st]) \<le> in_flight T"
    using tally_update [OF task(5), of holds_permit st] advance_permit [OF task(7)]
    by (auto simp: in_flight_def tally_def split: if_splits)
  ultimately show ?thesis using slots task
    by (auto simp: slots_ok_def limits_of_def bounded_def)
qed

lemma wrun_slots:
  assumes "wrun P w tr w'" and "slots_ok w"
  shows "slots_ok w' \<and> limits_of (fst w') = limits_of (fst w)"
  using assms by (induction rule: wrun.induct) (auto dest: slots_ok_step)

subsection \<open>Signed claims\<close>

text \<open>The claim carries a signature by its client, over the payload with some challenge's expiry.\<close>

definition signed_claim :: "primitives \<Rightarrow> server \<Rightarrow> claim \<Rightarrow> bool" where
  "signed_claim P s c \<longleftrightarrow>
     (\<exists>info expiry. map_of (sv_clients s) (claim_id c) = Some info \<and>
        ed_verify_strict P (ci_verifying_key info) (claim_payload P c s expiry) (claim_sig c))"

text \<open>The claim on whose behalf a task acts after its checks.\<close>

fun claim_of :: "stage \<Rightarrow> claim option" where
  "claim_of (Checked peer c info) = Some c"
| "claim_of (Consumed peer c info) = Some c"
| "claim_of (Accepted peer r info p) = Some (Pulse r)"
| "claim_of (Renewed peer r info p is_new) = Some (Pulse r)"
| "claim_of (Warm peer r info p is_new) = Some (Pulse r)"
| "claim_of (Starting peer r info p is_new k) = Some (Pulse r)"
| "claim_of (Granting peer r info p) = Some (Pulse r)"
| "claim_of (Releasing peer b p) = Some (Farewell b)"
| "claim_of (Revoking e name p k (ByBye b)) = Some (Farewell b)"
| "claim_of (Closing e name p (ByBye b)) = Some (Farewell b)"
| "claim_of _ = None"

definition stands :: "primitives \<Rightarrow> server \<Rightarrow> stage \<Rightarrow> bool" where
  "stands P s st \<longleftrightarrow> (\<forall>c. claim_of st = Some c \<longrightarrow> signed_claim P s c)"

fun source_of :: "label \<Rightarrow> stage option" where
  "source_of (Advanced E st effs st') = Some st"
| "source_of _ = None"

lemma same_frame_claim: "same_frame s s' \<Longrightarrow> signed_claim P s' c = signed_claim P s c"
  by (cases c) (auto simp: signed_claim_def same_frame_def response_payload_def bye_payload_def fun_eq_iff)

lemma same_frame_trans: "same_frame s t \<Longrightarrow> same_frame t u \<Longrightarrow> same_frame s u"
  by (simp add: same_frame_def)

lemma setup_frame: "same_setup s s' \<Longrightarrow> same_frame s s'"
  by (simp add: same_setup_def same_frame_def)

lemma advance_frame:
  assumes "advance P E st s = (effs, st', s')"
  shows "same_frame s s'"
proof (cases "granting st \<or> granting st' \<or> closing st \<or> closing st'")
  case False
  with advance_setup [OF assms] show ?thesis by (simp add: setup_frame)
next
  case True
  then have ng: "\<not> greeted st" using greeted_step [OF assms] by (cases st; cases st') auto
  show ?thesis
  proof (cases st)
    case (Opening peer data)
    with assms show ?thesis using read_in_touches setup_frame by fastforce
  next
    case (Sweeping items)
    with True assms show ?thesis by (cases items) auto
  qed (use ng True assms in \<open>auto simp: returned_def same_frame_def split: step_splits\<close>)
qed

lemma advance_stands:
  assumes "advance P E st s = (effs, st', s')" and "stands P s st"
  shows "stands P s st'"
proof (cases "greeted st")
  case True
  with greeted_step [OF assms(1) True] show ?thesis by (cases st') (auto simp: stands_def)
next
  case False
  show ?thesis
  proof (cases st)
    case (Opening peer data)
    with assms read_in_touches show ?thesis by (cases st') (fastforce simp: stands_def)+
  next
    case (Presented peer c)
    with assms show ?thesis
      by (cases rule: check_proof_cases [of P E "claim_payload P c s" "claim_id c" "claim_nonce c" "claim_sig c" peer s])
         (auto simp: returned_def stands_def signed_claim_def proven_def)
  next
    case (Revoking e name p k c)
    with assms show ?thesis by (cases c) (auto simp: stands_def split: step_splits)
  next
    case (Closing e name p c)
    with assms show ?thesis by (cases c) (auto simp: stands_def split: step_splits)
  next
    case (Sweeping items)
    with assms show ?thesis by (cases items) (auto simp: stands_def)
  qed (use False assms in \<open>auto simp: returned_def stands_def split: step_splits\<close>)
qed

definition all_stand :: "primitives \<Rightarrow> server \<Rightarrow> label list \<Rightarrow> world \<Rightarrow> bool" where
  "all_stand P s0 tr w \<longleftrightarrow> same_frame s0 (fst w) \<and> (\<forall>st \<in> set (snd w). stands P s0 st) \<and>
     (\<forall>l \<in> set tr. \<forall>st. source_of l = Some st \<longrightarrow> stands P s0 st)"

lemma all_stand_step:
  assumes "all_stand P s0 tr w" and "wstep P w l w'"
  shows "all_stand P s0 (tr @ [l]) w'"
  using assms(2)
proof (cases rule: wstep_cases)
  case (shed T E s len ip out s')
  then have "same_frame s s'" using gate_touches(1) setup_frame by blast
  with assms(1) shed show ?thesis by (auto simp: all_stand_def elim: same_frame_trans)
next
  case (arrive T E s data peer s')
  then have "same_frame s s'" using gate_touches(2) setup_frame by blast
  with assms(1) arrive show ?thesis by (auto simp: all_stand_def stands_def elim: same_frame_trans)
next
  case (tick T s E)
  with assms(1) show ?thesis by (auto simp: all_stand_def stands_def)
next
  case (task T i E s effs st s')
  then have f: "same_frame s s'" using advance_frame by blast
  have s0: "same_frame s0 s" and T: "\<forall>st \<in> set T. stands P s0 st" using assms(1) task by (auto simp: all_stand_def)
  then have i: "stands P s0 (T ! i)" using task by simp
  have "stands P s st = stands P s0 st" for st using same_frame_claim [OF s0] by (simp add: stands_def)
  with i advance_stands [OF task(7)] have "stands P s0 st" by simp
  with T have "\<forall>st \<in> set (T[i := st]). stands P s0 st" using set_update_subset_insert [of T i st] by auto
  with f s0 i assms(1) task show ?thesis by (auto simp: all_stand_def elim: same_frame_trans)
qed

lemma wrun_stands:
  assumes "wrun P (s, []) tr w"
  shows "all_stand P s tr w"
  using assms by (induction rule: wrun_invariant) (simp_all add: all_stand_step, simp add: all_stand_def)

lemma hooked_source: "hooked n l \<Longrightarrow> \<exists>st c. source_of l = Some st \<and> claim_of st = Some c \<and> claim_nonce c = n"
  by (induction n l rule: hooked.induct) auto

subsection \<open>Cleanup\<close>

text \<open>A turn of the cleanup loop, up to the revocation of the leases that it found.\<close>

fun cleaning :: "stage \<Rightarrow> bool" where
  "cleaning (PurgeNonces now) \<longleftrightarrow> True"
| "cleaning (PurgeSeen now) \<longleftrightarrow> True"
| "cleaning PurgeLimiter \<longleftrightarrow> True"
| "cleaning PurgeBlacklist \<longleftrightarrow> True"
| "cleaning PurgeActive \<longleftrightarrow> True"
| "cleaning PurgeCooldown \<longleftrightarrow> True"
| "cleaning ScanLeases \<longleftrightarrow> True"
| "cleaning (Sweeping items) \<longleftrightarrow> True"
| "cleaning (Revoking e name p k c) \<longleftrightarrow> (case c of ByBye b \<Rightarrow> False | ByScan items \<Rightarrow> True)"
| "cleaning (Closing e name p c) \<longleftrightarrow> (case c of ByBye b \<Rightarrow> False | ByScan items \<Rightarrow> True)"
| "cleaning _ \<longleftrightarrow> False"

lemma advance_cleaning:
  assumes "advance P E st s = (effs, st', s')" and "\<not> cleaning st"
  shows "\<not> cleaning st'"
proof (cases "greeted st")
  case True
  with greeted_step [OF assms(1) True] show ?thesis by (cases st') auto
next
  case False
  show ?thesis
  proof (cases st)
    case (Opening peer data)
    with assms read_in_touches show ?thesis by (cases st') fastforce+
  next
    case (Revoking e name p k c)
    with assms show ?thesis by (cases c) (auto split: step_splits)
  next
    case (Closing e name p c)
    with assms show ?thesis by (cases c) (auto split: step_splits)
  qed (use False assms in \<open>auto simp: returned_def split: step_splits\<close>)
qed

lemma no_cleaning_without_ticks:
  assumes "wrun P (s, []) tr w" and "Ticked ` UNIV \<inter> set tr = {}" and "l \<in> set tr" and "source_of l = Some st"
  shows "\<not> cleaning st"
proof -
  have "Ticked ` UNIV \<inter> set tr = {} \<longrightarrow> (\<forall>st \<in> set (snd w). \<not> cleaning st) \<and>
      (\<forall>l \<in> set tr. \<forall>st. source_of l = Some st \<longrightarrow> \<not> cleaning st)"
    using assms(1)
  proof (induction rule: wrun_invariant)
    case (step tr w l w')
    show ?case
    proof
      assume no: "Ticked ` UNIV \<inter> set (tr @ [l]) = {}"
      with step(1) have IH: "\<forall>st \<in> set (snd w). \<not> cleaning st" "\<forall>l \<in> set tr. \<forall>st. source_of l = Some st \<longrightarrow> \<not> cleaning st" by auto
      from step(2) show "(\<forall>st \<in> set (snd w'). \<not> cleaning st) \<and>
          (\<forall>l \<in> set (tr @ [l]). \<forall>st. source_of l = Some st \<longrightarrow> \<not> cleaning st)"
      proof (cases rule: wstep_cases)
        case (task T i E t effs st t')
        then have i: "\<not> cleaning (T ! i)" using IH(1) by simp
        with advance_cleaning [OF task(7)] have "\<not> cleaning st" by blast
        then have "\<forall>x \<in> set (T[i := st]). \<not> cleaning x" using IH(1) task(1) set_update_subset_insert [of T i st] by auto
        with IH(2) i task show ?thesis by simp
      qed (use IH no in auto)
    qed
  qed simp
  with assms(2-4) show ?thesis by blast
qed

subsection \<open>Sequential runs are runs\<close>

lemma wrun_trans: "wrun P w' tr' w'' \<Longrightarrow> wrun P w tr w' \<Longrightarrow> wrun P w (tr @ tr') w''"
  by (induction rule: wrun.induct) (auto simp flip: append_assoc intro: wrun.intros)

fun label_effects :: "label \<Rightarrow> effect list" where
  "label_effects (Advanced E st effs st') = effs"
| "label_effects _ = []"

lemma terminal_stays: "terminal st \<Longrightarrow> advance P E st s = ([], st, s)"
proof (cases st)
  case (Sweeping items)
  assume "terminal st"
  with Sweeping show ?thesis by (cases items) auto
qed auto

lemma solo_run:
  assumes "solo P E n st s = (effs, st', s')" and "Finished Panicked \<notin> set T"
  shows "\<exists>tr. wrun P (s, T @ [st]) tr (s', T @ [st']) \<and> concat (map label_effects tr) = effs \<and> Ticked ` UNIV \<inter> set tr = {}"
  using assms(1)
proof (induction n arbitrary: st s effs)
  case 0
  then show ?case by (intro exI [of _ "[]"]) (simp add: wrun.start)
next
  case (Suc n)
  show ?case
  proof (cases "terminal st")
    case True
    with Suc show ?thesis by (simp add: terminal_stays split: prod.splits)
  next
    case False
    obtain e1 st1 s1 where adv: "advance P E st s = (e1, st1, s1)" by (metis prod_cases3)
    obtain e2 where rest: "solo P E n st1 s1 = (e2, st', s')" "effs = e1 @ e2"
      using Suc.prems adv by (auto split: prod.splits)
    obtain tr where tr: "wrun P (s1, T @ [st1]) tr (s', T @ [st'])" "concat (map label_effects tr) = e2" "Ticked ` UNIV \<inter> set tr = {}"
      using Suc.IH [OF rest(1)] by blast
    have "Finished Panicked \<notin> set (T @ [st])" using assms(2) False by auto
    from wstep.task [OF this, of "length T" P E s e1 st1 s1] False adv
    have "wstep P (s, T @ [st]) (Advanced E st e1 st1) (s1, T @ [st1])" by simp
    from wrun_trans [OF tr(1) wrun.step [OF wrun.start this]] tr(2,3) rest(2) show ?thesis
      by (intro exI [of _ "[Advanced E st e1 st1] @ tr"]) auto
  qed
qed

lemma receive_run:
  assumes "receive P E data peer s = (out, effs, s')" and "out \<notin> {Oversized, Blocked, LockedOut, NoPermit}"
    and "Finished Panicked \<notin> set T" and "e_permit E = permit_free s T"
  shows "\<exists>tr. wrun P (s, T) tr (s', T @ [Finished out]) \<and> concat (map label_effects tr) = effs \<and> Ticked ` UNIV \<inter> set tr = {}"
proof -
  obtain t where g: "gate E (length data) (fst peer) s = Inr t" "handle_datagram P E data peer t = (out, effs, s')"
    using assms(1,2) by (auto simp: receive_def gate_def Let_def split: sum.splits if_splits)
  then have "solo P E 9 (Opening peer data) t = (effs, Finished out, s')"
    by (simp add: solo_handled returned_def)
  from solo_run [OF this assms(3)] obtain tr where
    tr: "wrun P (t, T @ [Opening peer data]) tr (s', T @ [Finished out])" "concat (map label_effects tr) = effs"
      "Ticked ` UNIV \<inter> set tr = {}" by blast
  have "wstep P (s, T) Arrived (t, T @ [Opening peer data])" by (rule wstep.arrive [OF assms(3,4) g(1)])
  from wrun_trans [OF tr(1) wrun.step [OF wrun.start this]] tr(2,3) show ?thesis
    by (intro exI [of _ "[Arrived] @ tr"]) auto
qed

text \<open>The instance: an exchange, packet after packet, starts a hook.\<close>

lemma demo_exchange:
  obtains d reply_effs reply s1 f sig cmd s2 out res where
    "receive demo demo_env d demo_peer demo_server = (ChallengeIssued, reply_effs, s1)" "reply \<in> set (sent_to demo_peer reply_effs)"
    "receive demo demo_env f demo_peer s1 = (HookRan res, [sig, Spawned cmd], s2)"
proof -
  have "\<exists>d e y s1 f. receive demo demo_env d demo_peer demo_server = (o1, e, s1) \<and> y \<in> set (sent_to demo_peer e) \<and>
      receive demo demo_env f demo_peer s1 = r"
    if "exchange demo demo_client demo_target demo_attempt param mode demo_env demo_env demo_peer demo_server = Some (o1, r)" for param mode o1 r
    using that by (fastforce simp: exchange_def split: sum.splits list.splits prod.splits)
  note split = this
  from exchange_completes [OF demo_lawful demo_paired demo_well_drawn demo_sends(1-5) demo_timely(1) demo_welcomes
      demo_sendable demo_timely(3,2,4,4) demo_ready demo_sends(6)]
  obtain sig cmd s2 res where "exchange demo demo_client demo_target demo_attempt (Some ''ok'') Renew demo_env demo_env demo_peer
      demo_server = Some (ChallengeIssued, HookRan res, [sig, Spawned cmd], s2)" by blast
  from split [OF this] that show thesis by blast
qed

lemma demo_run:
  obtains tr w cmd d where "wrun demo (demo_server, []) tr w" "Spawned cmd \<in> set (concat (map label_effects tr))"
    "Sent demo_peer d \<in> set (concat (map label_effects tr))" "Ticked ` UNIV \<inter> set tr = {}"
proof -
  obtain d e y s1 f sig cmd s2 res where r:
    "receive demo demo_env d demo_peer demo_server = (ChallengeIssued, e, s1)" "y \<in> set (sent_to demo_peer e)"
    "receive demo demo_env f demo_peer s1 = (HookRan res, [sig, Spawned cmd], s2)"
    by (rule demo_exchange)
  have free: "permit_free s T" if "sv_config s = demo_config" "in_flight T = 0" for s T
    using that by (simp add: permit_free_def demo_config_def default_server_section_def)
  have permit: "e_permit demo_env" by (simp add: demo_env_def)
  have c0: "sv_config demo_server = demo_config" by (simp add: demo_server_def Let_def)
  obtain tr where tr: "wrun demo (demo_server, []) tr (s1, [] @ [Finished ChallengeIssued])"
      "concat (map label_effects tr) = e" "Ticked ` UNIV \<inter> set tr = {}"
    using receive_run [OF r(1), of "[]"] free [OF c0] permit by (auto simp: in_flight_def)
  then have "all_stand demo demo_server tr (s1, [Finished ChallengeIssued])" using wrun_stands by simp
  then have c1: "sv_config s1 = demo_config" using c0 by (simp add: all_stand_def same_frame_def)
  obtain tr' where tr': "wrun demo (s1, [Finished ChallengeIssued]) tr' (s2, [Finished ChallengeIssued] @ [Finished (HookRan res)])"
      "concat (map label_effects tr') = [sig, Spawned cmd]" "Ticked ` UNIV \<inter> set tr' = {}"
    using receive_run [OF r(3), of "[Finished ChallengeIssued]"] free [OF c1] permit by (auto simp: in_flight_def)
  have "Sent demo_peer y \<in> set e" using r(2) by (induction e rule: sent_to.induct) (auto split: if_splits)
  with wrun_trans [OF tr'(1)] tr tr'(2,3) show thesis by (intro that [of "tr @ tr'" _ cmd y]) auto
qed

subsection \<open>Properties\<close>

lemma from_config_start: "from_config P now cfg x y = Returns (Inr s) \<Longrightarrow>
    sv_nonces s = ns_new \<and> sv_config s = cfg \<and> sv_executor s = x \<and> sv_revoke s = y"
  by (auto simp: from_config_def Let_def res_bind_eq_Inr split: may_panic.splits sum.splits)

text \<open>
  However the tasks of the server interleave, the hooks started for claims on the nonce \<open>n\<close>, grants
  and releases together, are at most as many as the challenges issued with it, so a duplicate that
  passed the checks before the first copy used up the nonce starts nothing; and a hook starts only for a
  claim signed by a configured client.
\<close>

theorem one_hook_per_challenge:
  assumes "from_config P now cfg x y = Returns (Inr s)" and "wrun P (s, []) tr w"
  shows "tally (hooked n) tr \<le> tally (issued n) tr \<and>
    (0 < tally (hooked n) tr \<longrightarrow> (\<exists>c. claim_nonce c = n \<and> signed_claim P s c))"
proof (intro conjI impI)
  have "nonce_account n tr w" using nonce_accounts [OF assms(2)] from_config_start [OF assms(1)] by blast
  then show "tally (hooked n) tr \<le> tally (issued n) tr" by (simp add: nonce_account_def)
next
  assume "0 < tally (hooked n) tr"
  then obtain l where "l \<in> set tr" "hooked n l" by (auto simp: tally_def filter_empty_conv)
  with hooked_source [of n l] wrun_stands [OF assms(2)] show "\<exists>c. claim_nonce c = n \<and> signed_claim P s c"
    by (auto simp: all_stand_def stands_def)
qed

theorem one_hook_per_challenge_witness:
  "\<exists>tr w cmd. wrun demo (demo_server, []) tr w \<and> Spawned cmd \<in> set (concat (map label_effects tr)) \<and>
     (\<forall>n. tally (hooked n) tr \<le> tally (issued n) tr)"
proof -
  obtain tr w cmd where "wrun demo (demo_server, []) tr w" "Spawned cmd \<in> set (concat (map label_effects tr))"
    by (rule demo_run)
  with one_hook_per_challenge [OF demo_from_config, of tr w] show ?thesis by blast
qed

lemma start_slots:
  "from_config P now cfg (grant_executor cfg) (revoke_executor cfg) = Returns (Inr s) \<Longrightarrow> slots_ok (s, [])"
  by (drule from_config_start)
     (auto simp: slots_ok_def grant_executor_def revoke_executor_def pe_new_def bounded_def in_flight_def split: option.split)

text \<open>
  C10: In every world of every run from a configuration, all tables are well formed and within their
  capacity, at most \<open>max_concurrent\<close> grant hooks and as many revoke hooks run at once, and at
  most \<open>max_inflight_packets\<close> datagrams are being handled when that bound is set.
\<close>

theorem concurrency_bounded:
  assumes "from_config P now cfg (grant_executor cfg) (revoke_executor cfg) = Returns (Inr s)" and "wrun P (s, []) tr w"
  shows "server_ok (fst w) \<and>
    tally granting (snd w) \<le> max (co_max_concurrent (sc_command cfg)) 1 \<and>
    tally closing (snd w) \<le> max (co_max_concurrent (sc_command cfg)) 1 \<and>
    bounded (ss_max_inflight_packets (sc_server cfg)) (in_flight (snd w))"
proof -
  note s = from_config_start [OF assms(1)]
  from wrun_slots [OF assms(2) start_slots [OF assms(1)]]
  have w: "slots_ok w" "limits_of (fst w) = limits_of s" by simp_all
  have ok: "server_ok (fst w)" using wrun_ok [OF assms(2)] from_config_ok [OF assms(1)] by simp
  have l: "pe_max_concurrent (sv_executor (fst w)) = max (co_max_concurrent (sc_command cfg)) 1"
    "map_option pe_max_concurrent (sv_revoke (fst w)) = map_option pe_max_concurrent (revoke_executor cfg)"
    "ss_max_inflight_packets (sc_server (sv_config (fst w))) = ss_max_inflight_packets (sc_server cfg)"
    using w(2) s by (simp_all add: limits_of_def grant_executor_def pe_new_def)
  have "tally closing (snd w) \<le> max (co_max_concurrent (sc_command cfg)) 1"
    using w(1) l(2) by (auto simp: slots_ok_def slots_def revoke_executor_def pe_new_def split: option.splits)
  with ok w(1) l(1,3) show ?thesis by (auto simp: slots_ok_def)
qed

theorem concurrency_bounded_witness:
  "\<exists>tr w cmd. wrun demo (demo_server, []) tr w \<and> Spawned cmd \<in> set (concat (map label_effects tr)) \<and>
     tally granting (snd w) \<le> max (co_max_concurrent (sc_command demo_config)) 1"
proof -
  have "revoke_executor demo_config = None"
    by (simp add: revoke_executor_def demo_config_def default_command_section_def)
  with demo_from_config have "from_config demo 0 demo_config (grant_executor demo_config) (revoke_executor demo_config) =
      Returns (Inr demo_server)" by simp
  moreover obtain tr w cmd where "wrun demo (demo_server, []) tr w" "Spawned cmd \<in> set (concat (map label_effects tr))"
    by (rule demo_run)
  ultimately show ?thesis using concurrency_bounded by blast
qed

end
