(* ===== verification/Replays.thy ===== *)
theory Replays
  imports Interleaving
begin

text \<open>
  The replay cache under concurrency. A task reads the clock when it checks that a HELLO is fresh and hands
  this reading to the replay cache later, in another step, so a cleanup may come in between. The
  theory shows that a HELLO still passes the cache once in every interleaving in which no reading
  handed to the cache is older than the clock of a cleanup that has purged the cache, and is then answered
  at most once.
\<close>

subsection \<open>Labels\<close>

text \<open>A step in which the HELLO \<open>h\<close> passes the replay cache, and one that sends a challenge for it.\<close>

fun admitted :: "hello \<Rightarrow> label \<Rightarrow> bool" where
  "admitted h (Advanced E (Fresh peer h' reply now) effs (Unseen peer' h'' reply' now')) \<longleftrightarrow> h' = h"
| "admitted h _ \<longleftrightarrow> False"

fun answered :: "hello \<Rightarrow> label \<Rightarrow> bool" where
  "answered h (Advanced E (Issuing peer h' reply n x) effs st) \<longleftrightarrow> h' = h \<and> effs \<noteq> []"
| "answered h _ \<longleftrightarrow> False"

text \<open>A task on its way from the cache to the reply.\<close>

fun underway :: "hello \<Rightarrow> stage \<Rightarrow> bool" where
  "underway h (Unseen peer h' reply now) \<longleftrightarrow> h' = h"
| "underway h (Noted peer h' reply now) \<longleftrightarrow> h' = h"
| "underway h (Issuing peer h' reply n x) \<longleftrightarrow> h' = h"
| "underway h _ \<longleftrightarrow> False"

fun reading :: "label \<Rightarrow> int option" where
  "reading (Advanced E (Fresh peer h reply now) effs st) = Some now"
| "reading _ = None"

text \<open>The clock of a cleanup that purges the cache.\<close>

fun swept :: "label \<Rightarrow> int option" where
  "swept (Advanced E (PurgeSeen now) effs st) = Some now"
| "swept _ = None"

text \<open>No reading handed to the cache is older than the clock of a cleanup that purged it before.\<close>

fun prompt :: "label list \<Rightarrow> bool" where
  "prompt [] \<longleftrightarrow> True"
| "prompt (l # ls) \<longleftrightarrow> (\<forall>t. swept l = Some t \<longrightarrow> list_all (\<lambda>m. case reading m of None \<Rightarrow> True | Some now \<Rightarrow> t \<le> now) ls) \<and> prompt ls"

lemma prompt_snoc:
  "prompt (tr @ [l]) \<longleftrightarrow> prompt tr \<and>
     (\<forall>m t now. m \<in> set tr \<longrightarrow> swept m = Some t \<longrightarrow> reading l = Some now \<longrightarrow> t \<le> now)"
  by (induction tr) (auto split: option.splits)

subsection \<open>Fresh HELLOs\<close>

definition signed_hello :: "primitives \<Rightarrow> server \<Rightarrow> hello \<Rightarrow> bool" where
  "signed_hello P s h \<longleftrightarrow>
     (\<exists>info. map_of (sv_clients s) (h_client_id h) = Some info \<and>
        ed_verify_strict P (ci_verifying_key info) (hello_payload P h s) (h_signature h))"

lemma same_frame_hello: "same_frame s s' \<Longrightarrow> signed_hello P s' h = signed_hello P s h \<and> skew_of s' = skew_of s"
  by (simp add: signed_hello_def same_frame_def hello_payload_def skew_of_def)

text \<open>What a task that waits for the replay cache, and one that has passed it, has checked.\<close>

fun checked_fresh :: "primitives \<Rightarrow> server \<Rightarrow> stage \<Rightarrow> bool" where
  "checked_fresh P s (Fresh peer h reply now) \<longleftrightarrow>
     \<bar>now - h_timestamp h\<bar> \<le> int (skew_of s) \<and> - (2 ^ 63) \<le> now \<and> now \<le> i64_max \<and> signed_hello P s h"
| "checked_fresh P s (Unseen peer h reply now) \<longleftrightarrow> signed_hello P s h"
| "checked_fresh P s (Noted peer h reply now) \<longleftrightarrow> signed_hello P s h"
| "checked_fresh P s _ \<longleftrightarrow> True"

lemma same_frame_fresh: "same_frame s s' \<Longrightarrow> checked_fresh P s' st = checked_fresh P s st"
  by (cases st) (simp_all add: same_frame_hello)

lemma time_at_ge: "- (2 ^ 63) \<le> time_at E k"
  using expiry_in_i64 [of E k 0] by (auto simp: in_i64_def i64_min_def i64_max_def)

lemma advance_fresh:
  assumes "advance P E st s = (effs, st', s')" and "checked_fresh P s st"
  shows "checked_fresh P s st'"
proof (cases "greeted st")
  case True
  show ?thesis
  proof (cases st)
    case (Greeting peer h reply)
    from assms(1) [unfolded this] show ?thesis
      by (rule greeting_step) (use time_at_le [of E AtFresh] time_at_ge [of E AtFresh] in \<open>auto simp: signed_hello_def\<close>)
  next
    case (Fresh peer h reply now)
    obtain seen new where "(seen, new) = insert_if_absent (replay_key h) now (u64_saturating_mul (skew_of s) 2) (sv_seen s)"
      by (metis surj_pair)
    from assms(1) [unfolded Fresh] this show ?thesis by (rule fresh_step) (use assms(2) Fresh in simp)
  next
    case (Issuing peer h reply n x)
    from assms(1) [unfolded this] show ?thesis by (rule issuing_step) simp
  qed (use True assms in \<open>auto simp: Let_def\<close>)
next
  case False
  show ?thesis
  proof (cases st)
    case (Opening peer data)
    with assms read_in_touches show ?thesis by (cases st') fastforce+
  next
    case (Sweeping items)
    with assms show ?thesis by (cases items) auto
  next
    case (Revoking e name p k c)
    with assms show ?thesis by (cases c) (auto split: step_splits)
  next
    case (Closing e name p c)
    with assms show ?thesis by (cases c) (auto split: step_splits)
  qed (use False assms in \<open>auto simp: returned_def split: step_splits\<close>)
qed

lemma all_fresh_step:
  assumes "same_frame s (fst w)" and "\<forall>st \<in> set (snd w). checked_fresh P s st" and "wstep P w l w'"
  shows "\<forall>st \<in> set (snd w'). checked_fresh P s st"
  using assms(3)
proof (cases rule: wstep_cases)
  case (task T i E t effs st t')
  have "checked_fresh P t (T ! i)" using assms(1,2) task(1,5) same_frame_fresh by fastforce
  from advance_fresh [OF task(7) this] have "checked_fresh P s st" using assms(1) task(1) same_frame_fresh by fastforce
  with assms(2) task(1,3) show ?thesis using set_update_subset_insert [of T i st] by auto
qed (use assms(2) in auto)

subsection \<open>Who touches the cache\<close>

lemma faulty_seen: "faulty E out ip s = (out', effs, s') \<Longrightarrow> sv_seen s' = sv_seen s"
  by (cases rule: faulty_cases [of E out ip s]) auto

lemma read_in_seen: "read_in P E data peer s = (effs, st, s') \<Longrightarrow> sv_seen s' = sv_seen s"
  by (auto simp: read_in_def route_def returned_def dest!: faulty_seen
      split: wire_encryption.splits option.splits sum.splits packet.splits prod.splits)

lemma proof_seen:
  "check_proof P E f c n g peer s = Inl (out, effs, s') \<Longrightarrow> sv_seen s' = sv_seen s"
  "consume_proof E c n peer s = Inl (out, s') \<Longrightarrow> sv_seen s' = sv_seen s"
  "consume_proof E c n peer s = Inr s' \<Longrightarrow> sv_seen s' = sv_seen s"
  "decrypt_param P E b s = (s', r) \<Longrightarrow> sv_seen s' = sv_seen s"
proof -
  show "check_proof P E f c n g peer s = Inl (out, effs, s') \<Longrightarrow> sv_seen s' = sv_seen s"
    by (cases rule: check_proof_cases [of P E f c n g peer s]) auto
  show "consume_proof E c n peer s = Inl (out, s') \<Longrightarrow> sv_seen s' = sv_seen s"
    "consume_proof E c n peer s = Inr s' \<Longrightarrow> sv_seen s' = sv_seen s"
    by (cases rule: consume_proof_cases [of E c n peer s]; auto simp: burnt_def)+
  show "decrypt_param P E b s = (s', r) \<Longrightarrow> sv_seen s' = sv_seen s"
    by (cases rule: decrypt_param_cases [of P E b s]) auto
qed

lemma gate_seen:
  "gate E len ip s = Inl (out, s') \<Longrightarrow> sv_seen s' = sv_seen s"
  "gate E len ip s = Inr s' \<Longrightarrow> sv_seen s' = sv_seen s"
  by (auto simp: gate_def Let_def split: if_splits)

lemma advance_seen:
  assumes "advance P E st s = (effs, st', s')" and "reading (Advanced E st effs st') = None"
    and "swept (Advanced E st effs st') = None"
  shows "sv_seen s' = sv_seen s"
proof (cases st)
  case (Greeting peer h reply)
  from assms(1) [unfolded this] show ?thesis by (rule greeting_step)
next
  case (Issuing peer h reply n x)
  from assms(1) [unfolded this] show ?thesis by (rule issuing_step)
next
  case (Sweeping items)
  with assms show ?thesis by (cases items) auto
qed (use assms in \<open>auto simp: returned_def record_pulse_def Let_def dest: read_in_seen proof_seen scan_touches split: step_splits\<close>)

lemma advance_underway:
  assumes "advance P E st s = (effs, st', s')"
  shows "one_if (answered h (Advanced E st effs st')) + one_if (underway h st') \<le>
    one_if (underway h st) + one_if (admitted h (Advanced E st effs st'))"
proof (cases "greeted st")
  case True
  show ?thesis
  proof (cases st)
    case (Greeting peer h' reply)
    from assms [unfolded this] show ?thesis by (rule greeting_step) (auto simp: Greeting)
  next
    case (Fresh peer h' reply now)
    obtain seen new where "(seen, new) = insert_if_absent (replay_key h') now (u64_saturating_mul (skew_of s) 2) (sv_seen s)"
      by (metis surj_pair)
    from assms [unfolded Fresh] this show ?thesis by (rule fresh_step) (simp add: Fresh)
  next
    case (Issuing peer h' reply n x)
    from assms [unfolded this] show ?thesis by (rule issuing_step) (auto simp: Issuing one_if_def)
  qed (use True assms in \<open>auto simp: Let_def\<close>)
next
  case False
  have "\<not> underway h st'"
  proof (cases st)
    case (Opening peer data)
    with assms read_in_touches show ?thesis by (cases st') fastforce+
  next
    case (Sweeping items)
    with assms show ?thesis by (cases items) auto
  next
    case (Revoking e name p k c)
    with assms show ?thesis by (cases c) (auto split: step_splits)
  next
    case (Closing e name p c)
    with assms show ?thesis by (cases c) (auto split: step_splits)
  qed (use False assms in \<open>auto simp: returned_def split: step_splits\<close>)
  with False show ?thesis by (cases st) simp_all
qed

subsection \<open>The account of a HELLO\<close>

definition stale_after :: "server \<Rightarrow> hello \<Rightarrow> int" where
  "stale_after s h = min (h_timestamp h + int (skew_of s)) i64_max"

text \<open>The cache holds the HELLO until it is stale, or a cleanup has seen a clock past that.\<close>

definition held :: "server \<Rightarrow> hello \<Rightarrow> label list \<Rightarrow> seen_cache \<Rightarrow> bool" where
  "held s h tr sn \<longleftrightarrow> (\<exists>e. map_of sn (replay_key h) = Some e \<and> stale_after s h \<le> e) \<or>
     (\<exists>l \<in> set tr. \<exists>t. swept l = Some t \<and> stale_after s h < t)"

lemma held_more: "held s h tr sn \<Longrightarrow> held s h (tr @ [l]) sn"
  by (auto simp: held_def)

lemma held_purge:
  assumes "held s h tr sn" and "hm_ok sn" and "swept l = Some t"
  shows "held s h (tr @ [l]) (fst (sc_purge_expired t sn))"
proof (cases "stale_after s h < t")
  case True
  with assms(3) show ?thesis by (auto simp: held_def)
next
  case False
  with assms live_entry_kept [of sn "replay_key h" _ "OpForget t"] show ?thesis
    by (fastforce simp: held_def)
qed

text \<open>A reading at which some HELLO with the same key may pass lies past the end of a held one.\<close>

lemma held_insert:
  assumes "held s h tr sn"
  shows "held s h (tr @ [l]) (fst (insert_if_absent k now ttl sn))"
  using assms unfolding held_def
proof (elim disjE exE conjE)
  fix e
  assume e: "map_of sn (replay_key h) = Some e" "stale_after s h \<le> e"
  have "stale_after s h \<le> i64_max" by (simp add: stale_after_def)
  have "\<exists>e. map_of (fst (insert_if_absent k now ttl sn)) (replay_key h) = Some e \<and> stale_after s h \<le> e"
  proof (cases "k = replay_key h")
    case True
    with e \<open>stale_after s h \<le> i64_max\<close> show ?thesis by (auto simp: insert_if_absent_def)
  next
    case False
    with e insert_if_absent_other [of "replay_key h" k now ttl sn] show ?thesis by auto
  qed
  then show "(\<exists>e. map_of (fst (insert_if_absent k now ttl sn)) (replay_key h) = Some e \<and> stale_after s h \<le> e) \<or>
     (\<exists>m \<in> set (tr @ [l]). \<exists>t. swept m = Some t \<and> stale_after s h < t)" by blast
qed auto

lemma held_refuses:
  assumes "held s h tr sn" and "\<bar>now - h_timestamp h\<bar> \<le> int (skew_of s)" "now \<le> i64_max"
    and "\<forall>l \<in> set tr. \<forall>t. swept l = Some t \<longrightarrow> t \<le> now"
  shows "\<not> snd (insert_if_absent (replay_key h) now ttl sn)"
proof -
  have "now \<le> stale_after s h" using assms(2,3) by (simp add: stale_after_def)
  with assms(1,4) obtain e where "map_of sn (replay_key h) = Some e" "now \<le> e" by (fastforce simp: held_def)
  then show ?thesis by (simp add: insert_if_absent_def)
qed

lemma admission_holds:
  assumes "snd (insert_if_absent (replay_key h) now (u64_saturating_mul (skew_of s) 2) sn)"
    and "\<bar>now - h_timestamp h\<bar> \<le> int (skew_of s)" "- (2 ^ 63) \<le> now"
  shows "held s h tr (fst (insert_if_absent (replay_key h) now (u64_saturating_mul (skew_of s) 2) sn))"
proof -
  let ?ttl = "u64_saturating_mul (skew_of s) 2"
  have "stale_after s h \<le> min (now + int ?ttl) i64_max"
    using assms(2,3) by (auto simp: stale_after_def u64_saturating_mul_def u64_max_def i64_max_def min_def)
  moreover have "map_of (fst (insert_if_absent (replay_key h) now ?ttl sn)) (replay_key h) = Some (min (now + int ?ttl) i64_max)"
    using assms(1) accept_records [of "OpSee (replay_key h) now ?ttl" sn "replay_key h"] by simp
  ultimately show ?thesis by (auto simp: held_def)
qed

definition hello_account :: "primitives \<Rightarrow> server \<Rightarrow> hello \<Rightarrow> label list \<Rightarrow> world \<Rightarrow> bool" where
  "hello_account P s h tr w \<longleftrightarrow>
     same_frame s (fst w) \<and> hm_ok (sv_seen (fst w)) \<and> (\<forall>st \<in> set (snd w). checked_fresh P s st) \<and>
     tally (answered h) tr + tally (underway h) (snd w) \<le> tally (admitted h) tr \<and>
     (prompt tr \<longrightarrow> tally (admitted h) tr \<le> 1 \<and> (0 < tally (admitted h) tr \<longrightarrow> held s h tr (sv_seen (fst w)))) \<and>
     (0 < tally (admitted h) tr \<longrightarrow> signed_hello P s h)"

text \<open>A step that neither admits the HELLO nor reaches the cache.\<close>

lemma admitted_reading: "admitted h l \<Longrightarrow> \<exists>now. reading l = Some now"
  by (induction h l rule: admitted.induct) auto

lemma account_cache_step:
  assumes acc: "hello_account P s h tr (t, T)" and i: "i < length T" "T ! i = Fresh peer h' reply now"
    and adv: "advance P E (T ! i) t = (effs, st, t')" and l: "l = Advanced E (T ! i) effs st"
  shows "(prompt (tr @ [l]) \<longrightarrow> tally (admitted h) (tr @ [l]) \<le> 1 \<and>
      (0 < tally (admitted h) (tr @ [l]) \<longrightarrow> held s h (tr @ [l]) (sv_seen t'))) \<and>
    (0 < tally (admitted h) (tr @ [l]) \<longrightarrow> signed_hello P s h)"
proof -
  have frame: "same_frame s t" and fresh: "checked_fresh P s (T ! i)"
    using acc i(1) by (auto simp: hello_account_def)
  have sk: "skew_of t = skew_of s" using same_frame_hello [OF frame] by blast
  obtain sn new where ins: "(sn, new) = insert_if_absent (replay_key h') now (u64_saturating_mul (skew_of t) 2) (sv_seen t)"
    by (metis surj_pair)
  from adv [unfolded i(2)] ins have sn: "sv_seen t' = sn" and st: "st = (if new then Unseen peer h' reply now else Finished HelloReplay)"
    by (rule fresh_step; simp)+
  have sn': "sn = fst (insert_if_absent (replay_key h') now (u64_saturating_mul (skew_of s) 2) (sv_seen t))"
    and new': "new = snd (insert_if_absent (replay_key h') now (u64_saturating_mul (skew_of s) 2) (sv_seen t))"
    using ins sk by (metis fst_conv snd_conv)+
  have adm: "admitted h l \<longleftrightarrow> h' = h \<and> new" by (simp add: l i(2) st)
  show ?thesis
  proof (cases "admitted h l")
    case False
    with acc held_insert [of s h tr "sv_seen t"] show ?thesis
      by (auto simp: hello_account_def prompt_snoc sn sn')
  next
    case True
    with adm have h: "h' = h" and new by simp_all
    have f: "\<bar>now - h_timestamp h\<bar> \<le> int (skew_of s)" "- (2 ^ 63) \<le> now" "now \<le> i64_max" "signed_hello P s h"
      using fresh h by (simp_all add: i(2))
    have hold: "held s h (tr @ [l]) (sv_seen t')"
      using admission_holds [of h now s "sv_seen t"] f \<open>new\<close> by (simp add: new' sn sn' h)
    have "tally (admitted h) tr = 0" if pr: "prompt (tr @ [l])"
    proof (rule ccontr)
      assume "tally (admitted h) tr \<noteq> 0"
      with acc pr have "held s h tr (sv_seen t)" by (auto simp: hello_account_def prompt_snoc)
      from held_refuses [OF this f(1,3)] pr \<open>new\<close> show False by (auto simp: new' h prompt_snoc l i(2))
    qed
    with hold f(4) True show ?thesis by simp
  qed
qed

lemma hello_account_step:
  assumes "hello_account P s h tr w" and "wstep P w l w'"
  shows "hello_account P s h (tr @ [l]) w'"
  using assms(2)
proof (cases rule: wstep_cases)
  case (shed T E t len ip out t')
  then have "same_frame t t'" "sv_seen t' = sv_seen t"
    using gate_touches(1) [OF shed(6)] gate_seen(1) [OF shed(6)] setup_frame by blast+
  with assms(1) shed show ?thesis by (auto simp: hello_account_def prompt_snoc intro: held_more same_frame_trans)
next
  case (arrive T E t data peer t')
  then have "same_frame t t'" "sv_seen t' = sv_seen t"
    using gate_touches(2) [OF arrive(6)] gate_seen(2) [OF arrive(6)] setup_frame by blast+
  with assms(1) arrive show ?thesis by (auto simp: hello_account_def prompt_snoc intro: held_more same_frame_trans)
next
  case (tick T t E)
  with assms(1) show ?thesis by (auto simp: hello_account_def prompt_snoc intro: held_more)
next
  case (task T i E t effs st t')
  let ?l = "Advanced E (T ! i) effs st"
  note acc = assms(1) [unfolded task(1)]
  have frame: "same_frame t t'" using advance_frame [OF task(7)] .
  have s: "same_frame s t" "same_frame s t'" using acc frame by (auto simp: hello_account_def intro: same_frame_trans)
  have T: "\<forall>x \<in> set (T[i := st]). checked_fresh P s x"
    using all_fresh_step [OF _ _ assms(2), of s] assms(1) task(1,3) by (simp add: hello_account_def)
  have way: "tally (answered h) (tr @ [?l]) + tally (underway h) (T[i := st]) \<le> tally (admitted h) (tr @ [?l])"
    using acc advance_underway [OF task(7), of h] tally_update [OF task(5), of "underway h" st]
    by (auto simp: hello_account_def one_if_def split: if_splits)
  have "hm_ok (sv_seen t') \<and> (prompt (tr @ [?l]) \<longrightarrow> tally (admitted h) (tr @ [?l]) \<le> 1 \<and>
      (0 < tally (admitted h) (tr @ [?l]) \<longrightarrow> held s h (tr @ [?l]) (sv_seen t'))) \<and>
    (0 < tally (admitted h) (tr @ [?l]) \<longrightarrow> signed_hello P s h)"
  proof (cases "reading ?l")
    case None
    then have no: "\<not> admitted h ?l" using admitted_reading by fastforce
    show ?thesis
    proof (cases "swept ?l")
      case kept: None
      from no acc advance_seen [OF task(7) None kept] show ?thesis
        by (auto simp: hello_account_def prompt_snoc intro: held_more)
    next
      case (Some now)
      then have "T ! i = PurgeSeen now" by (cases "T ! i") auto
      with task(7) have "sv_seen t' = fst (sc_purge_expired now (sv_seen t))" by auto
      with no acc None held_purge [of s h tr "sv_seen t", OF _ _ Some] show ?thesis
        by (auto simp: hello_account_def prompt_snoc)
    qed
  next
    case (Some now)
    then obtain peer h' reply where i: "T ! i = Fresh peer h' reply now" by (cases "T ! i") auto
    obtain sn new where "(sn, new) = insert_if_absent (replay_key h') now (u64_saturating_mul (skew_of t) 2) (sv_seen t)"
      by (metis surj_pair)
    with task(7) i have "sv_seen t' = fst (insert_if_absent (replay_key h') now (u64_saturating_mul (skew_of t) 2) (sv_seen t))"
      by (metis fresh_step fst_conv)
    then have "hm_ok (sv_seen t')" using acc by (simp add: hello_account_def)
    with account_cache_step [OF acc task(5) i task(7) refl] show ?thesis by blast
  qed
  with s(2) T way task show ?thesis by (simp add: hello_account_def)
qed

lemma hello_accounts:
  assumes "wrun P (s, []) tr w" and "server_ok s"
  shows "hello_account P s h tr w"
  using assms(1)
proof (induction rule: wrun_invariant)
  case start
  show ?case using assms(2) by (simp add: hello_account_def server_ok_alt)
qed (rule hello_account_step)

text \<open>
  What the hypothesis on the readings excludes: a task that comes to the cache with a reading from before
  a cleanup finds the entry gone and is admitted with the same HELLO again.
\<close>

lemma stale_reading_readmits:
  assumes "hm_ok sn" and "snd (insert_if_absent k now ttl sn)" and "min (now + int ttl) i64_max < tick"
  shows "snd (insert_if_absent k now ttl (fst (sc_purge_expired tick (fst (insert_if_absent k now ttl sn)))))"
proof -
  have "map_of (fst (insert_if_absent k now ttl sn)) k = Some (min (now + int ttl) i64_max)"
    using assms(2) accept_records [of "OpSee k now ttl" sn k] by simp
  with assms(1,3) have "map_of (fst (sc_purge_expired tick (fst (insert_if_absent k now ttl sn)))) k = None"
    by (auto simp: sc_purge_expired_def Let_def map_of_hm_retain)
  then show ?thesis by (simp add: accepted_iff)
qed

subsection \<open>Properties\<close>

text \<open>
  C4: However the tasks of the server interleave with each other and with the cleanup, a HELLO is
  answered at most as often as it passes the replay cache, and only when it carries the
  signature of a configured client. It passes at most once when no clock reading handed to the
  cache is older than the clock of a cleanup that has purged it: this is what a task that is delayed between its
  freshness check and the cache for longer than the replay window could break.
\<close>

theorem hello_answered_once:
  assumes "from_config P now cfg x y = Returns (Inr s)" and "wrun P (s, []) tr w"
  shows "tally (answered h) tr \<le> tally (admitted h) tr \<and>
    (0 < tally (admitted h) tr \<longrightarrow> signed_hello P s h) \<and>
    (prompt tr \<longrightarrow> tally (admitted h) tr \<le> 1)"
  using hello_accounts [OF assms(2), of h] from_config_ok [OF assms(1)] by (simp add: hello_account_def)

lemma advance_sent:
  assumes "advance P E st s = (effs, st', s')" and "Sent peer d \<in> set effs"
  shows "\<exists>h. answered h (Advanced E st effs st')"
proof (cases st)
  case (Greeting p h reply)
  from assms(1) [unfolded this] show ?thesis by (rule greeting_step) (use assms(2) in auto)
next
  case (Issuing p h reply n x)
  with assms(2) show ?thesis by auto
next
  case (Opening p data)
  with assms show ?thesis by (auto dest: read_in_touches)
next
  case (Presented p c)
  with assms show ?thesis
    by (cases rule: check_proof_cases [of P E "claim_payload P c s" "claim_id c" "claim_nonce c" "claim_sig c" p s])
       (auto simp: returned_def)
next
  case (Sweeping items)
  with assms show ?thesis by (cases items) auto
qed (use assms in \<open>auto simp: Let_def split: step_splits\<close>)

lemma wrun_sent:
  "wrun P w tr w' \<Longrightarrow> Sent peer d \<in> set (concat (map label_effects tr)) \<Longrightarrow> \<exists>h. 0 < tally (answered h) tr"
proof (induction rule: wrun.induct)
  case (step w tr w' l w'')
  show ?case
  proof (cases "Sent peer d \<in> set (label_effects l)")
    case True
    with step(2) obtain h where "answered h l" by (cases rule: wstep_cases) (auto dest: advance_sent)
    then show ?thesis by (intro exI [of _ h]) simp
  next
    case False
    with step obtain h where "0 < tally (answered h) tr" by auto
    then show ?thesis by (intro exI [of _ h]) simp
  qed
qed simp

lemma swept_source: "swept l = Some t \<Longrightarrow> source_of l = Some (PurgeSeen t)"
  by (cases l rule: swept.cases) simp_all

lemma prompt_unswept: "\<forall>l \<in> set tr. swept l = None \<Longrightarrow> prompt tr"
  by (induction tr) auto

lemma prompt_without_ticks:
  assumes "wrun P (s, []) tr w" and "Ticked ` UNIV \<inter> set tr = {}"
  shows "prompt tr"
proof (rule prompt_unswept, rule ballI)
  fix l assume "l \<in> set tr"
  with no_cleaning_without_ticks [OF assms this, of "PurgeSeen t" for t] swept_source [of l] show "swept l = None"
    by (cases "swept l") auto
qed

theorem hello_answered_once_witness:
  "\<exists>tr w h. wrun demo (demo_server, []) tr w \<and> 0 < tally (answered h) tr \<and> prompt tr \<and>
     tally (admitted h) tr = 1 \<and> signed_hello demo demo_server h"
proof -
  obtain tr w cmd d where r: "wrun demo (demo_server, []) tr w" "Sent demo_peer d \<in> set (concat (map label_effects tr))"
      "Ticked ` UNIV \<inter> set tr = {}"
    by (rule demo_run)
  from wrun_sent [OF r(1,2)] obtain h where h: "0 < tally (answered h) tr" by blast
  from hello_answered_once [OF demo_from_config r(1), of h] h prompt_without_ticks [OF r(1,3)] r(1) show ?thesis
    by (intro exI [of _ tr] exI [of _ w] exI [of _ h]) auto
qed

end
