(* ===== verification/Gatekeeper.thy ===== *)
theory Gatekeeper
  imports Replays "HOL-Library.Multiset"
begin

text \<open>
  The abstract specification of the server. A gatekeeper knows the open challenges, each bound to a
  client and an endpoint, and the claims to which it owes a hook. A challenge is issued for a HELLO
  that a configured client has signed; a claim that such a client has signed spends the challenge that it
  answers, from the endpoint to which it was issued, and is then owed one hook; open challenges may
  lapse. The server with all its tasks, in any interleaving, is a simulation of the gatekeeper:
  every move is one of the gatekeeper's events or invisible to it.
\<close>

subsection \<open>The specification\<close>

type_synonym binding = "bytes \<times> string \<times> peer"

type_synonym gatekeeper = "binding set \<times> claim multiset"

datatype gk_event =
    Issue bytes hello peer
  | Spend peer claim
  | Hook claim
  | Drop claim
  | Lapse

definition binding_for :: "bytes \<Rightarrow> hello \<Rightarrow> peer \<Rightarrow> binding" where
  "binding_for n h peer = (n, to_hex (h_client_id h), peer)"

definition answer_to :: "peer \<Rightarrow> claim \<Rightarrow> binding" where
  "answer_to peer c = (claim_nonce c, to_hex (claim_id c), peer)"

definition others_than :: "bytes \<Rightarrow> binding set \<Rightarrow> binding set" where
  "others_than n B = {b \<in> B. fst b \<noteq> n}"

inductive gk_step :: "(hello \<Rightarrow> bool) \<Rightarrow> (claim \<Rightarrow> bool) \<Rightarrow> gatekeeper \<Rightarrow> gk_event \<Rightarrow> gatekeeper \<Rightarrow> bool"
  for H C where
  issue: "H h \<Longrightarrow> gk_step H C (B, D) (Issue n h peer) (insert (binding_for n h peer) (others_than n B), D)"
| spend: "C c \<Longrightarrow> answer_to peer c \<in> B \<Longrightarrow>
    gk_step H C (B, D) (Spend peer c) (others_than (claim_nonce c) B, add_mset c D)"
| hook: "c \<in># D \<Longrightarrow> gk_step H C (B, D) (Hook c) (B, D - {#c#})"
| drop: "c \<in># D \<Longrightarrow> gk_step H C (B, D) (Drop c) (B, D - {#c#})"
| lapse: "B' \<subseteq> B \<Longrightarrow> gk_step H C (B, D) Lapse (B', D)"

inductive_cases gk_step_cases [consumes 1, case_names issue spend hook drop lapse]: "gk_step H C g e g'"

text \<open>What the specification promises: each challenge pays for one hook, and for the right claim.\<close>

fun issues_nonce :: "bytes \<Rightarrow> gk_event \<Rightarrow> bool" where
  "issues_nonce n (Issue m h peer) \<longleftrightarrow> m = n"
| "issues_nonce n _ \<longleftrightarrow> False"

fun spends_nonce :: "bytes \<Rightarrow> gk_event \<Rightarrow> bool" where
  "spends_nonce n (Spend peer c) \<longleftrightarrow> claim_nonce c = n"
| "spends_nonce n _ \<longleftrightarrow> False"

fun spends_claim :: "claim \<Rightarrow> gk_event \<Rightarrow> bool" where
  "spends_claim c (Spend peer c') \<longleftrightarrow> c' = c"
| "spends_claim c _ \<longleftrightarrow> False"

definition hooks_paid :: "gk_event list \<Rightarrow> gatekeeper \<Rightarrow> bool" where
  "hooks_paid es g \<longleftrightarrow>
     (\<forall>c. tally ((=) (Hook c)) es + tally ((=) (Drop c)) es + count (snd g) c = tally (spends_claim c) es)"

definition spends_covered :: "gk_event list \<Rightarrow> gatekeeper \<Rightarrow> bool" where
  "spends_covered es g \<longleftrightarrow>
     (\<forall>n. tally (spends_nonce n) es + one_if (n \<in> fst ` fst g) \<le> tally (issues_nonce n) es)"

definition challenges_earned :: "(hello \<Rightarrow> bool) \<Rightarrow> gk_event list \<Rightarrow> gatekeeper \<Rightarrow> bool" where
  "challenges_earned H es g \<longleftrightarrow>
     (\<forall>b \<in> fst g. \<exists>h n peer. b = binding_for n h peer \<and> Issue n h peer \<in> set es) \<and>
     (\<forall>n h peer. Issue n h peer \<in> set es \<longrightarrow> H h)"

definition spends_proven :: "(claim \<Rightarrow> bool) \<Rightarrow> gk_event list \<Rightarrow> bool" where
  "spends_proven C es \<longleftrightarrow>
     (\<forall>peer c. Spend peer c \<in> set es \<longrightarrow> C c \<and>
        (\<exists>h. Issue (claim_nonce c) h peer \<in> set es \<and> to_hex (h_client_id h) = to_hex (claim_id c)))"

lemma others_than_simps [simp]:
  "b \<in> others_than n B \<longleftrightarrow> b \<in> B \<and> fst b \<noteq> n"
  "n' \<in> fst ` others_than n B \<longleftrightarrow> n' \<in> fst ` B \<and> n' \<noteq> n"
  by (auto simp: others_than_def)

lemma hooks_paid_step:
  assumes "gk_step H C g e g'" and "hooks_paid es g"
  shows "hooks_paid (es @ [e]) g'"
  using assms(1)
proof (cases rule: gk_step_cases)
  case (hook c D B)
  have *: "tally ((=) (Hook c')) es + tally ((=) (Drop c')) es + count D c' = tally (spends_claim c') es" for c'
    using assms(2) by (simp add: hooks_paid_def hook(1))
  obtain k where "count D c = Suc k" using hook(4) by (metis count_greater_zero_iff gr0_conv_Suc)
  with * [of c] have "tally ((=) (Hook c')) (es @ [e]) + tally ((=) (Drop c')) (es @ [e]) + count (D - {#c#}) c' =
      tally (spends_claim c') (es @ [e])" for c'
    using * [of c'] by (cases "c' = c") (simp_all add: hook(2))
  then show ?thesis by (simp add: hooks_paid_def hook(3))
next
  case (drop c D B)
  have *: "tally ((=) (Hook c')) es + tally ((=) (Drop c')) es + count D c' = tally (spends_claim c') es" for c'
    using assms(2) by (simp add: hooks_paid_def drop(1))
  obtain k where "count D c = Suc k" using drop(4) by (metis count_greater_zero_iff gr0_conv_Suc)
  with * [of c] have "tally ((=) (Hook c')) (es @ [e]) + tally ((=) (Drop c')) (es @ [e]) + count (D - {#c#}) c' =
      tally (spends_claim c') (es @ [e])" for c'
    using * [of c'] by (cases "c' = c") (simp_all add: drop(2))
  then show ?thesis by (simp add: hooks_paid_def drop(3))
qed (use assms(2) in \<open>simp_all add: hooks_paid_def\<close>)

lemma spends_covered_step:
  assumes "gk_step H C g e g'" and "spends_covered es g"
  shows "spends_covered (es @ [e]) g'"
  using assms(1)
proof (cases rule: gk_step_cases)
  case (issue h B D n peer)
  have "tally (spends_nonce m) es + one_if (m \<in> fst ` B) \<le> tally (issues_nonce m) es" for m
    using assms(2) by (simp add: spends_covered_def issue)
  from this [of m for m] show ?thesis
    unfolding spends_covered_def issue
    by (auto simp: binding_for_def one_if_def split: if_splits intro: le_trans [OF le_add1])
next
  case (spend c peer B D)
  have *: "tally (spends_nonce m) es + one_if (m \<in> fst ` B) \<le> tally (issues_nonce m) es" for m
    using assms(2) by (simp add: spends_covered_def spend)
  have "claim_nonce c \<in> fst ` B" using spend(5) by (force simp: answer_to_def)
  have "tally (spends_nonce n) (es @ [e]) + one_if (n \<in> fst ` others_than (claim_nonce c) B) \<le> tally (issues_nonce n) (es @ [e])" for n
    using * [of n] \<open>claim_nonce c \<in> fst ` B\<close> by (cases "n = claim_nonce c") (simp_all add: spend(2))
  then show ?thesis by (simp add: spends_covered_def spend(3))
next
  case (lapse B' B D)
  have "tally (spends_nonce n) es + one_if (n \<in> fst ` B') \<le> tally (issues_nonce n) es" for n
  proof -
    have "tally (spends_nonce n) es + one_if (n \<in> fst ` B) \<le> tally (issues_nonce n) es"
      using assms(2) by (simp add: spends_covered_def lapse)
    moreover have "one_if (n \<in> fst ` B') \<le> one_if (n \<in> fst ` B)" using lapse(4) by (auto simp: one_if_def)
    ultimately show ?thesis by linarith
  qed
  then show ?thesis by (simp add: spends_covered_def lapse)
qed (use assms(2) in \<open>simp_all add: spends_covered_def\<close>)

lemma challenges_earned_step:
  assumes "gk_step H C g e g'" and "challenges_earned H es g"
  shows "challenges_earned H (es @ [e]) g'"
  using assms(1)
proof (cases rule: gk_step_cases)
  case (lapse B' B D)
  have "\<exists>h n peer. b = binding_for n h peer \<and> Issue n h peer \<in> set es" if "b \<in> B'" for b
    using that lapse(4) assms(2) by (auto simp: challenges_earned_def lapse(1))
  with lapse assms(2) show ?thesis by (simp add: challenges_earned_def)
qed (use assms(2) in \<open>fastforce simp: challenges_earned_def\<close>)+

lemma spends_proven_step:
  assumes "gk_step H C g e g'" and "challenges_earned H es g" and "spends_proven C es"
  shows "spends_proven C (es @ [e])"
  using assms(1)
proof (cases rule: gk_step_cases)
  case (spend c peer B D)
  from spend(5) assms(2) obtain h where "Issue (claim_nonce c) h peer \<in> set es" "to_hex (h_client_id h) = to_hex (claim_id c)"
    by (fastforce simp: challenges_earned_def spend(1) answer_to_def binding_for_def)
  with spend(2,4) assms(3) show ?thesis by (fastforce simp: spends_proven_def)
qed (use assms(3) in \<open>fastforce simp: spends_proven_def\<close>)+

text \<open>
  In every run of the gatekeeper from nothing, the hooks of a claim are at most as many as its
  spendings, the spendings of a nonce at most as many as its issues, every issue was for a signed HELLO,
  and every spending was by a signed claim, from the endpoint and of the client of an issue of
  its nonce.
\<close>

lemma gk_run:
  assumes "steps (gk_step H C) ({}, {#}) es g"
  shows "hooks_paid es g \<and> spends_covered es g \<and> challenges_earned H es g \<and> spends_proven C es"
proof -
  have "steps (gk_step H C) g0 es g \<Longrightarrow> g0 = ({}, {#}) \<Longrightarrow>
      hooks_paid es g \<and> spends_covered es g \<and> challenges_earned H es g \<and> spends_proven C es" for g0
  proof (induction rule: steps.induct)
    case no_step
    then show ?case by (simp add: hooks_paid_def spends_covered_def challenges_earned_def spends_proven_def)
  next
    case (more_steps g0 es g e g')
    then have g: "hooks_paid es g" "spends_covered es g" "challenges_earned H es g" "spends_proven C es" by simp_all
    note e = more_steps(2)
    from hooks_paid_step [OF e g(1)] spends_covered_step [OF e g(2)] challenges_earned_step [OF e g(3)]
      spends_proven_step [OF e g(3,4)] show ?case by blast
  qed
  with assms show ?thesis by blast
qed

subsection \<open>The server as a gatekeeper\<close>

fun owed_claim :: "stage \<Rightarrow> claim option" where
  "owed_claim (Consumed peer c info) = Some c"
| "owed_claim (Accepted peer r info p) = Some (Pulse r)"
| "owed_claim (Renewed peer r info p is_new) = Some (Pulse r)"
| "owed_claim (Warm peer r info p is_new) = Some (Pulse r)"
| "owed_claim (Starting peer r info p is_new k) = Some (Pulse r)"
| "owed_claim (Releasing peer b p) = Some (Farewell b)"
| "owed_claim (Revoking e name p k (ByBye b)) = Some (Farewell b)"
| "owed_claim _ = None"

definition open_of :: "nonce_store \<Rightarrow> binding set" where
  "open_of ns = {(n, c, peer). \<exists>e. map_of ns n = Some e \<and> \<not> ne_used e \<and> c = ne_client_id e \<and>
     peer = (ne_source_ip e, ne_source_port e)}"

definition abs_world :: "world \<Rightarrow> gatekeeper" where
  "abs_world w = (open_of (sv_nonces (fst w)), mset (List.map_filter owed_claim (snd w)))"

fun gk_event_of :: "label \<Rightarrow> gk_event" where
  "gk_event_of (Advanced E (Noted peer h reply now) effs st) = Issue (e_nonce E) h peer"
| "gk_event_of (Advanced E (Checked peer c info) effs (Consumed peer' c' info')) = Spend peer c"
| "gk_event_of (Advanced E st effs st') =
     (case owed_claim st of
        None \<Rightarrow> Lapse
      | Some c \<Rightarrow> if owed_claim st' = Some c then Lapse else if effs = [] then Drop c else Hook c)"
| "gk_event_of _ = Lapse"

lemma open_of_step:
  "hm_ok ns \<Longrightarrow> open_of (ns_insert n c ip p e now ns) = insert (n, c, ip, p) (others_than n (open_of ns))"
  "hm_ok ns \<Longrightarrow> map_of ns n = Some en \<Longrightarrow> open_of (hm_put n (en\<lparr>ne_used := True\<rparr>) ns) = others_than n (open_of ns)"
  "hm_ok ns \<Longrightarrow> open_of (fst (ns_purge_expired now ns)) \<subseteq> open_of ns"
  by (auto simp: open_of_def ns_insert_def ns_purge_expired_def Let_def map_of_hm_retain split: if_splits option.splits)

definition as_mset :: "'a option \<Rightarrow> 'a multiset" where
  "as_mset x = (case x of None \<Rightarrow> {#} | Some c \<Rightarrow> {#c#})"

lemma as_mset_simps [simp]: "as_mset None = {#}" "as_mset (Some c) = {#c#}"
  by (simp_all add: as_mset_def)

lemma map_filter_update:
  "i < length T \<Longrightarrow> mset (List.map_filter f (T[i := x])) + as_mset (f (T ! i)) = mset (List.map_filter f T) + as_mset (f x)"
proof (induction T arbitrary: i)
  case (Cons y T)
  then show ?case by (cases i) (auto simp: map_filter_simps as_mset_def split: option.splits)
qed simp

lemma map_filter_snoc: "List.map_filter f (T @ [x]) = List.map_filter f T @ (case f x of None \<Rightarrow> [] | Some c \<Rightarrow> [c])"
  by (simp add: map_filter_def split: option.split)

lemma gk_event_of_other:
  assumes "\<And>peer h reply now. st \<noteq> Noted peer h reply now" and "\<And>peer c info. st \<noteq> Checked peer c info"
  shows "gk_event_of (Advanced E st effs st') =
     (case owed_claim st of
        None \<Rightarrow> Lapse
      | Some c \<Rightarrow> if owed_claim st' = Some c then Lapse else if effs = [] then Drop c else Hook c)"
proof (cases st)
  case (Noted peer h reply now)
  with assms(1) show ?thesis by blast
next
  case (Checked peer c info)
  with assms(2) show ?thesis by blast
qed simp_all

text \<open>A debt arises only when a nonce is used up; a step with a debt keeps it or ends it.\<close>

lemma advance_owed:
  assumes "advance P E st s = (effs, st', s')"
  shows "owed_claim st' = owed_claim st \<or> owed_claim st' = None \<or>
    (\<exists>peer c info. st = Checked peer c info \<and> st' = Consumed peer c info)"
proof (cases "greeted st")
  case True
  with greeted_step [OF assms True] show ?thesis by (cases st') auto
next
  case False
  show ?thesis
  proof (cases st)
    case (Opening peer data)
    with assms read_in_touches show ?thesis by (cases st') fastforce+
  next
    case (Sweeping items)
    with assms show ?thesis by (cases items) auto
  next
    case (Revoking e name p k c)
    with assms show ?thesis by (cases c) (auto split: step_splits)
  next
    case (Closing e name p c)
    with assms show ?thesis by (cases c) (auto split: step_splits)
  qed (use False assms in \<open>auto simp: returned_def split: step_splits\<close>)
qed

lemma advance_nonces_same:
  assumes "advance P E st s = (effs, st', s')" and "\<And>peer h reply now. st \<noteq> Noted peer h reply now"
    and "\<And>peer c info. st \<noteq> Checked peer c info" and "\<And>now. st \<noteq> PurgeNonces now"
  shows "sv_nonces s' = sv_nonces s"
proof (cases "greeted st")
  case True
  with greeted_step [OF assms(1) True] assms(2) show ?thesis by blast
next
  case False
  show ?thesis
  proof (cases st)
    case (Sweeping items)
    with assms(1) show ?thesis by (cases items) auto
  qed (use False assms in \<open>auto simp: returned_def record_pulse_def
       dest: read_in_touches check_proof_touches decrypt_param_touches scan_touches split: step_splits\<close>)
qed

lemma checked_step:
  assumes "advance P E (Checked peer c info) s = (effs, st, s')"
  obtains (lost) out where "st = Finished out" "sv_nonces s' = sv_nonces s"
  | (won) en where "st = Consumed peer c info" "map_of (sv_nonces s) (claim_nonce c) = Some en"
      "answer_to peer c \<in> open_of (sv_nonces s)" "sv_nonces s' = hm_put (claim_nonce c) (en\<lparr>ne_used := True\<rparr>) (sv_nonces s)"
proof (cases rule: consume_proof_cases [of E "claim_id c" "claim_nonce c" peer s])
  case (lost e)
  with assms show thesis by (intro that(1)) auto
next
  case (won entry)
  let ?r = "consume (claim_nonce c) (to_hex (claim_id c)) (fst peer) (snd peer) (time_at E AtConsume) (sv_nonces s)"
  from won(2) obtain en where en: "map_of (sv_nonces s) (claim_nonce c) = Some en"
      "check en (to_hex (claim_id c)) (fst peer) (snd peer) (time_at E AtConsume) = Inr ()"
      "fst ?r = hm_put (claim_nonce c) (en\<lparr>ne_used := True\<rparr>) (sv_nonces s)"
    by (cases rule: consume_cases [of "claim_nonce c" "to_hex (claim_id c)" "fst peer" "snd peer" "time_at E AtConsume" "sv_nonces s"])
       auto
  then have "answer_to peer c \<in> open_of (sv_nonces s)" by (auto simp: open_of_def answer_to_def)
  with en won(1) assms show thesis by (intro that(2) [of en]) (auto simp: burnt_def)
qed

text \<open>The invariant of the simulation.\<close>

definition in_order :: "primitives \<Rightarrow> server \<Rightarrow> world \<Rightarrow> bool" where
  "in_order P s w \<longleftrightarrow> same_frame s (fst w) \<and> hm_ok (sv_nonces (fst w)) \<and>
     (\<forall>st \<in> set (snd w). stands P s st \<and> checked_fresh P s st)"

lemma in_order_step:
  assumes "in_order P s w" and "wstep P w l w'"
  shows "in_order P s w'"
proof -
  have "all_stand P s [] w" using assms(1) by (simp add: all_stand_def in_order_def)
  then have "all_stand P s ([] @ [l]) w'" by (rule all_stand_step) (rule assms(2))
  then have stand: "same_frame s (fst w')" "\<forall>st \<in> set (snd w'). stands P s st" by (simp_all add: all_stand_def)
  have fresh: "\<forall>st \<in> set (snd w'). checked_fresh P s st"
    using all_fresh_step [OF _ _ assms(2), of s] assms(1) by (simp add: in_order_def)
  have "hm_ok (sv_nonces (fst w'))"
    using assms(2)
  proof (cases rule: wstep_cases)
    case (shed T E t len ip out t')
    with gate_touches(1) [OF shed(6)] assms(1) show ?thesis by (simp add: in_order_def)
  next
    case (arrive T E t data peer t')
    with gate_touches(2) [OF arrive(6)] assms(1) show ?thesis by (simp add: in_order_def)
  next
    case (tick T t E)
    with assms(1) show ?thesis by (simp add: in_order_def)
  next
    case (task T i E t effs st t')
    have ok: "hm_ok (sv_nonces t)" using assms(1) task(1) by (simp add: in_order_def)
    from advance_nonces [OF task(7), of "[]"] consider "sv_nonces t' = sv_nonces t" | x where "sv_nonces t' = store_step x (sv_nonces t)"
      by blast
    then have "hm_ok (sv_nonces t')" by cases (simp_all add: ok hm_ok_store_step del: store_step.simps)
    with task(3) show ?thesis by simp
  qed
  with stand fresh show ?thesis by (simp add: in_order_def)
qed

lemma task_simulated:
  assumes ok: "in_order P s (t, T)" and i: "i < length T" and adv: "advance P E (T ! i) t = (effs, st, t')"
  shows "gk_step (signed_hello P s) (signed_claim P s) (abs_world (t, T)) (gk_event_of (Advanced E (T ! i) effs st))
    (abs_world (t', T[i := st]))"
proof -
  let ?D = "mset (List.map_filter owed_claim T)"
  note upd = map_filter_update [OF i, of owed_claim st]
  have hm: "hm_ok (sv_nonces t)" and now: "stands P s (T ! i)" "checked_fresh P s (T ! i)"
    using ok i by (auto simp: in_order_def)
  consider (noted) peer h reply m where "T ! i = Noted peer h reply m" | (checked) peer c info where "T ! i = Checked peer c info"
    | (purge) m where "T ! i = PurgeNonces m"
    | (other) "\<And>peer h reply m. T ! i \<noteq> Noted peer h reply m" "\<And>peer c info. T ! i \<noteq> Checked peer c info"
        "\<And>m. T ! i \<noteq> PurgeNonces m" by blast
  then show ?thesis
  proof cases
    case noted
    with adv have st: "owed_claim st = None" "sv_nonces t' = ns_insert (e_nonce E) (to_hex (h_client_id h)) (fst peer) (snd peer)
        (min (m + int (ss_nonce_ttl_seconds (sc_server (sv_config t)))) i64_max) (time_at E AtInsert) (sv_nonces t)"
      by (auto simp: Let_def)
    have D: "mset (List.map_filter owed_claim (T[i := st])) = ?D" using upd st(1) noted by simp
    have "abs_world (t', T[i := st]) = (insert (binding_for (e_nonce E) h peer) (others_than (e_nonce E) (open_of (sv_nonces t))), ?D)"
      by (simp add: abs_world_def D st(2) open_of_step(1) [OF hm] binding_for_def)
    moreover have "signed_hello P s h" using now(2) noted by simp
    ultimately show ?thesis using noted by (simp add: abs_world_def gk_step.issue)
  next
    case checked
    from adv [unfolded this] show ?thesis
    proof (cases rule: checked_step)
      case (lost out)
      have "mset (List.map_filter owed_claim (T[i := st])) = ?D" using upd lost(1) checked by simp
      with lost checked show ?thesis by (simp add: abs_world_def gk_step.lapse)
    next
      case (won en)
      have "mset (List.map_filter owed_claim (T[i := st])) = add_mset c ?D" using upd won(1) checked by simp
      moreover have "signed_claim P s c" using now(1) checked by (simp add: stands_def)
      ultimately show ?thesis using won checked
        by (simp add: abs_world_def open_of_step(2) [OF hm won(2)] gk_step.spend)
    qed
  next
    case purge
    with adv have st: "owed_claim st = None" "sv_nonces t' = fst (ns_purge_expired m (sv_nonces t))" by auto
    have "mset (List.map_filter owed_claim (T[i := st])) = ?D" using upd st(1) purge by simp
    with purge st(2) open_of_step(3) [OF hm, of m] show ?thesis by (simp add: abs_world_def gk_step.lapse)
  next
    case other
    have same: "sv_nonces t' = sv_nonces t" using advance_nonces_same [OF adv] other by blast
    show ?thesis
    proof (cases "owed_claim st = owed_claim (T ! i)")
      case True
      then have "mset (List.map_filter owed_claim (T[i := st])) = ?D" using upd by simp
      with True same show ?thesis
        by (simp add: gk_event_of_other [OF other(1,2)] abs_world_def gk_step.lapse split: option.split)
    next
      case False
      with advance_owed [OF adv] other(2) obtain c where c: "owed_claim st = None" "owed_claim (T ! i) = Some c"
        by (cases "owed_claim (T ! i)") auto
      then have D: "add_mset c (mset (List.map_filter owed_claim (T[i := st]))) = ?D" using upd by simp
      then have "c \<in># ?D" "mset (List.map_filter owed_claim (T[i := st])) = ?D - {#c#}"
        by (metis union_single_eq_member add_mset_add_single, metis add_mset_remove_trivial)
      with c same show ?thesis
        by (simp add: gk_event_of_other [OF other(1,2)] abs_world_def gk_step.hook gk_step.drop)
    qed
  qed
qed

lemma world_simulated:
  assumes "in_order P s w" and "wstep P w l w'"
  shows "gk_step (signed_hello P s) (signed_claim P s) (abs_world w) (gk_event_of l) (abs_world w')"
  using assms(2)
proof (cases rule: wstep_cases)
  case (shed T E t len ip out t')
  with gate_touches(1) [OF shed(6)] show ?thesis by (simp add: abs_world_def gk_step.lapse)
next
  case (arrive T E t data peer t')
  with gate_touches(2) [OF arrive(6)] show ?thesis by (simp add: abs_world_def map_filter_snoc gk_step.lapse)
next
  case (tick T t E)
  then show ?thesis by (simp add: abs_world_def map_filter_snoc gk_step.lapse)
next
  case (task T i E t effs st t')
  with assms(1) task_simulated show ?thesis by simp
qed

interpretation guarded: simulation "wstep P" "gk_step (signed_hello P s) (signed_claim P s)" abs_world gk_event_of "in_order P s"
  for P s
  by unfold_locales (rule in_order_step, assumption+, rule world_simulated)

lemma wrun_steps: "wrun P w tr w' \<Longrightarrow> steps (wstep P) w tr w'"
  by (induction rule: wrun.induct) (auto intro: steps.intros)

text \<open>Commands start with a hook that is owed, or for a lease that a scan found expired.\<close>

fun scan_revoke :: "label \<Rightarrow> bool" where
  "scan_revoke (Advanced E (Revoking e name p k (ByScan items)) effs st) \<longleftrightarrow> True"
| "scan_revoke _ \<longleftrightarrow> False"

lemma advance_spawned:
  assumes "advance P E st s = (effs, st', s')" and "Spawned cmd \<in> set effs"
  shows "(\<exists>c. gk_event_of (Advanced E st effs st') = Hook c) \<or> scan_revoke (Advanced E st effs st')"
proof (cases st)
  case (Greeting p h reply)
  from assms(1) [unfolded this] show ?thesis by (rule greeting_step) (use assms(2) in auto)
next
  case (Issuing p h reply n x)
  from assms(1) [unfolded this] show ?thesis by (rule issuing_step) (use assms(2) in auto)
next
  case (Opening p data)
  with assms show ?thesis by (auto dest: read_in_touches)
next
  case (Presented p c)
  with assms show ?thesis
    by (cases rule: check_proof_cases [of P E "claim_payload P c s" "claim_id c" "claim_nonce c" "claim_sig c" p s])
       (auto simp: returned_def)
next
  case (Revoking e name p k c)
  with assms show ?thesis by (cases c) (auto split: step_splits)
next
  case (Sweeping items)
  with assms show ?thesis by (cases items) auto
qed (use assms in \<open>auto simp: Let_def split: step_splits\<close>)

lemma wrun_spawned:
  "wrun P w tr w' \<Longrightarrow> \<forall>l \<in> set tr. \<forall>cmd. Spawned cmd \<in> set (label_effects l) \<longrightarrow> (\<exists>c. gk_event_of l = Hook c) \<or> scan_revoke l"
proof (induction rule: wrun.induct)
  case (step w tr w' l w'')
  have "(\<exists>c. gk_event_of l = Hook c) \<or> scan_revoke l" if "Spawned cmd \<in> set (label_effects l)" for cmd
    using step(2) that by (cases rule: wstep_cases) (auto dest: advance_spawned)
  with step show ?case by auto
qed simp

text \<open>
  C3: The server refines the gatekeeper. Every run of the server with all its tasks, in any interleaving,
  is a run of the gatekeeper from nothing, event by event; so hooks are paid for by spent challenges, a
  challenge is spent at most once for each time it was issued, by a signed claim of the client and from the
  endpoint it was issued to, and issued only for a signed HELLO. Every command that a task
  starts is such a hook, or revokes a lease that a scan found expired.
\<close>

theorem server_refines_gatekeeper:
  assumes "from_config P now cfg x y = Returns (Inr s)" and "wrun P (s, []) tr w"
  shows "steps (gk_step (signed_hello P s) (signed_claim P s)) ({}, {#}) (map gk_event_of tr) (abs_world w) \<and>
    hooks_paid (map gk_event_of tr) (abs_world w) \<and> spends_covered (map gk_event_of tr) (abs_world w) \<and>
    challenges_earned (signed_hello P s) (map gk_event_of tr) (abs_world w) \<and>
    spends_proven (signed_claim P s) (map gk_event_of tr) \<and>
    (\<forall>l \<in> set tr. \<forall>cmd. Spawned cmd \<in> set (label_effects l) \<longrightarrow> (\<exists>c. gk_event_of l = Hook c) \<or> scan_revoke l)"
proof -
  have n: "sv_nonces s = ns_new" using from_config_start [OF assms(1)] by blast
  then have "in_order P s (s, [])" by (simp add: in_order_def ns_new_def)
  moreover have "abs_world (s, []) = ({}, {#})" by (simp add: abs_world_def open_of_def n ns_new_def map_filter_simps)
  ultimately have run: "steps (gk_step (signed_hello P s) (signed_claim P s)) ({}, {#}) (map gk_event_of tr) (abs_world w)"
    using guarded.sim_run [OF wrun_steps [OF assms(2)], of s] by simp
  from run gk_run [OF run] wrun_spawned [OF assms(2)] show ?thesis by blast
qed

lemma gk_hook_has_spend: "hooks_paid es g \<Longrightarrow> Hook c \<in> set es \<Longrightarrow> \<exists>peer. Spend peer c \<in> set es"
proof -
  assume h: "hooks_paid es g" and "Hook c \<in> set es"
  then have "0 < tally ((=) (Hook c)) es" by (simp add: tally_def filter_empty_conv)
  with h have "0 < tally (spends_claim c) es" unfolding hooks_paid_def by (metis add_gr_0)
  then have "filter (spends_claim c) es \<noteq> []" by (simp add: tally_def)
  then obtain e where e: "e \<in> set es" "spends_claim c e" unfolding filter_empty_conv by blast
  from e(2) obtain peer where "e = Spend peer c" by (cases e) auto
  with e(1) show ?thesis by blast
qed

lemma scan_source: "scan_revoke l \<Longrightarrow> \<exists>st. source_of l = Some st \<and> cleaning st"
  by (cases l rule: scan_revoke.cases) simp_all

theorem server_refines_gatekeeper_witness:
  "\<exists>tr w c peer h. wrun demo (demo_server, []) tr w \<and> Hook c \<in> set (map gk_event_of tr) \<and>
     Spend peer c \<in> set (map gk_event_of tr) \<and> Issue (claim_nonce c) h peer \<in> set (map gk_event_of tr)"
proof -
  obtain tr w cmd d where r: "wrun demo (demo_server, []) tr w" "Spawned cmd \<in> set (concat (map label_effects tr))"
      "Ticked ` UNIV \<inter> set tr = {}"
    by (rule demo_run)
  from server_refines_gatekeeper [OF demo_from_config r(1)]
  have s: "hooks_paid (map gk_event_of tr) (abs_world w)" "spends_proven (signed_claim demo demo_server) (map gk_event_of tr)"
    "\<forall>l \<in> set tr. \<forall>cmd. Spawned cmd \<in> set (label_effects l) \<longrightarrow> (\<exists>c. gk_event_of l = Hook c) \<or> scan_revoke l"
    by blast+
  have "\<not> scan_revoke l" if "l \<in> set tr" for l
    using no_cleaning_without_ticks [OF r(1,3) that] scan_source [of l] by blast
  moreover from r(2) obtain l where l: "l \<in> set tr" "Spawned cmd \<in> set (label_effects l)" by auto
  ultimately obtain c where "gk_event_of l = Hook c" using s(3) by blast
  with l(1) have c: "Hook c \<in> set (map gk_event_of tr)" by (metis image_eqI list.set_map)
  from gk_hook_has_spend [OF s(1) c] obtain peer where p: "Spend peer c \<in> set (map gk_event_of tr)" by blast
  with s(2) obtain h where "Issue (claim_nonce c) h peer \<in> set (map gk_event_of tr)" unfolding spends_proven_def by blast
  with c p r(1) show ?thesis by blast
qed

end
