(* ===== verification/Access.thy ===== *)
theory Access
  imports Handshake
begin

text \<open>
  What the server as a whole guarantees, over single datagrams and over runs of datagrams, ticks
  and revocations: to whom it replies and with how many bytes, for whom it starts hooks, what a
  refused packet leaves unchanged, that a HELLO is accepted once, that a validated configuration
  keeps it from panicking, and how much signature work a packet costs.
\<close>

subsection \<open>What an event leaves alone\<close>

lemma grant_setup: "grant E iv hex name param peer s = (out, effs, s') \<Longrightarrow> same_setup s s' \<and> sv_seen s' = sv_seen s \<and> sv_nonces s' = sv_nonces s"
  by (cases rule: grant_cases [of E iv hex name param peer s]) (auto simp: same_setup_def)

lemma accept_response_setup:
  "accept_response E r info param peer s = (out, effs, s') \<Longrightarrow> same_setup s s' \<and> sv_seen s' = sv_seen s \<and> sv_nonces s' = sv_nonces s"
  unfolding accept_response_def Let_def by (drule grant_setup) (simp add: same_setup_def)

definition same_core :: "server \<Rightarrow> server \<Rightarrow> bool" where
  "same_core s s' \<longleftrightarrow> sv_config s' = sv_config s \<and> sv_clients s' = sv_clients s \<and> sv_secret s' = sv_secret s"

lemma same_core_simps [simp]: "same_core s s" "same_core s (note_rejected E r s)" "same_core s (counted E p s)"
  "same_core s (note_rejected E r (counted E p s))"
  "same_core s (burnt E c n p s)" "same_core s (note_rejected E r (burnt E c n p s))"
  "same_core (s\<lparr>sv_lockdown_logged := l\<rparr>) s' = same_core s s'"
  by (simp_all add: same_core_def)

lemma run_revoke_keeps: "run_revoke E e name param why k x s = (out, effs, s') \<Longrightarrow>
    same_core s s' \<and> sv_seen s' = sv_seen s \<and> sv_nonces s' = sv_nonces s"
  by (cases rule: run_revoke_cases [of E e name param why k x s]) (auto simp: same_core_def)

lemma accept_bye_keeps:
  assumes "accept_bye E b param s = (out, effs, s')"
  shows "same_core s s' \<and> sv_seen s' = sv_seen s \<and> sv_nonces s' = sv_nonces s"
proof -
  obtain leases res where r: "release_at (to_hex (b_client_id b)) (inst_at E AtRelease) (sv_leases s) = (leases, res)" by fastforce
  show ?thesis
  proof (cases "\<exists>e k x. res = Some (e, k) \<and> sv_revoke s = Some x")
    case True
    then obtain e k x where ek: "res = Some (e, k)" "sv_revoke s = Some x" by blast
    with r assms have "run_revoke E e (display_name (x_client_id e) (s\<lparr>sv_leases := leases\<rparr>)) (opt_or param (x_param e)) ''bye'' k x
        (s\<lparr>sv_leases := leases\<rparr>) = (out, effs, s')"
      by (simp add: accept_bye_def Let_def)
    from run_revoke_keeps [OF this] show ?thesis by (simp add: same_core_def)
  next
    case False
    with r assms show ?thesis
      by (auto simp: accept_bye_def Let_def same_core_def split: option.splits)
  qed
qed

lemma response_keeps:
  assumes "handle_response P E r peer s = (out, effs, s')"
  shows "same_core s s' \<and> sv_seen s' = sv_seen s"
proof (cases rule: auth_cases [of P E "response_payload P r s" "r_client_id r" "r_nonce r" "r_param r" "r_signature r" peer s])
  case (passed info entry q)
  obtain out' effs' where "accept_response E r info q peer (burnt E (r_client_id r) (r_nonce r) peer s) = (out', effs', s')"
    using assms passed by (auto simp: handle_response_def split: prod.splits)
  from accept_response_setup [OF this] show ?thesis by (simp add: same_core_def same_setup_def)
qed (use assms in \<open>auto simp: handle_response_def\<close>)

lemma bye_keeps:
  assumes "handle_bye P E b peer s = (out, effs, s')"
  shows "same_core s s' \<and> sv_seen s' = sv_seen s"
proof (cases rule: auth_cases [of P E "bye_payload P b s" "b_client_id b" "b_nonce b" "b_param b" "b_signature b" peer s])
  case (passed info entry q)
  obtain out' effs' where "accept_bye E b q (burnt E (b_client_id b) (b_nonce b) peer s) = (out', effs', s')"
    using assms passed by (auto simp: handle_bye_def split: prod.splits)
  from accept_bye_keeps [OF this] show ?thesis by (simp add: same_core_def)
qed (use assms in \<open>auto simp: handle_bye_def\<close>)

lemma accept_hello_keeps: "accept_hello P E h peer reply now s = (out, effs, s') \<Longrightarrow> same_core s s' \<and> sv_seen s' = sv_seen s"
  by (cases rule: accept_hello_cases [of P E h now s peer reply]) (auto simp: issue_def same_core_def)

lemma hello_keeps:
  assumes "handle_hello P E h peer reply s = (out, effs, s')"
  shows "same_core s s' \<and> (sv_seen s' = sv_seen s \<and> out \<notin> {ChallengeIssued, ReplyFailed} \<or>
    authentic_hello P E h s \<and> sv_seen s' = fst (seen_by E h s))"
proof (cases rule: hello_cases [of P E h peer reply s])
  case (replay info)
  then have "fst (seen_by E h s) = sv_seen s"
    by (auto simp: seen_by_def insert_if_absent_def Let_def split: option.splits if_splits)
  with replay assms show ?thesis by (auto simp: same_core_def)
next
  case (accepted info out' effs' t)
  from accept_hello_keeps [OF accepted(5)] accepted assms show ?thesis
    by (auto simp: authentic_hello_def same_core_def)
qed (use assms in auto)

lemma faulty_keeps: "faulty E out ip s = (out', effs, s') \<Longrightarrow>
    same_core s s' \<and> sv_seen s' = sv_seen s \<and> sv_nonces s' = sv_nonces s \<and> out' \<in> {out, Panicked}"
  by (cases rule: faulty_cases [of E out ip s]) (auto simp: same_core_def)

text \<open>A datagram marks at most the HELLO it carries as seen, and only when it is authentic and new.\<close>

lemma receive_keeps:
  assumes "receive P E data peer s = (out, effs, s')"
  shows "same_core s s' \<and>
    (sv_seen s' = sv_seen s \<and> (\<forall>h reply. read_packet P data s = Some (Hello h, reply) \<longrightarrow> out \<notin> {ChallengeIssued, ReplyFailed}) \<or>
     (\<exists>h reply. read_packet P data s = Some (Hello h, reply) \<and> authentic_hello P E h s \<and> sv_seen s' = fst (seen_by E h s)))"
proof (cases rule: receive_cases [of P E data peer s])
  case shed
  with assms show ?thesis by (auto simp: same_core_def)
next
  case (handled l)
  let ?s = "s\<lparr>sv_lockdown_logged := l\<rparr>"
  from handled(1) assms have d: "handle_datagram P E data peer ?s = (out, effs, s')" by simp
  show ?thesis
  proof (cases rule: datagram_cases [of P E data peer ?s])
    case no_secret
    with d show ?thesis by (auto simp: same_core_def)
  next
    case (unreadable out')
    with d faulty_keeps [of E out' "fst peer" ?s] show ?thesis by auto
  next
    case challenge
    with d show ?thesis by (auto simp: same_core_def)
  next
    case (hello h reply)
    with d hello_keeps [of P E h peer reply ?s] show ?thesis by (auto simp: authentic_hello_def)
  next
    case (response r reply)
    with d response_keeps [of P E r peer ?s] show ?thesis by auto
  next
    case (bye b reply)
    with d bye_keeps [of P E b peer ?s] show ?thesis by auto
  qed
qed

lemma lease_scan_keeps: "same_core s (fst (lease_scan E s)) \<and> sv_seen (fst (lease_scan E s)) = sv_seen s \<and>
    sv_nonces (fst (lease_scan E s)) = sv_nonces s"
  by (auto simp: lease_scan_def Let_def same_core_def split: prod.splits option.splits)

lemma tick_keeps: "same_core s (fst (cleanup_tick E s))"
    "sv_seen (fst (cleanup_tick E s)) = fst (sc_purge_expired (time_at E AtTick) (sv_seen s))"
    "sv_nonces (fst (cleanup_tick E s)) = fst (ns_purge_expired (time_at E AtTick) (sv_nonces s))"
  using lease_scan_keeps by (simp_all add: cleanup_tick_def Let_def same_core_def)

lemma revoke_keeps: "same_core s (snd (snd (revoke_expired E item s))) \<and> sv_seen (snd (snd (revoke_expired E item s))) = sv_seen s \<and>
    sv_nonces (snd (snd (revoke_expired E item s))) = sv_nonces s"
proof (cases item)
  case (fields e name k)
  show ?thesis
  proof (cases "sv_revoke s")
    case None
    with fields show ?thesis by (simp add: revoke_expired_def)
  next
    case (Some x)
    obtain out effs s' where r: "run_revoke E e name (x_param e) ''expired'' k x s = (out, effs, s')" by (metis prod_cases3)
    from run_revoke_keeps [OF r] r Some fields show ?thesis by (simp add: revoke_expired_def)
  qed
qed

lemma event_core: "same_core s (event_step P ev s)"
proof (cases ev)
  case (Datagram E data peer)
  obtain out effs s' where r: "receive P E data peer s = (out, effs, s')" by (metis prod_cases3)
  with receive_keeps [OF r] Datagram show ?thesis by simp
qed (simp_all add: tick_keeps revoke_keeps)

lemma core_facts:
  assumes "same_core s s'"
  shows "read_packet P data s' = read_packet P data s" and "skew_of s' = skew_of s"
    and "hello_payload P h s' = hello_payload P h s"
  using assms by (auto simp: same_core_def read_packet_def opened_def skew_of_def hello_payload_def
      split: wire_encryption.splits cong: option.case_cong)

subsection \<open>A HELLO is accepted once\<close>

fun accepts_hello :: "primitives \<Rightarrow> event \<Rightarrow> server \<Rightarrow> hello \<Rightarrow> bool" where
  "accepts_hello P (Datagram E data peer) s h =
     (case read_packet P data s of
        Some (Hello h', _) \<Rightarrow> h' = h \<and> fst (receive P E data peer s) \<in> {ChallengeIssued, ReplyFailed}
      | _ \<Rightarrow> False)"
| "accepts_hello P _ s h = False"

text \<open>The readings of the system clock that the replay cache is given, in the order of the run.\<close>

fun clock_of :: "event \<Rightarrow> int list" where
  "clock_of (Datagram E data peer) = [time_at E AtFresh]"
| "clock_of (Tick E) = [time_at E AtTick]"
| "clock_of (Revoke E item) = []"

text \<open>The HELLO is either still in the cache until it is stale, or stale already.\<close>

definition spent :: "hello \<Rightarrow> int \<Rightarrow> server \<Rightarrow> bool" where
  "spent h now s \<longleftrightarrow>
     (let lim = min (h_timestamp h + int (skew_of s)) i64_max
      in (\<exists>e. map_of (sv_seen s) (replay_key h) = Some e \<and> lim \<le> e) \<or> lim < now)"

lemma spent_mono: "spent h t s \<Longrightarrow> t \<le> t' \<Longrightarrow> spent h t' s"
  by (auto simp: spent_def Let_def)

text \<open>What the cache of a state knows; everything else of the state is irrelevant to \<open>spent\<close>.\<close>

lemma spent_cong: "skew_of s' = skew_of s \<Longrightarrow> sv_seen s' = sv_seen s \<Longrightarrow> spent h t s' = spent h t s"
  by (simp add: spent_def)

lemma spent_refused:
  assumes "spent h t s" and "t \<le> time_at E AtFresh"
  shows "\<not> authentic_hello P E h s"
proof
  assume a: "authentic_hello P E h s"
  let ?lim = "min (h_timestamp h + int (skew_of s)) i64_max"
  have now: "time_at E AtFresh \<le> ?lim" using a time_at_le by (auto simp: authentic_hello_def)
  with assms obtain e where "map_of (sv_seen s) (replay_key h) = Some e" "?lim \<le> e"
    by (auto simp: spent_def Let_def)
  moreover have "time_at E AtFresh \<le> e" using now \<open>?lim \<le> e\<close> by linarith
  ultimately have "\<not> snd (seen_by E h s)" by (simp add: seen_by_def insert_if_absent_def)
  with a show False by (simp add: authentic_hello_def)
qed

lemma spent_seen:
  assumes "spent h t s" and "t \<le> time_at E AtFresh"
    and "sv_seen s' = fst (seen_by E h' s)" and "skew_of s' = skew_of s" and "hm_ok (sv_seen s)"
  shows "spent h (time_at E AtFresh) s'"
proof -
  let ?lim = "min (h_timestamp h + int (skew_of s)) i64_max"
  consider "?lim < time_at E AtFresh"
    | e where "map_of (sv_seen s) (replay_key h) = Some e" "?lim \<le> e" "time_at E AtFresh \<le> ?lim"
    using assms(1,2) by (fastforce simp: spent_def Let_def)
  then show ?thesis
  proof cases
    case 1
    with assms(4) show ?thesis by (simp add: spent_def Let_def)
  next
    case (2 e)
    have "map_of (fst (seen_by E h' s)) (replay_key h) = Some e"
      using live_entry_kept [OF assms(5) 2(1), of "OpSee (replay_key h') (time_at E AtFresh) (u64_saturating_mul (skew_of s) 2)"] 2
      by (simp add: seen_by_def)
    with 2 assms(3,4) show ?thesis by (simp add: spent_def Let_def)
  qed
qed

lemma accepted_spends:
  assumes "authentic_hello P E h s" and "sv_seen s' = fst (seen_by E h s)" and "skew_of s' = skew_of s"
  shows "spent h (time_at E AtFresh) s'"
proof -
  let ?now = "time_at E AtFresh" and ?l = "u64_saturating_mul (skew_of s) 2"
  have "snd (insert_if_absent (replay_key h) ?now ?l (sv_seen s))" and f: "\<bar>?now - h_timestamp h\<bar> \<le> int (skew_of s)"
    using assms(1) by (simp_all add: authentic_hello_def seen_by_def)
  then have m: "map_of (sv_seen s') (replay_key h) = Some (min (?now + int ?l) i64_max)"
    using assms(2) accept_records [of "OpSee (replay_key h) ?now ?l" "sv_seen s" "replay_key h"] by (simp add: seen_by_def)
  have "- (2 ^ 63) \<le> ?now" using expiry_in_i64 [of E AtFresh 0] by (auto simp: in_i64_def i64_min_def i64_max_def)
  then have "min (h_timestamp h + int (skew_of s)) i64_max \<le> min (?now + int ?l) i64_max"
    using f by (auto simp: u64_saturating_mul_def u64_max_def i64_max_def min_def)
  with m assms(3) show ?thesis by (auto simp: spent_def Let_def)
qed

text \<open>One event: a spent HELLO is refused and stays spent; one that is accepted is spent.\<close>

lemma spent_event:
  assumes ok: "server_ok s" and sp: "spent h t s" and ts: "\<forall>r \<in> set (clock_of ev). t \<le> r"
  shows "\<not> accepts_hello P ev s h \<and> spent h (foldl max t (clock_of ev)) (event_step P ev s)"
proof (cases ev)
  case (Datagram E data peer)
  obtain out effs s' where r: "receive P E data peer s = (out, effs, s')" by (metis prod_cases3)
  have t: "t \<le> time_at E AtFresh" using ts Datagram by simp
  note k = receive_keeps [OF r] and na = spent_refused [OF sp t, of P]
  have sk: "skew_of s' = skew_of s" using k core_facts(2) by blast
  have "spent h (time_at E AtFresh) s'"
  proof (cases "sv_seen s' = sv_seen s")
    case True
    from spent_mono [OF sp t] spent_cong [OF sk True] show ?thesis by simp
  next
    case False
    with k obtain h' where "sv_seen s' = fst (seen_by E h' s)" by blast
    from spent_seen [OF sp t this sk] ok show ?thesis by (simp add: server_ok_alt)
  qed
  moreover have "\<not> accepts_hello P ev s h"
    using k na r Datagram by (auto split: option.splits packet.splits)
  ultimately show ?thesis using Datagram r t by (simp add: max_def)
next
  case (Tick E)
  have t: "t \<le> time_at E AtTick" using ts Tick by simp
  have sk: "skew_of (fst (cleanup_tick E s)) = skew_of s" using core_facts(2) tick_keeps(1) by blast
  have ok': "hm_ok (sv_seen s)" using ok by (simp add: server_ok_alt)
  have "spent h (time_at E AtTick) (fst (cleanup_tick E s))"
    using sp t sk ok' by (fastforce simp: spent_def Let_def tick_keeps(2) sc_purge_expired_def map_of_retain_live live_at_def)
  with Tick t show ?thesis by (simp add: max_def)
next
  case (Revoke E item)
  have "skew_of (event_step P ev s) = skew_of s" using core_facts(2) event_core by blast
  then have "spent h t (event_step P ev s)"
    using spent_cong [of "event_step P ev s" s h t] sp revoke_keeps [of s E item] Revoke by simp
  with Revoke show ?thesis by simp
qed

lemma foldl_max_le: "foldl max (t :: int) rs \<le> u \<longleftrightarrow> t \<le> u \<and> (\<forall>r \<in> set rs. r \<le> u)"
  by (induction rs arbitrary: t) auto

lemma spent_run:
  assumes "server_ok s" and "spent h t s" and "sorted (t # concat (map clock_of evs))"
  shows "count_takes (event_step P) (accepts_hello P) h s evs = 0"
  using assms
proof (induction evs arbitrary: s t)
  case Nil
  then show ?case by simp
next
  case (Cons ev evs)
  have "\<forall>r \<in> set (clock_of ev). t \<le> r" using Cons.prems(3) by simp
  from spent_event [OF Cons.prems(1,2) this, of P]
  have sp: "\<not> accepts_hello P ev s h" "spent h (foldl max t (clock_of ev)) (event_step P ev s)" by auto
  have "sorted (foldl max t (clock_of ev) # concat (map clock_of evs))"
    using Cons.prems(3) by (auto simp: sorted_append foldl_max_le)
  from Cons.IH [OF event_ok [OF Cons.prems(1)] sp(2) this] sp(1) show ?case by simp
qed

subsection \<open>Lengths\<close>

lemma cipher_encrypt_length:
  assumes "lawful P" and "length key = 32" and "length nonce = XNONCE_LEN" and "length m < 2 ^ 32"
    and "cipher_encrypt P key nonce aad m = Inr c"
  shows "length c = length m + 16"
  using cipher_encrypt_total [of P key nonce m aad] assms by (auto simp: lawful_def)

lemma open_box_length:
  assumes "lawful P" and "open_box P secret blob ctx = Inr (m, eph)" and "length m < 2 ^ 32"
  shows "length blob = length m + 72"
proof -
  have laws: "box_laws P" using assms(1) by (simp add: lawful_def)
  have "X25519_KEY_LEN + XNONCE_LEN \<le> length blob" using assms(2) by (simp add: open_box_def split: if_splits)
  then obtain ep n c where b: "blob = ep @ n @ c" "length ep = X25519_KEY_LEN" "length n = XNONCE_LEN" by (rule blob_parts)
  let ?k = "derive_key P (x_dh P secret ep) ep (x_public P secret) ctx"
  have k: "length ?k = 32" using laws by simp
  have "cipher_decrypt P ?k n ctx c = Inr m"
    using assms(2) b by (auto simp: open_box_blob res_bind_eq_Inr split: if_splits)
  then have "cipher_encrypt P ?k n ctx m = Inr c" using cipher_exact [OF laws k b(3)] by blast
  from cipher_encrypt_length [OF assms(1) k b(3) assms(3) this] b show ?thesis by (simp add: crypto_consts)
qed

text \<open>The lengths of a HELLO's datagram and of the reply to it.\<close>

lemma hello_datagram:
  assumes "lawful P" and "read_packet P data s = Some (Hello h, reply)"
  shows "wf_client_id (h_client_id h)" and "length data = (case reply of Cleartext \<Rightarrow> 122 | Sealed _ \<Rightarrow> 194)"
proof -
  obtain inner where i: "opened P data s = Some (inner, reply)" "decode inner = Inr (Hello h)"
    using assms(2) by (auto simp: read_packet_def split: option.splits sum.splits)
  then have w: "wf_packet (Hello h)" "inner = encode (Hello h)" by (auto simp: decode_iff)
  have l: "length inner = 122" unfolding w(2) by (rule length_encode_hello [OF w(1)])
  show "wf_client_id (h_client_id h)" using w by simp
  show "length data = (case reply of Cleartext \<Rightarrow> 122 | Sealed _ \<Rightarrow> 194)"
  proof (cases "ss_wire_encryption (sc_server (sv_config s))")
    case Off
    with i l show ?thesis by (auto simp: opened_def)
  next
    case Required
    with i obtain secret eph where "open_box P secret data CTX_WIRE = Inr (inner, eph)" "reply = Sealed eph"
      by (auto simp: opened_def split: option.splits sum.splits)
    with open_box_length [OF assms(1), of secret data CTX_WIRE inner eph] l show ?thesis by simp
  qed
qed

lemma challenge_datagram:
  assumes "lawful P" and "length (e_nonce E) = CHALLENGE_NONCE_LEN" and "length (e_xnonce E) = XNONCE_LEN"
    and "wf_client_id (h_client_id h)"
    and "send_reply P E (challenge_for E h now s) peer reply bind s' = ([Sent p d], ok)"
  shows "p = peer \<and> length d = (case reply of Cleartext \<Rightarrow> 74 | Sealed _ \<Rightarrow> 114)"
proof -
  let ?c = "challenge_for E h now s"
  have l: "length (encode ?c) = 74"
    using assms(2,4) by (simp add: challenge_for_def header_def wf_client_id_def CLIENT_ID_LEN_def CHALLENGE_NONCE_LEN_def)
  show ?thesis
  proof (cases reply)
    case Cleartext
    with assms(5) l show ?thesis by (auto simp: send_reply_def split: if_splits)
  next
    case (Sealed eph)
    with assms(5) obtain secret where sr: "seal_reply P (e_xnonce E) secret eph (encode ?c) bind = Inr d" and p: "p = peer"
      by (auto simp: send_reply_def Let_def split: if_splits option.splits sum.splits)
    let ?k = "derive_key P (x_dh P secret eph) (x_public P secret) eph CTX_REPLY"
    from sr obtain c where c: "cipher_encrypt P ?k (e_xnonce E) (reply_aad bind) (encode ?c) = Inr c" "d = e_xnonce E @ c"
      by (auto simp: seal_reply_def Let_def res_bind_eq_Inr split: if_splits)
    have "length ?k = 32" "length (encode ?c) < 2 ^ 32" using assms(1) l by (simp_all add: lawful_def)
    from cipher_encrypt_length [OF assms(1) this(1) assms(3) this(2) c(1)] c l p Sealed assms(3) show ?thesis
      by (simp add: crypto_consts)
  qed
qed

subsection \<open>Commands\<close>

lemma run_hook_spawns:
  assumes "run_hook E c ip p param n why k x = (effs, r, x')" and "Spawned cmd \<in> set effs"
  shows "cmd = build_command x ip c p (case param of Some p \<Rightarrow> p | None \<Rightarrow> []) (if n then ''1'' else ''0'') why (show_nat k)"
  using assms by (auto simp: run_hook_def execute_start_def Let_def split: if_splits option.splits prod.splits)

lemma grant_spawns:
  assumes "grant E iv hex name param peer s = (out, effs, s')" and "Spawned cmd \<in> set effs"
  shows "\<exists>n k. cmd = build_command (sv_executor s) (fst peer) hex (snd peer) (case param of Some p \<Rightarrow> p | None \<Rightarrow> []) n ''grant'' k"
proof (cases rule: grant_cases [of E iv hex name param peer s])
  case (failed ttl leases new e effs')
  with assms run_hook_spawns [OF failed(3)] show ?thesis by auto
next
  case (ran ttl leases new res effs' st)
  with assms run_hook_spawns [OF ran(3)] show ?thesis by auto
qed (use assms in auto)

lemma revoke_spawns:
  assumes "run_revoke E e name param why k x s = (out, effs, s')" and "Spawned cmd \<in> set effs"
  shows "cmd = build_command x (x_ip e) (x_client_id e) (x_source_port e) (case param of Some p \<Rightarrow> p | None \<Rightarrow> []) ''0'' why (show_nat k)"
proof (cases rule: run_revoke_cases [of E e name param why k x s])
  case (failed err effs')
  with assms run_hook_spawns [OF failed(2)] show ?thesis by auto
next
  case (ran res effs' st)
  with assms run_hook_spawns [OF ran(2)] show ?thesis by auto
qed

lemma accept_bye_spawns:
  assumes "accept_bye E b param s = (out, effs, s')" and "Spawned cmd \<in> set effs"
  shows "\<exists>x l p k. sv_revoke s = Some x \<and> map_of (lt_leases (sv_leases s)) (to_hex (b_client_id b)) = Some l \<and>
    cmd = build_command x (l_ip l) (to_hex (b_client_id b)) (l_source_port l) p ''0'' ''bye'' k"
proof -
  let ?hex = "to_hex (b_client_id b)"
  obtain l where l: "map_of (lt_leases (sv_leases s)) ?hex = Some l"
    using assms by (cases "map_of (lt_leases (sv_leases s)) ?hex") (auto simp: accept_bye_def release_at_def)
  obtain leases k where r: "release_at ?hex (inst_at E AtRelease) (sv_leases s) = (leases, Some (end_lease ?hex l, k))"
    using l by (auto simp: release_at_def Let_def)
  show ?thesis
  proof (cases "sv_revoke s")
    case None
    with assms r show ?thesis by (simp add: accept_bye_def)
  next
    case (Some x)
    let ?p = "opt_or param (l_param l)"
    have "run_revoke E (end_lease ?hex l) (display_name ?hex (s\<lparr>sv_leases := leases\<rparr>)) ?p ''bye'' k x (s\<lparr>sv_leases := leases\<rparr>) =
        (out, effs, s')"
      using assms(1) r Some by (simp add: accept_bye_def end_lease_def Let_def)
    from revoke_spawns [OF this assms(2)] l Some show ?thesis by (auto simp: end_lease_def)
  qed
qed

text \<open>The nonce of a proof is used up in every state after its consumption.\<close>

lemma burnt_used:
  assumes "proven P E payload cid nonce sig peer s info entry"
    and "authenticate P E payload cid nonce blob sig peer s = Inr res"
  shows "map_of (sv_nonces (burnt E cid nonce peer s)) nonce = Some (entry\<lparr>ne_used := True\<rparr>)"
proof (cases rule: consume_proof_cases [of E cid nonce peer s])
  case (lost e)
  with assms(2) show ?thesis by (auto simp: authenticate_def res_bind_eq_Inr)
next
  case (won e)
  have m: "map_of (sv_nonces s) nonce = Some entry" using assms(1) by (simp add: proven_def)
  with won(2) have "check entry (to_hex cid) (fst peer) (snd peer) (time_at E AtConsume) = Inr ()"
    by (simp add: consume_def Let_def split: sum.splits)
  with m show ?thesis by (simp add: burnt_def consume_def Let_def del: check_Inr)
qed

lemma response_spawns:
  assumes "handle_response P E r peer s = (out, effs, s')" and "Spawned cmd \<in> set effs"
  shows "\<exists>info entry p n k. proven P E (response_payload P r s) (r_client_id r) (r_nonce r) (r_signature r) peer s info entry \<and>
    map_of (sv_nonces s') (r_nonce r) = Some (entry\<lparr>ne_used := True\<rparr>) \<and>
    cmd = build_command (sv_executor s) (fst peer) (to_hex (r_client_id r)) (snd peer) p n ''grant'' k"
proof (cases rule: auth_cases [of P E "response_payload P r s" "r_client_id r" "r_nonce r" "r_param r" "r_signature r" peer s])
  case (passed info entry q)
  let ?s = "burnt E (r_client_id r) (r_nonce r) peer s"
  obtain effs' where a: "accept_response E r info q peer ?s = (out, effs', s')" and c: "Spawned cmd \<in> set effs'"
    using assms passed by (auto simp: handle_response_def split: prod.splits)
  have "sv_nonces s' = sv_nonces ?s" using accept_response_setup [OF a] by simp
  moreover have "\<exists>n k. cmd = build_command (sv_executor s) (fst peer) (to_hex (r_client_id r)) (snd peer)
      (case q of Some p \<Rightarrow> p | None \<Rightarrow> []) n ''grant'' k"
    using grant_spawns [OF a [unfolded accept_response_def Let_def] c] by simp
  ultimately show ?thesis using passed(1) burnt_used [OF passed(1,2)] by metis
qed (use assms in \<open>auto simp: handle_response_def\<close>)

lemma bye_spawns:
  assumes "handle_bye P E b peer s = (out, effs, s')" and "Spawned cmd \<in> set effs"
  shows "\<exists>info entry x l p k. proven P E (bye_payload P b s) (b_client_id b) (b_nonce b) (b_signature b) peer s info entry \<and>
    map_of (sv_nonces s') (b_nonce b) = Some (entry\<lparr>ne_used := True\<rparr>) \<and>
    sv_revoke s = Some x \<and> map_of (lt_leases (sv_leases s)) (to_hex (b_client_id b)) = Some l \<and>
    cmd = build_command x (l_ip l) (to_hex (b_client_id b)) (l_source_port l) p ''0'' ''bye'' k"
proof (cases rule: auth_cases [of P E "bye_payload P b s" "b_client_id b" "b_nonce b" "b_param b" "b_signature b" peer s])
  case (passed info entry q)
  let ?s = "burnt E (b_client_id b) (b_nonce b) peer s"
  obtain effs' where a: "accept_bye E b q ?s = (out, effs', s')" and c: "Spawned cmd \<in> set effs'"
    using assms passed by (auto simp: handle_bye_def split: prod.splits)
  have "sv_nonces s' = sv_nonces ?s" using accept_bye_keeps [OF a] by simp
  with accept_bye_spawns [OF a c] passed(1) burnt_used [OF passed(1,2)] show ?thesis by (simp del: fun_upd_apply) metis
qed (use assms in \<open>auto simp: handle_bye_def\<close>)

lemma run_core: "same_core s (fold (event_step P) evs s)"
proof (induction evs arbitrary: s)
  case Nil
  then show ?case by simp
next
  case (Cons ev evs)
  with event_core [of s P ev] show ?case by (fastforce simp: same_core_def)
qed

text \<open>A refusal sends and starts nothing.\<close>

lemma refused_quiet:
  assumes "receive P E data peer s = (out, effs, s')" and "out \<in> refusals" and "e \<in> set effs"
  shows "e \<noteq> Sent p d \<and> e \<noteq> Spawned cmd"
proof (rule receive_effect [OF assms(1,3)])
  fix h reply assume "\<exists>l. handle_hello P E h peer reply (s\<lparr>sv_lockdown_logged := l\<rparr>) = (out, effs, s')"
  then obtain l where h: "handle_hello P E h peer reply (s\<lparr>sv_lockdown_logged := l\<rparr>) = (out, effs, s')" by blast
  from hello_sent [OF h, of p d] hello_spawns_nothing [OF h, of cmd] assms(2,3) show ?thesis
    by (auto simp: refusals_def)
next
  fix r reply assume "\<exists>l. handle_response P E r peer (s\<lparr>sv_lockdown_logged := l\<rparr>) = (out, effs, s')"
  then obtain l where h: "handle_response P E r peer (s\<lparr>sv_lockdown_logged := l\<rparr>) = (out, effs, s')" by blast
  let ?s = "s\<lparr>sv_lockdown_logged := l\<rparr>"
  show ?thesis
  proof (cases rule: auth_cases [of P E "response_payload P r ?s" "r_client_id r" "r_nonce r" "r_param r" "r_signature r" peer ?s])
    case (passed info entry q)
    with h assms(2) show ?thesis
      by (auto simp: handle_response_def accept_response_def Let_def split: prod.splits dest: grant_outcome)
  qed (use h assms in \<open>auto simp: handle_response_def refusals_def\<close>)
next
  fix b reply assume "\<exists>l. handle_bye P E b peer (s\<lparr>sv_lockdown_logged := l\<rparr>) = (out, effs, s')"
  then obtain l where h: "handle_bye P E b peer (s\<lparr>sv_lockdown_logged := l\<rparr>) = (out, effs, s')" by blast
  let ?s = "s\<lparr>sv_lockdown_logged := l\<rparr>"
  show ?thesis
  proof (cases rule: auth_cases [of P E "bye_payload P b ?s" "b_client_id b" "b_nonce b" "b_param b" "b_signature b" peer ?s])
    case (passed info entry q)
    with h assms(2) show ?thesis
      by (auto simp: handle_bye_def split: prod.splits dest: accept_bye_outcome)
  qed (use h assms in \<open>auto simp: handle_bye_def refusals_def\<close>)
qed

subsection \<open>Signature work\<close>

fun sig_checks :: "effect list \<Rightarrow> nat" where
  "sig_checks [] = 0"
| "sig_checks (SigCheck k m sig # es) = Suc (sig_checks es)"
| "sig_checks (_ # es) = sig_checks es"

lemma sig_checks_append [simp]: "sig_checks (a @ b) = sig_checks a + sig_checks b"
  by (induction a rule: sig_checks.induct) simp_all

lemma hello_work: "sig_checks (fst (snd (handle_hello P E h peer reply s))) =
    (if fst (handle_hello P E h peer reply s) = RateLimited then 0 else 1)"
proof (cases rule: hello_cases [of P E h peer reply s])
  case (accepted info out effs t)
  have "sig_checks effs = 0 \<and> out \<noteq> RateLimited"
    using accepted(5) by (cases rule: accept_hello_cases [of P E h "time_at E AtFresh" "(counted E peer s)\<lparr>sv_seen := fst (seen_by E h s)\<rparr>" peer reply])
      auto
  with accepted show ?thesis by simp
qed simp_all

lemma check_proof_work: "check_proof P E payload cid nonce sig peer s = Inl (out, effs, s') \<Longrightarrow>
    sig_checks effs = (if out \<in> range NonceRejected then 0 else 1)"
  by (auto simp: check_proof_def Let_def split: option.splits sum.splits)

lemma auth_work: "authenticate P E payload cid nonce blob sig peer s = Inl (out, effs, s') \<Longrightarrow>
    sig_checks effs = (if out \<in> range NonceRejected then 0 else 1)"
proof (cases "check_proof P E payload cid nonce sig peer s")
  case (Inl x)
  assume "authenticate P E payload cid nonce blob sig peer s = Inl (out, effs, s')"
  with Inl show ?thesis by (simp add: authenticate_def check_proof_work)
next
  case (Inr ie)
  assume a: "authenticate P E payload cid nonce blob sig peer s = Inl (out, effs, s')"
  obtain info fx where ie: "ie = (info, fx)" by (cases ie)
  have "sig_checks fx = 1" using Inr ie by (auto simp: check_proof_def Let_def split: option.splits sum.splits)
  moreover have "effs = fx \<and> out \<notin> range NonceRejected"
  proof (cases rule: consume_proof_cases [of E cid nonce peer s])
    case (lost e)
    with a Inr ie show ?thesis by (auto simp: authenticate_def)
  next
    case (won e)
    with a Inr ie show ?thesis
      by (cases rule: decrypt_param_cases [of P E blob "burnt E cid nonce peer s"]) (auto simp: authenticate_def)
  qed
  ultimately show ?thesis by simp
qed

lemma auth_passed_work: "authenticate P E payload cid nonce blob sig peer s = Inr (info, q, effs, s') \<Longrightarrow> sig_checks effs = 1"
  by (cases rule: auth_cases [of P E payload cid nonce blob sig peer s]) auto

lemma run_hook_work [simp]: "run_hook E c ip p param n why k x = (effs, r, x') \<Longrightarrow> sig_checks effs = 0"
  by (cases rule: run_hook_cases [of E c ip p param n why k x]) auto

lemma grant_work: "grant E iv hex name param peer s = (out, effs, s') \<Longrightarrow> sig_checks effs = 0 \<and> out \<notin> range NonceRejected"
  by (cases rule: grant_cases [of E iv hex name param peer s]) auto

lemma revoke_work: "run_revoke E e name param why k x s = (out, effs, s') \<Longrightarrow> sig_checks effs = 0 \<and> out \<notin> range NonceRejected"
  by (cases rule: run_revoke_cases [of E e name param why k x s]) auto

lemma accept_bye_work: "accept_bye E b param s = (out, effs, s') \<Longrightarrow> sig_checks effs = 0 \<and> out \<notin> range NonceRejected"
  by (auto simp: accept_bye_def Let_def split: prod.splits option.splits dest: revoke_work)

lemma accept_response_work: "accept_response E r info q peer s = (out, effs, s') \<Longrightarrow>
    sig_checks effs = 0 \<and> out \<notin> range NonceRejected"
  unfolding accept_response_def Let_def by (rule grant_work)

lemma response_work: "sig_checks (fst (snd (handle_response P E r peer s))) =
    (if fst (handle_response P E r peer s) \<in> range NonceRejected then 0 else 1)"
proof (cases "authenticate P E (response_payload P r s) (r_client_id r) (r_nonce r) (r_param r) (r_signature r) peer s")
  case (Inl x)
  then show ?thesis by (cases x) (simp add: handle_response_def auth_work)
next
  case (Inr y)
  obtain info q effs t where y: "y = (info, q, effs, t)" by (cases y)
  obtain out effs' t' where a: "accept_response E r info q peer t = (out, effs', t')" by (metis prod_cases3)
  show ?thesis
    using Inr y a auth_passed_work [OF Inr [unfolded y]] accept_response_work [OF a] by (simp add: handle_response_def)
qed

lemma bye_work: "sig_checks (fst (snd (handle_bye P E b peer s))) =
    (if fst (handle_bye P E b peer s) \<in> range NonceRejected then 0 else 1)"
proof (cases "authenticate P E (bye_payload P b s) (b_client_id b) (b_nonce b) (b_param b) (b_signature b) peer s")
  case (Inl x)
  then show ?thesis by (cases x) (simp add: handle_bye_def auth_work)
next
  case (Inr y)
  obtain info q effs t where y: "y = (info, q, effs, t)" by (cases y)
  obtain out effs' t' where a: "accept_bye E b q t = (out, effs', t')" by (metis prod_cases3)
  show ?thesis
    using Inr y a auth_passed_work [OF Inr [unfolded y]] accept_bye_work [OF a] by (simp add: handle_bye_def)
qed

subsection \<open>Panics\<close>

text \<open>The two additions to the monotonic clock that a datagram can reach, and the clamp.\<close>

lemma record_panics: "record_faulty_at ip t u b = Panics \<Longrightarrow> instant_add t (bl_duration b) = None"
  by (auto simp: record_faulty_at_def fault_entry_def Let_def split: if_splits option.splits may_panic.splits)

lemma faulty_no_panic:
  assumes "faulty E out ip s = (out', effs, s')" and "out \<noteq> Panicked"
    and "instant_add (inst_at E AtFault) (bl_duration (sv_blacklist s)) \<noteq> None"
  shows "out' \<noteq> Panicked"
proof (cases rule: faulty_cases [of E out ip s])
  case panics
  let ?b = "sv_blacklist (note_rejected E False s)"
  have "instant_add (inst_at E AtFault) (bl_duration ?b) = None"
    by (rule record_panics [OF panics(2)])
  with assms(3) show ?thesis by (simp add: note_rejected_def)
qed (use assms in auto)

lemma grant_no_panic:
  assumes "grant E iv hex name param peer s = (out, effs, s')" and "1 \<le> ss_lease_max_seconds (sc_server (sv_config s))"
    and "\<And>n. 1 \<le> n \<Longrightarrow> n \<le> ss_lease_max_seconds (sc_server (sv_config s)) \<Longrightarrow> instant_add (inst_at E AtRenew) (from_secs n) \<noteq> None"
  shows "out \<noteq> Panicked"
proof (cases rule: grant_cases [of E iv hex name param peer s])
  case panics
  let ?n = "max 1 (min (u64_saturating_mul iv (ss_lease_grace_multiplier (sc_server (sv_config s))))
      (ss_lease_max_seconds (sc_server (sv_config s))))"
  note ttl = lease_ttl_validated [OF assms(2), of iv]
  with panics(2) have "instant_add (inst_at E AtRenew) (from_secs ?n) = None"
    by (auto simp: renew_at_def Let_def split: option.splits)
  moreover have "1 \<le> ?n" "?n \<le> ss_lease_max_seconds (sc_server (sv_config s))" using assms(2) by simp_all
  ultimately show ?thesis using assms(3) by blast
qed (use assms in auto)

lemma datagram_no_panic:
  assumes "handle_datagram P E data peer (s\<lparr>sv_lockdown_logged := l\<rparr>) = (out, effs, s')"
    and "instant_add (inst_at E AtFault) (bl_duration (sv_blacklist s)) \<noteq> None"
    and "1 \<le> ss_lease_max_seconds (sc_server (sv_config s))"
    and "\<And>n. 1 \<le> n \<Longrightarrow> n \<le> ss_lease_max_seconds (sc_server (sv_config s)) \<Longrightarrow> instant_add (inst_at E AtRenew) (from_secs n) \<noteq> None"
  shows "out \<noteq> Panicked"
proof -
  let ?s = "s\<lparr>sv_lockdown_logged := l\<rparr>"
  show ?thesis
  proof (cases rule: datagram_cases [of P E data peer ?s])
    case no_secret
    with assms(1) show ?thesis by auto
  next
    case (unreadable out')
    with assms(1,2) faulty_no_panic [of E out' "fst peer" ?s out effs s'] show ?thesis by auto
  next
    case challenge
    with assms(1) show ?thesis by auto
  next
    case (hello h reply)
    then have h: "handle_hello P E h peer reply ?s = (out, effs, s')" using assms(1) by simp
    show ?thesis
    proof (cases rule: hello_cases [of P E h peer reply ?s])
      case (accepted info out' effs' t)
      with h show ?thesis
        by (cases rule: accept_hello_cases [of P E h "time_at E AtFresh" "(counted E peer ?s)\<lparr>sv_seen := fst (seen_by E h ?s)\<rparr>" peer reply])
           auto
    qed (use h in auto)
  next
    case (response r reply)
    then have h: "handle_response P E r peer ?s = (out, effs, s')" using assms(1) by simp
    show ?thesis
    proof (cases rule: auth_cases [of P E "response_payload P r ?s" "r_client_id r" "r_nonce r" "r_param r" "r_signature r" peer ?s])
      case (passed info entry q)
      then obtain effs' where a: "accept_response E r info q peer (burnt E (r_client_id r) (r_nonce r) peer ?s) = (out, effs', s')"
        using h by (auto simp: handle_response_def split: prod.splits)
      show ?thesis
        by (rule grant_no_panic [OF a [unfolded accept_response_def Let_def]]) (use assms(3,4) in simp_all)
    qed (use h in \<open>auto simp: handle_response_def\<close>)
  next
    case (bye b reply)
    then have h: "handle_bye P E b peer ?s = (out, effs, s')" using assms(1) by simp
    show ?thesis
    proof (cases rule: auth_cases [of P E "bye_payload P b ?s" "b_client_id b" "b_nonce b" "b_param b" "b_signature b" peer ?s])
      case (passed info entry q)
      with h show ?thesis
        by (auto simp: handle_bye_def accept_bye_def Let_def run_revoke_def split: prod.splits option.splits sum.splits)
    qed (use h in \<open>auto simp: handle_bye_def\<close>)
  qed
qed

subsection \<open>Properties\<close>

text \<open>
  A HELLO is accepted at most once. In any run whose readings of the system clock do not go
  backwards, a signed HELLO, however often it is replayed, from whatever addresses and whatever
  happens in between, cleanup ticks included, passes the replay check at most one time.
\<close>

theorem hello_accepted_at_most_once:
  assumes "server_ok s" and "sorted (concat (map clock_of evs))"
  shows "count_takes (event_step P) (accepts_hello P) h s evs \<le> 1"
  using assms
proof (induction evs arbitrary: s)
  case Nil
  then show ?case by simp
next
  case (Cons ev evs)
  note ok = event_ok [OF Cons.prems(1), of P ev]
  show ?case
  proof (cases "accepts_hello P ev s h")
    case False
    have "sorted (concat (map clock_of evs))" using Cons.prems(2) by (simp add: sorted_append)
    with False Cons.IH [OF ok] show ?thesis by simp
  next
    case True
    then obtain E data peer reply where ev: "ev = Datagram E data peer" and "read_packet P data s = Some (Hello h, reply)"
      and "fst (receive P E data peer s) \<in> {ChallengeIssued, ReplyFailed}"
      by (cases "(P, ev, s, h)" rule: accepts_hello.cases) (auto split: option.splits packet.splits)
    moreover obtain out effs s' where r: "receive P E data peer s = (out, effs, s')" by (metis prod_cases3)
    ultimately have "authentic_hello P E h s" "sv_seen s' = fst (seen_by E h s)" "same_core s s'"
      using receive_keeps [OF r] by auto
    then have "spent h (time_at E AtFresh) s'" using accepted_spends core_facts(2) by blast
    moreover have "sorted (time_at E AtFresh # concat (map clock_of evs))" using Cons.prems(2) ev by simp
    ultimately have "count_takes (event_step P) (accepts_hello P) h s' evs = 0"
      using spent_run ok r ev by simp
    with True r ev show ?thesis by simp
  qed
qed

theorem hello_accepted_at_most_once_witness:
  "count_takes (event_step demo) (accepts_hello demo) (hello_of demo demo_client demo_target demo_attempt) demo_server
     [Datagram demo_env (encode (Hello (hello_of demo demo_client demo_target demo_attempt))) demo_peer, Tick demo_env,
      Datagram demo_env (encode (Hello (hello_of demo demo_client demo_target demo_attempt))) demo_peer] \<le> 1"
  by (rule hello_accepted_at_most_once [OF from_config_ok [OF demo_from_config]]) simp

text \<open>
  C7: The server answers only an authentic HELLO: one signed by a configured client over this
  server's identifier, fresh and not seen before. The one reply goes to the address the HELLO came
  from and is shorter than the HELLO, so that nobody can aim the server at a third party with more
  bytes than he sends himself.
\<close>

theorem replies_only_to_authentic_hello:
  assumes "receive P E data peer s = (out, effs, s')" and "Sent p d \<in> set effs"
    and "lawful P" and "length (e_nonce E) = CHALLENGE_NONCE_LEN" and "length (e_xnonce E) = XNONCE_LEN"
  shows "p = peer \<and> out = ChallengeIssued \<and> sent_to peer effs = [d] \<and> length d < length data \<and>
    (\<exists>h reply. read_packet P data s = Some (Hello h, reply) \<and> authentic_hello P E h s)"
proof (rule receive_effect [OF assms(1,2)])
  fix h reply assume rd: "read_packet P data s = Some (Hello h, reply)"
    and "\<exists>l. handle_hello P E h peer reply (s\<lparr>sv_lockdown_logged := l\<rparr>) = (out, effs, s')"
  then obtain l where hh: "handle_hello P E h peer reply (s\<lparr>sv_lockdown_logged := l\<rparr>) = (out, effs, s')" by blast
  let ?s = "s\<lparr>sv_lockdown_logged := l\<rparr>"
  from hello_sent [OF hh assms(2)] have a: "p = peer" "out = ChallengeIssued" "authentic_hello P E h s"
    by (auto simp: authentic_hello_def)
  let ?t = "(counted E peer ?s)\<lparr>sv_seen := fst (seen_by E h ?s)\<rparr>"
  have x: "sent_to peer effs = [d] \<and> (\<exists>b s''. send_reply P E (challenge_for E h (time_at E AtFresh) ?t) peer reply b s'' = ([Sent p d], True))"
  proof (cases rule: hello_cases [of P E h peer reply ?s])
    case (accepted info out' effs' t)
    with hh assms(2) have e: "effs = SigCheck (ci_verifying_key info) (hello_payload P h ?s) (h_signature h) # effs'"
      "Sent p d \<in> set effs'" by auto
    show ?thesis
    proof (cases rule: accept_hello_cases [of P E h "time_at E AtFresh" ?t peer reply])
      case (issued d')
      with accepted(5) e a show ?thesis by auto
    next
      case unsent
      with accepted(5) e show ?thesis by auto
    qed
  qed (use hh assms(2) in auto)
  then obtain b s'' where "send_reply P E (challenge_for E h (time_at E AtFresh) ?t) peer reply b s'' = ([Sent p d], True)" by blast
  from challenge_datagram [OF assms(3-5) hello_datagram(1) [OF assms(3) rd] this] hello_datagram(2) [OF assms(3) rd]
  have "length d < length data" by (cases reply) simp_all
  with x a rd show ?thesis by blast
next
  fix r reply assume "\<exists>l. handle_response P E r peer (s\<lparr>sv_lockdown_logged := l\<rparr>) = (out, effs, s')"
  with response_effects assms(2) show ?thesis by blast
next
  fix b reply assume "\<exists>l. handle_bye P E b peer (s\<lparr>sv_lockdown_logged := l\<rparr>) = (out, effs, s')"
  with bye_effects assms(2) show ?thesis by blast
qed

theorem replies_only_to_authentic_hello_witness:
  "\<exists>data d effs s' h reply. receive demo demo_env data demo_peer demo_server = (ChallengeIssued, effs, s') \<and>
     sent_to demo_peer effs = [d] \<and> length d < length data \<and>
     read_packet demo data demo_server = Some (Hello h, reply) \<and> authentic_hello demo demo_env h demo_server"
proof -
  have e: "length (e_nonce demo_env) = CHALLENGE_NONCE_LEN" "length (e_xnonce demo_env) = XNONCE_LEN" "e_send_ok demo_env"
    by (simp_all add: demo_env_def CHALLENGE_NONCE_LEN_def XNONCE_LEN_def)
  have adm: "admits demo_env 194 (fst demo_peer) demo_server" by simp
  obtain data reply sig s1 where r: "receive demo demo_env data demo_peer demo_server = (ChallengeIssued, [sig, Sent demo_peer reply], s1)"
    by (rule hello_answered [OF demo_lawful demo_paired demo_well_drawn e adm demo_welcomes])
  have m: "Sent demo_peer reply \<in> set [sig, Sent demo_peer reply]" by simp
  from replies_only_to_authentic_hello [OF r m demo_lawful e(1,2)] r show ?thesis by blast
qed

text \<open>
  C2: Hooks are started only for proofs. A datagram that starts a command is a RESPONSE or a BYE
  of a configured client, signed over the challenge that the server issued to that client at that
  very address and port, unused and not expired; afterwards the challenge is used up. A RESPONSE
  starts the grant command for the address it came from, a BYE the revoke command for the address
  that the client's own lease names.
\<close>

theorem hooks_only_for_proven:
  assumes "receive P E data peer s = (out, effs, s')" and "Spawned cmd \<in> set effs"
  shows "(\<exists>r reply info entry p n k. read_packet P data s = Some (Response r, reply) \<and>
      proven P E (response_payload P r s) (r_client_id r) (r_nonce r) (r_signature r) peer s info entry \<and>
      map_of (sv_nonces s') (r_nonce r) = Some (entry\<lparr>ne_used := True\<rparr>) \<and>
      cmd = build_command (sv_executor s) (fst peer) (to_hex (r_client_id r)) (snd peer) p n ''grant'' k) \<or>
    (\<exists>b reply info entry x l p k. read_packet P data s = Some (Bye b, reply) \<and>
      proven P E (bye_payload P b s) (b_client_id b) (b_nonce b) (b_signature b) peer s info entry \<and>
      map_of (sv_nonces s') (b_nonce b) = Some (entry\<lparr>ne_used := True\<rparr>) \<and>
      sv_revoke s = Some x \<and> map_of (lt_leases (sv_leases s)) (to_hex (b_client_id b)) = Some l \<and>
      cmd = build_command x (l_ip l) (to_hex (b_client_id b)) (l_source_port l) p ''0'' ''bye'' k)"
proof (rule receive_effect [OF assms])
  fix h reply assume "\<exists>l. handle_hello P E h peer reply (s\<lparr>sv_lockdown_logged := l\<rparr>) = (out, effs, s')"
  then obtain l where "handle_hello P E h peer reply (s\<lparr>sv_lockdown_logged := l\<rparr>) = (out, effs, s')" by blast
  from hello_spawns_nothing [OF this, of cmd] assms(2) show ?thesis by simp
next
  fix r reply assume rd: "read_packet P data s = Some (Response r, reply)"
    and "\<exists>l. handle_response P E r peer (s\<lparr>sv_lockdown_logged := l\<rparr>) = (out, effs, s')"
  then obtain l where h: "handle_response P E r peer (s\<lparr>sv_lockdown_logged := l\<rparr>) = (out, effs, s')" by blast
  with response_spawns [OF h assms(2)] rd show ?thesis by simp
next
  fix b reply assume rd: "read_packet P data s = Some (Bye b, reply)"
    and "\<exists>l. handle_bye P E b peer (s\<lparr>sv_lockdown_logged := l\<rparr>) = (out, effs, s')"
  then obtain l where h: "handle_bye P E b peer (s\<lparr>sv_lockdown_logged := l\<rparr>) = (out, effs, s')" by blast
  with bye_spawns [OF h assms(2)] rd show ?thesis by simp
qed

theorem hooks_only_for_proven_witness:
  "\<exists>data s. (\<exists>r info entry. proven demo demo_env (response_payload demo r s) (r_client_id r) (r_nonce r) (r_signature r) demo_peer s info entry) \<or>
     (\<exists>b info entry. proven demo demo_env (bye_payload demo b s) (b_client_id b) (b_nonce b) (b_signature b) demo_peer s info entry)"
proof -
  obtain f s1 sig cmd s' res where r: "receive demo demo_env f demo_peer s1 = (HookRan res, [sig, Spawned cmd], s')"
    by (rule demo_grant)
  have "Spawned cmd \<in> set [sig, Spawned cmd]" by simp
  from hooks_only_for_proven [OF r this] show ?thesis by blast
qed



text \<open>
  In every run from a configuration the tables stay well formed and within the capacity that
  the configuration sets, whatever is received; every replay is also counted as a rejection.
\<close>

theorem runs_stay_bounded:
  assumes "from_config P now cfg x y = Returns (Inr s)"
  shows "let t = fold (event_step P) evs s; n = ss_max_tracked_ips (sc_server cfg)
    in hm_ok (sv_nonces t) \<and> hm_ok (sv_seen t) \<and>
       (0 < n \<longrightarrow> length (rl_state (sv_limiter t)) \<le> n \<and> length (bl_state (sv_blacklist t)) \<le> n) \<and>
       length (ai_seen (sv_active t)) \<le> max n 1 \<and> length (lt_leases (sv_leases t)) \<le> max n 1 \<and>
       st_replays (sv_status t) \<le> st_rejected (sv_status t)"
proof -
  let ?t = "fold (event_step P) evs s"
  have "server_ok ?t" by (rule events_ok [OF from_config_ok [OF assms]])
  moreover have "sv_config ?t = cfg"
    using run_core [of s P evs] assms by (auto simp: same_core_def from_config_def Let_def res_bind_eq_Inr
        split: may_panic.splits sum.splits)
  ultimately show ?thesis
    by (simp add: server_ok_alt Let_def rl_inv_def bl_inv_def ai_inv_def lt_inv_def bounded_def)
qed

theorem runs_stay_bounded_witness:
  "length (lt_leases (sv_leases (fold (event_step demo) [Datagram demo_env [1, 2, 3] demo_peer, Tick demo_env] demo_server))) \<le> 100000"
  using runs_stay_bounded [OF demo_from_config, of "[Datagram demo_env [1, 2, 3] demo_peer, Tick demo_env]"]
  by (simp add: Let_def demo_config_def default_server_section_def del: fold_simps)

text \<open>
  C11: With a validated configuration no datagram makes a handler panic, as long as the monotonic
  clock is a year and the blacklist time away from its end: \<open>clamp\<close> gets ordered bounds, and every
  \<open>Instant + Duration\<close> is representable.
\<close>

theorem validated_server_never_panics:
  assumes "server_ok s" and "validate_server (sv_config s) = Returns (Inr ())"
    and "\<forall>k. inst_at E k + from_secs (max 31536000 (ss_blacklist_seconds (sc_server (sv_config s)))) \<le> instant_max"
  shows "fst (receive P E data peer s) \<noteq> Panicked"
proof -
  let ?cfg = "sc_server (sv_config s)"
  have lease: "1 \<le> ss_lease_max_seconds ?cfg" "ss_lease_max_seconds ?cfg \<le> 31536000"
    using assms(2) by (simp_all add: validate_server_ok)
  have dur: "bl_duration (sv_blacklist s) = from_secs (ss_blacklist_seconds ?cfg)"
    using assms(1) by (simp add: server_ok_alt bl_inv_def)
  have room: "inst_at E k + from_secs n \<le> instant_max"
    if "n \<le> max 31536000 (ss_blacklist_seconds ?cfg)" for k n
    using assms(3) from_secs_mono [THEN iffD2, OF that] by (meson add_left_mono le_trans)
  show ?thesis
  proof (cases rule: receive_cases [of P E data peer s])
    case shed
    then show ?thesis by auto
  next
    case (handled l)
    obtain out effs s' where d: "handle_datagram P E data peer (s\<lparr>sv_lockdown_logged := l\<rparr>) = (out, effs, s')"
      by (metis prod_cases3)
    have "out \<noteq> Panicked"
    proof (rule datagram_no_panic [OF d])
      show "instant_add (inst_at E AtFault) (bl_duration (sv_blacklist s)) \<noteq> None"
        using room [of "ss_blacklist_seconds ?cfg" AtFault] by (simp add: dur instant_add_def)
    next
      fix n assume "1 \<le> n" "n \<le> ss_lease_max_seconds ?cfg"
      then show "instant_add (inst_at E AtRenew) (from_secs n) \<noteq> None"
        using room [of n AtRenew] lease by (simp add: instant_add_def)
    qed (use lease in simp_all)
    with handled d show ?thesis by simp
  qed
qed

theorem validated_server_never_panics_witness:
  "fst (receive demo demo_env [1, 2, 3] demo_peer demo_server) \<noteq> Panicked"
proof (rule validated_server_never_panics [OF from_config_ok [OF demo_from_config]])
  show "validate_server (sv_config demo_server) = Returns (Inr ())"
    by (simp add: demo_server_def Let_def validate_server_ok demo_config_def default_server_section_def
        default_command_section_def from_hex_to_hex)
  show "\<forall>k. inst_at demo_env k + from_secs (max 31536000 (ss_blacklist_seconds (sc_server (sv_config demo_server)))) \<le> instant_max"
    by (simp add: demo_env_def demo_server_def Let_def demo_config_def default_server_section_def from_secs_def instant_max_def)
qed

text \<open>
  The signature work that a packet costs. A HELLO within the rate limit costs exactly one
  verification, whether its client is known or not. A RESPONSE or a BYE costs one, except when a
  known client's nonce is refused: then there is none, and unlike the HELLO's the cost of the
  packet tells whether the identifier is configured.
\<close>

theorem signature_work:
  "sig_checks (fst (snd (handle_hello P E h peer reply s))) =
     (if fst (handle_hello P E h peer reply s) = RateLimited then 0 else 1) \<and>
   sig_checks (fst (snd (handle_response P E r peer s))) =
     (if fst (handle_response P E r peer s) \<in> range NonceRejected then 0 else 1) \<and>
   sig_checks (fst (snd (handle_bye P E b peer s))) =
     (if fst (handle_bye P E b peer s) \<in> range NonceRejected then 0 else 1)"
  by (simp add: hello_work response_work bye_work)

end
