(* ===== verification/Progress.thy ===== *)
theory Progress
  imports Gatekeeper Access
begin

text \<open>
  Progress of the server's tasks under interleaving: every task ends after a bounded number of its own
  steps whatever the others do, no task waits for another, and when the tasks have ended all permits and hook
  slots are free again. A challenge that was issued stays open for its client until it is spent or expires, so
  no other traffic can keep a client with an authentic answer from being let through.
\<close>

subsection \<open>The work that is left\<close>

text \<open>
  An upper bound of the steps that a task still takes, when a scan finds at most \<open>m\<close> leases; a lease of a
  scan takes three.
\<close>

primrec cause_work :: "cause \<Rightarrow> nat" where
  "cause_work (ByBye b) = 0"
| "cause_work (ByScan items) = 3 * length items"

fun work :: "nat \<Rightarrow> stage \<Rightarrow> nat" where
  "work m (Opening peer data) = 9"
| "work m (Greeting peer h reply) = 5"
| "work m (Fresh peer h reply now) = 4"
| "work m (Unseen peer h reply now) = 3"
| "work m (Noted peer h reply now) = 2"
| "work m (Issuing peer h reply n x) = 1"
| "work m (Presented peer c) = 8"
| "work m (Checked peer c info) = 7"
| "work m (Consumed peer c info) = 6"
| "work m (Accepted peer r info p) = 5"
| "work m (Renewed peer r info p is_new) = 4"
| "work m (Warm peer r info p is_new) = 3"
| "work m (Starting peer r info p is_new k) = 2"
| "work m (Granting peer r info p) = 1"
| "work m (Releasing peer b p) = 3"
| "work m (Revoking e name p k c) = 2 + cause_work c"
| "work m (Closing e name p c) = 1 + cause_work c"
| "work m (PurgeNonces now) = 7 + 3 * m"
| "work m (PurgeSeen now) = 6 + 3 * m"
| "work m PurgeLimiter = 5 + 3 * m"
| "work m PurgeBlacklist = 4 + 3 * m"
| "work m PurgeActive = 3 + 3 * m"
| "work m PurgeCooldown = 2 + 3 * m"
| "work m ScanLeases = 1 + 3 * m"
| "work m (Sweeping items) = 3 * length items"
| "work m (Finished out) = 0"

lemma work_terminal: "work m st = 0 \<longleftrightarrow> terminal st"
  by (cases "(m, st)" rule: work.cases) auto

lemma work_resume [simp]: "work m (resume c out) = cause_work c"
  by (cases c) simp_all

definition most_leases :: "server \<Rightarrow> nat" where
  "most_leases s = max (ss_max_tracked_ips (sc_server (sv_config s))) 1"

lemma scan_items: "server_ok s \<Longrightarrow> lease_scan E s = (s', items) \<Longrightarrow> length items \<le> most_leases s"
proof -
  assume ok: "server_ok s" and c: "lease_scan E s = (s', items)"
  have l: "lt_ok (sv_leases s)" "length (lt_leases (sv_leases s)) \<le> most_leases s"
    using ok by (simp_all add: server_ok_alt lt_inv_def most_leases_def)
  have "length (snd (take_expired_at t (sv_leases s))) \<le> most_leases s" for t
    using l(2) unfolding take_expired_closed [OF l(1)] by (auto intro: le_trans [OF length_filter_le])
  then have "length (snd (lease_scan E s)) \<le> most_leases s"
    by (auto simp: lease_scan_def Let_def case_prod_unfold split: option.split)
  with c show ?thesis by simp
qed

lemma advance_work:
  assumes "advance P E st s = (effs, st', s')" and "\<not> terminal st" and "server_ok s" and "most_leases s \<le> m"
  shows "work m st' < work m st"
proof (cases "greeted st")
  case True
  show ?thesis
  proof (cases st)
    case (Greeting peer h reply)
    from assms(1) [unfolded this] show ?thesis by (rule greeting_step) (use Greeting in auto)
  next
    case (Issuing peer h reply n x)
    from assms(1) [unfolded this] show ?thesis by (rule issuing_step) (use Issuing in auto)
  qed (use True assms in \<open>auto simp: Let_def split: prod.splits if_splits\<close>)
next
  case False
  show ?thesis
  proof (cases st)
    case (Opening peer data)
    with assms read_in_touches show ?thesis by (cases st') fastforce+
  next
    case ScanLeases
    with assms scan_items [of s E] show ?thesis by (fastforce split: prod.splits)
  next
    case (Sweeping items)
    with assms show ?thesis by (cases items) auto
  qed (use False assms in \<open>auto simp: returned_def split: step_splits\<close>)
qed

definition total_work :: "nat \<Rightarrow> stage list \<Rightarrow> nat" where
  "total_work m T = sum_list (map (work m) T)"

lemma total_work_update: "i < length T \<Longrightarrow> total_work m (T[i := st]) + work m (T ! i) = total_work m T + work m st"
proof (induction T arbitrary: i)
  case (Cons x T)
  then show ?case by (cases i) (auto simp: total_work_def)
qed simp

lemma total_work_snoc [simp]: "total_work m (T @ [st]) = total_work m T + work m st"
  by (simp add: total_work_def)

lemma no_work: "total_work m T = 0 \<longleftrightarrow> (\<forall>st \<in> set T. terminal st)"
  by (simp add: total_work_def work_terminal)

subsection \<open>Steps of tasks in a run\<close>

fun task_step :: "label \<Rightarrow> bool" where
  "task_step (Advanced E st effs st') \<longleftrightarrow> True"
| "task_step _ \<longleftrightarrow> False"

fun tick_step :: "label \<Rightarrow> bool" where
  "tick_step (Ticked E) \<longleftrightarrow> True"
| "tick_step _ \<longleftrightarrow> False"

lemma step_frame:
  assumes "wstep P w l w'"
  shows "same_frame (fst w) (fst w')"
  using assms
proof (cases rule: wstep_cases)
  case (shed T E s len ip out s')
  then show ?thesis using gate_touches(1) setup_frame by (metis fst_conv)
next
  case (arrive T E s data peer s')
  then show ?thesis using gate_touches(2) setup_frame by (metis fst_conv)
next
  case (tick T s E)
  then show ?thesis by simp
next
  case (task T i E s effs st s')
  then show ?thesis using advance_frame by (metis fst_conv)
qed

text \<open>The work that is left in a world, with the scans of its configuration.\<close>

definition work_left :: "world \<Rightarrow> nat" where
  "work_left w = total_work (most_leases (fst w)) (snd w)"

lemma run_work:
  assumes "wrun P w tr w'" and "server_ok (fst w)"
  shows "sv_config (fst w') = sv_config (fst w) \<and> server_ok (fst w') \<and>
    tally task_step tr + work_left w' \<le>
      work_left w + 9 * tally ((=) Arrived) tr + (7 + 3 * most_leases (fst w)) * tally tick_step tr"
  using assms(1)
proof (induction rule: wrun_invariant)
  case start
  then show ?case using assms(2) by simp
next
  case (step tr w1 l w2)
  then have ok: "server_ok (fst w1)" "sv_config (fst w1) = sv_config (fst w)" by blast+
  have "wrun P w1 ([] @ [l]) w2" by (rule wrun.step [OF wrun.start step(2)])
  from wrun_ok [OF this ok(1)] have ok2: "server_ok (fst w2)" .
  have conf: "sv_config (fst w2) = sv_config (fst w)" using step_frame [OF step(2)] ok(2) by (simp add: same_frame_def)
  then have m: "most_leases (fst w2) = most_leases (fst w)" "most_leases (fst w1) = most_leases (fst w)"
    using ok(2) by (simp_all add: most_leases_def)
  from step(2) show ?case
  proof (cases rule: wstep_cases)
    case (shed T E s len ip out s')
    with step ok2 conf m show ?thesis by (simp add: work_left_def)
  next
    case (arrive T E s data peer s')
    with step ok2 conf m show ?thesis by (simp add: work_left_def)
  next
    case (tick T s E)
    with step ok2 conf m show ?thesis by (simp add: work_left_def algebra_simps)
  next
    case (task T i E s effs st s')
    with m(2) have "most_leases s \<le> most_leases (fst w)" by simp
    from advance_work [OF task(7,6) _ this] total_work_update [OF task(5), of "most_leases (fst w)" st] task step ok(1) ok2 conf m
    show ?thesis by (simp add: work_left_def)
  qed
qed

subsection \<open>No task panics\<close>

text \<open>The clock is far enough from its end for the longest block and the longest lease.\<close>

definition clock_room :: "server_config \<Rightarrow> env \<Rightarrow> bool" where
  "clock_room cfg E \<longleftrightarrow> (\<forall>k. inst_at E k + from_secs (max 31536000 (ss_blacklist_seconds (sc_server cfg))) \<le> instant_max)"

lemma clock_room_add:
  assumes "clock_room cfg E" and "n \<le> max 31536000 (ss_blacklist_seconds (sc_server cfg))"
  shows "instant_add (inst_at E k) (from_secs n) \<noteq> None"
proof -
  have "inst_at E k + from_secs n \<le> instant_max"
    using assms(1) from_secs_mono [THEN iffD2, OF assms(2)] unfolding clock_room_def by (meson add_left_mono le_trans)
  then show ?thesis by (simp add: instant_add_def)
qed

lemma advance_no_panic:
  assumes "advance P E st s = (effs, st', s')" and "st \<noteq> Finished Panicked" and "server_ok s"
    and "clock_room (sv_config s) E" and "validate_server (sv_config s) = Returns (Inr ())"
  shows "st' \<noteq> Finished Panicked"
proof -
  have lease: "1 \<le> ss_lease_max_seconds (sc_server (sv_config s))" "ss_lease_max_seconds (sc_server (sv_config s)) \<le> 31536000"
    using assms(5) by (simp_all add: validate_server_ok)
  have d: "bl_duration (sv_blacklist s) = from_secs (ss_blacklist_seconds (sc_server (sv_config s)))"
    using assms(3) by (simp add: server_ok_alt bl_inv_def)
  show ?thesis
  proof (cases st)
    case (Opening peer data)
    have f: "instant_add (inst_at E AtFault) (bl_duration (sv_blacklist s)) \<noteq> None"
      unfolding d by (rule clock_room_add [OF assms(4)]) simp
    then have f: "faulty E out ip s = (Panicked, effs', t) \<Longrightarrow> out = Panicked" for out ip effs' t
      using faulty_no_panic by blast
    with Opening assms(1) show ?thesis
      by (auto simp: read_in_def route_def returned_def dest!: f
          split: wire_encryption.splits option.splits sum.splits packet.splits prod.splits)
  next
    case (Accepted peer r info p)
    let ?n = "max 1 (min (u64_saturating_mul (r_interval r) (ss_lease_grace_multiplier (sc_server (sv_config s))))
      (ss_lease_max_seconds (sc_server (sv_config s))))"
    have "instant_add (inst_at E AtRenew) (from_secs ?n) \<noteq> None"
      by (rule clock_room_add [OF assms(4)]) (use lease in auto)
    then have "renew_at c ip port q (from_secs ?n) (inst_at E AtRenew) t \<noteq> Panics" for c ip port q t
      by (auto simp: renew_at_def Let_def)
    with Accepted assms(1) show ?thesis
      by (auto simp: lease_ttl_validated [OF lease(1)] split: may_panic.splits prod.splits)
  next
    case ScanLeases
    with assms(1) show ?thesis by (auto split: prod.splits)
  next
    case (Sweeping items)
    with assms(1) show ?thesis by (cases items) auto
  next
    case (Greeting peer h reply)
    with assms(1) show ?thesis by (auto simp: Let_def split: prod.splits option.splits sum.splits if_splits)
  next
    case (Presented peer c)
    with assms(1) show ?thesis
      by (cases rule: check_proof_cases [of P E "claim_payload P c s" "claim_id c" "claim_nonce c" "claim_sig c" peer s])
         (auto simp: returned_def)
  next
    case (Checked peer c info)
    with assms(1) show ?thesis
      by (cases rule: consume_proof_cases [of E "claim_id c" "claim_nonce c" peer s]) auto
  next
    case (Revoking e name p k c)
    with assms(1) show ?thesis by (cases c) (auto split: step_splits)
  next
    case (Closing e name p c)
    with assms(1) show ?thesis by (cases c) (auto split: step_splits)
  qed (use assms(1,2) in \<open>auto simp: Let_def split: step_splits\<close>)
qed

text \<open>The clocks of the steps of tasks leave that room.\<close>

fun in_time :: "server_config \<Rightarrow> label \<Rightarrow> bool" where
  "in_time cfg (Advanced E st effs st') \<longleftrightarrow> clock_room cfg E"
| "in_time cfg _ \<longleftrightarrow> True"

lemma run_no_panic:
  assumes "wrun P w tr w'" and "server_ok (fst w)" and "validate_server (sv_config (fst w)) = Returns (Inr ())"
    and "Finished Panicked \<notin> set (snd w)" and "\<forall>l \<in> set tr. in_time (sv_config (fst w)) l"
  shows "Finished Panicked \<notin> set (snd w')"
proof -
  from assms(1) have "server_ok (fst w') \<and> sv_config (fst w') = sv_config (fst w) \<and>
      ((\<forall>l \<in> set tr. in_time (sv_config (fst w)) l) \<longrightarrow> Finished Panicked \<notin> set (snd w'))"
  proof (induction rule: wrun_invariant)
    case start
    then show ?case using assms(2,4) by simp
  next
    case (step tr w1 l w2)
    then have ok: "server_ok (fst w1)" "sv_config (fst w1) = sv_config (fst w)" by blast+
    have "wrun P w1 ([] @ [l]) w2" by (rule wrun.step [OF wrun.start step(2)])
    from run_work [OF this ok(1)] ok(2) have ok2: "server_ok (fst w2)" "sv_config (fst w2) = sv_config (fst w)" by simp_all
    from step(2) show ?case
    proof (cases rule: wstep_cases)
      case (task T i E s effs st s')
      then have "T ! i \<noteq> Finished Panicked" by (metis nth_mem)
      with advance_no_panic [OF task(7)] task assms(3) ok have "st \<noteq> Finished Panicked" if "clock_room (sv_config s) E"
        using that by simp
      with task step ok ok2 show ?thesis using set_update_subset_insert [of T i st] by auto
    qed (use step ok2 in auto)
  qed
  with assms(5) show ?thesis by blast
qed

subsection \<open>The server comes to rest\<close>

text \<open>All tasks have ended, none by a panic, and every permit and hook slot is free.\<close>

definition settled :: "world \<Rightarrow> bool" where
  "settled w \<longleftrightarrow> (\<forall>st \<in> set (snd w). terminal st \<and> st \<noteq> Finished Panicked) \<and> in_flight (snd w) = 0 \<and>
     pe_running (sv_executor (fst w)) = 0 \<and> (\<forall>x. sv_revoke (fst w) = Some x \<longrightarrow> pe_running x = 0)"

lemma terminal_idle:
  "terminal st \<Longrightarrow> \<not> holds_permit st" "terminal st \<Longrightarrow> \<not> granting st" "terminal st \<Longrightarrow> \<not> closing st"
  by (cases st rule: terminal.cases; simp)+

lemma rest_settled:
  assumes "slots_ok w" and "\<forall>st \<in> set (snd w). terminal st" and "Finished Panicked \<notin> set (snd w)"
  shows "settled w"
proof -
  have "tally granting (snd w) = 0" "tally closing (snd w) = 0" "in_flight (snd w) = 0"
    using assms(2) terminal_idle by (auto simp: tally_def in_flight_def filter_empty_conv)
  with assms show ?thesis by (auto simp: settled_def slots_ok_def slots_def)
qed

lemma can_step:
  assumes "Finished Panicked \<notin> set T" and "i < length T" and "\<not> terminal (T ! i)"
  shows "\<exists>effs st s'. wstep P (s, T) (Advanced E (T ! i) effs st) (s', T[i := st])"
proof -
  obtain effs st s' where "advance P E (T ! i) s = (effs, st, s')" by (metis prod_cases3)
  from wstep.task [OF assms this] show ?thesis by blast
qed

lemma task_steps_only: "list_all task_step tr \<Longrightarrow> tally task_step tr = length tr \<and> tally ((=) Arrived) tr = 0 \<and> tally tick_step tr = 0"
proof (induction tr)
  case (Cons l tr)
  then show ?case by (cases l) simp_all
qed simp

lemma run_steps_left:
  "wrun P w tr w' \<Longrightarrow> server_ok (fst w) \<Longrightarrow> list_all task_step tr \<Longrightarrow> length tr + work_left w' \<le> work_left w"
  using run_work [of P w tr w'] task_steps_only [of tr] by simp

lemma comes_to_rest:
  assumes "Finished Panicked \<notin> set (snd w)" and "server_ok (fst w)" and "clock_room (sv_config (fst w)) E"
    and "validate_server (sv_config (fst w)) = Returns (Inr ())"
  shows "\<exists>tr w'. wrun P w tr w' \<and> list_all task_step tr \<and> (\<forall>l \<in> set tr. in_time (sv_config (fst w)) l) \<and>
    (\<forall>st \<in> set (snd w'). terminal st)"
  using assms
proof (induction "work_left w" arbitrary: w rule: less_induct)
  case less
  show ?case
  proof (cases "\<forall>st \<in> set (snd w). terminal st")
    case True
    then show ?thesis by (intro exI [of _ "[]"] exI [of _ w]) (simp add: wrun.start)
  next
    case False
    then obtain i where i: "i < length (snd w)" "\<not> terminal (snd w ! i)" by (metis in_set_conv_nth)
    obtain effs st s' where step: "wstep P w (Advanced E (snd w ! i) effs st) (s', (snd w)[i := st])"
      using can_step [OF less(2) i, of P "fst w" E] by auto
    let ?l = "Advanced E (snd w ! i) effs st" and ?w = "(s', (snd w)[i := st])"
    have one: "wrun P w ([] @ [?l]) ?w" by (rule wrun.step [OF wrun.start step])
    have "work_left ?w < work_left w" using run_steps_left [OF one less(3)] by simp
    moreover have "Finished Panicked \<notin> set (snd ?w)"
      using run_no_panic [OF one less(3,5,2)] less(4) by simp
    moreover have k: "server_ok (fst ?w)" "sv_config (fst ?w) = sv_config (fst w)"
      using run_work [OF one less(3)] by simp_all
    ultimately obtain tr w' where "wrun P ?w tr w'" "list_all task_step tr"
        "\<forall>l \<in> set tr. in_time (sv_config (fst w)) l" "\<forall>st \<in> set (snd w'). terminal st"
      using less(1) [of ?w] less(4,5) by auto
    with wrun_trans [OF this(1) one] less(4) show ?thesis
      by (intro exI [of _ "([] @ [?l]) @ tr"] exI [of _ w']) simp
  qed
qed

subsection \<open>A challenge that nobody spends\<close>

lemma store_keeps_entry:
  assumes "hm_ok s" and "map_of s n = Some e" and "\<not> issues x n" and "\<not> consumes x s n"
    and "\<And>t. x = OpPurge t \<Longrightarrow> t \<le> ne_expires_at_unix e"
  shows "map_of (store_step x s) n = Some e"
proof (cases x)
  case (OpConsume m c ip p now)
  with assms show ?thesis by (cases rule: consume_cases [of m c ip p now s]) auto
next
  case (OpPurge t)
  with assms show ?thesis by (simp add: ns_purge_expired_def Let_def map_of_hm_retain)
qed (use assms in \<open>auto simp: ns_insert_def\<close>)

text \<open>The step issues the nonce again, spends it, or purges it because it has expired.\<close>

fun purges_after :: "int \<Rightarrow> label \<Rightarrow> bool" where
  "purges_after x (Advanced E (PurgeNonces now) effs st) \<longleftrightarrow> x < now"
| "purges_after x _ \<longleftrightarrow> False"

definition ends_challenge :: "bytes \<Rightarrow> int \<Rightarrow> label \<Rightarrow> bool" where
  "ends_challenge n x l \<longleftrightarrow> issued n l \<or> used_up n l \<or> purges_after x l"

lemma advance_keeps_entry:
  assumes "advance P E st s = (effs, st', s')" and "hm_ok (sv_nonces s)" and "map_of (sv_nonces s) n = Some e"
    and "\<not> ends_challenge n (ne_expires_at_unix e) (Advanced E st effs st')"
  shows "map_of (sv_nonces s') n = Some e"
proof (cases "greeted st")
  case True
  show ?thesis
  proof (cases "sv_nonces s' = sv_nonces s")
    case False
    with greeted_step [OF assms(1) True] obtain peer h reply now c x where st: "st = Noted peer h reply now"
      and s': "sv_nonces s' = store_step (OpInsert (e_nonce E) c (fst peer) (snd peer) x (time_at E AtInsert)) (sv_nonces s)"
      by blast
    show ?thesis unfolding s' by (rule store_keeps_entry [OF assms(2,3)]) (use assms(4) st in \<open>simp_all add: ends_challenge_def\<close>)
  qed (use assms(3) in simp)
next
  case False
  show ?thesis
  proof (cases st)
    case (Checked peer c info)
    show ?thesis
    proof (cases "consume_proof E (claim_id c) (claim_nonce c) peer s")
      case (Inl r)
      with Checked assms show ?thesis by (cases r) (auto dest: consume_proof_touches(1))
    next
      case (Inr t)
      with Checked assms have n: "claim_nonce c \<noteq> n" and s': "s' = t" by (auto simp: ends_challenge_def)
      from consume_proof_touches(2) [OF Inr] obtain hex ip p k where
        t: "sv_nonces t = store_step (OpConsume (claim_nonce c) hex ip p k) (sv_nonces s)" by blast
      show ?thesis unfolding s' t by (rule store_keeps_entry [OF assms(2,3)]) (use n in simp_all)
    qed
  next
    case (PurgeNonces now)
    with assms(1) have s': "sv_nonces s' = store_step (OpPurge now) (sv_nonces s)" by auto
    show ?thesis unfolding s'
      by (rule store_keeps_entry [OF assms(2,3)]) (use assms(4) PurgeNonces in \<open>simp_all add: ends_challenge_def\<close>)
  next
    case (Sweeping items)
    with assms show ?thesis by (cases items) auto
  qed (use False assms in \<open>auto simp: returned_def record_pulse_def dest: read_in_touches check_proof_touches decrypt_param_touches scan_touches
         split: step_splits\<close>)
qed

lemma step_keeps_entry:
  assumes "wstep P w l w'" and "hm_ok (sv_nonces (fst w))" and "map_of (sv_nonces (fst w)) n = Some e"
    and "\<not> ends_challenge n (ne_expires_at_unix e) l"
  shows "map_of (sv_nonces (fst w')) n = Some e"
  using assms(1)
proof (cases rule: wstep_cases)
  case (shed T E s len ip out s')
  with gate_touches(1) [OF shed(6)] assms(3) show ?thesis by simp
next
  case (arrive T E s data peer s')
  with gate_touches(2) [OF arrive(6)] assms(3) show ?thesis by simp
next
  case (tick T s E)
  with assms(3) show ?thesis by simp
next
  case (task T i E s effs st s')
  with advance_keeps_entry [OF task(7)] assms show ?thesis by simp
qed

lemma run_keeps_entry:
  assumes "wrun P w tr w'" and "server_ok (fst w)" and "map_of (sv_nonces (fst w)) n = Some e"
    and "\<forall>l \<in> set tr. \<not> ends_challenge n (ne_expires_at_unix e) l"
  shows "map_of (sv_nonces (fst w')) n = Some e \<and> same_frame (fst w) (fst w')"
  using assms
proof (induction rule: wrun.induct)
  case (step w tr w1 l w2)
  then have "server_ok (fst w1)" using wrun_ok by blast
  then have "hm_ok (sv_nonces (fst w1))" by (simp add: server_ok_alt)
  with step step_keeps_entry [OF step(2)] step_frame [OF step(2)] show ?case by (auto elim: same_frame_trans)
qed simp

lemma same_frame_payload: "same_frame s s' \<Longrightarrow> claim_payload P c s' = claim_payload P c s"
  by (cases c) (auto simp: same_frame_def response_payload_def bye_payload_def fun_eq_iff)

subsection \<open>Properties\<close>

lemma start_calm:
  assumes "from_config P now cfg x y = Returns (Inr s)"
  shows "server_ok (fst (s, []))" "sv_config (fst (s, [])) = cfg" "Finished Panicked \<notin> set (snd (s, []))"
  using from_config_ok [OF assms] from_config_start [OF assms] by simp_all

text \<open>
  Whatever the schedule, the tasks of a run take at most nine steps for each datagram that was let in and,
  for each tick, seven and three for each lease that the tracker can hold, so no task runs forever and no other task can keep it from its end.
\<close>

theorem tasks_end:
  assumes "from_config P now cfg x y = Returns (Inr s)" and "wrun P (s, []) tr w"
  shows "tally task_step tr + work_left w \<le>
    9 * tally ((=) Arrived) tr + (7 + 3 * max (ss_max_tracked_ips (sc_server cfg)) 1) * tally tick_step tr"
proof -
  have "work_left (s, []) = 0" "most_leases s = max (ss_max_tracked_ips (sc_server cfg)) 1"
    using start_calm(2) [OF assms(1)] by (simp_all add: work_left_def total_work_def most_leases_def)
  with run_work [OF assms(2) start_calm(1) [OF assms(1)]] show ?thesis by simp
qed

theorem tasks_end_witness:
  "\<exists>tr w. wrun demo (demo_server, []) tr w \<and> tr \<noteq> [] \<and>
     tally task_step tr + work_left w \<le> 9 * tally ((=) Arrived) tr + 300007 * tally tick_step tr"
proof -
  obtain tr w cmd where r: "wrun demo (demo_server, []) tr w" "Spawned cmd \<in> set (concat (map label_effects tr))"
    by (rule demo_run)
  have "ss_max_tracked_ips (sc_server demo_config) = 100000" by (simp add: demo_config_def default_server_section_def)
  with tasks_end [OF demo_from_config r(1)] r show ?thesis by (intro exI [of _ tr] exI [of _ w]) auto
qed

text \<open>
  C5: A validated server whose clocks leave room for its longest block and lease always comes to rest. Let its tasks
  go on alone from any world that a run reaches: they never panic; in every world on the way either all tasks have ended and
  every permit and hook slot is free again, or some task has not ended, and each such task can go on whatever
  the environment answers; and after \<open>work_left\<close> steps at the latest the first is the case.
\<close>

theorem server_settles:
  assumes "from_config P now cfg (grant_executor cfg) (revoke_executor cfg) = Returns (Inr s)"
    and "validate_server cfg = Returns (Inr ())"
    and "wrun P (s, []) tr w" and "wrun P w tr' w'" and "list_all task_step tr'"
    and "\<forall>l \<in> set (tr @ tr'). in_time cfg l"
  shows "length tr' + work_left w' \<le> work_left w \<and> Finished Panicked \<notin> set (snd w') \<and>
    (if work_left w' = 0 then settled w'
     else \<exists>i < length (snd w'). \<not> terminal (snd w' ! i)) \<and>
    (\<forall>i < length (snd w'). \<not> terminal (snd w' ! i) \<longrightarrow>
       (\<forall>E. \<exists>effs st s'. wstep P w' (Advanced E (snd w' ! i) effs st) (s', (snd w')[i := st])))"
proof -
  note start = start_calm [OF assms(1)]
  note run = wrun_trans [OF assms(4,3)]
  have calm: "Finished Panicked \<notin> set (snd w')"
    using run_no_panic [OF run start(1) _ start(3)] assms(2,6) start(2) by simp
  have "server_ok (fst w)" using wrun_ok [OF assms(3) start(1)] .
  from run_steps_left [OF assms(4) this assms(5)] have bound: "length tr' + work_left w' \<le> work_left w" .
  have slots: "slots_ok w'" using wrun_slots [OF run start_slots [OF assms(1)]] by blast
  have "\<exists>effs st s'. wstep P w' (Advanced E (snd w' ! i) effs st) (s', (snd w')[i := st])"
    if "i < length (snd w')" "\<not> terminal (snd w' ! i)" for i E
    using can_step [OF calm that, of P "fst w'" E] by simp
  moreover have "settled w'" if "work_left w' = 0"
    using rest_settled [OF slots _ calm] that by (simp add: work_left_def no_work)
  moreover have "\<exists>i < length (snd w'). \<not> terminal (snd w' ! i)" if "work_left w' \<noteq> 0"
    using that unfolding work_left_def no_work by (metis in_set_conv_nth)
  ultimately show ?thesis using bound calm by simp
qed

lemma demo_checked: "validate_server demo_config = Returns (Inr ())"
  by (simp add: validate_server_ok demo_config_def default_server_section_def default_command_section_def from_hex_to_hex)

lemma demo_room: "clock_room demo_config demo_env"
  by (simp add: clock_room_def demo_env_def demo_config_def default_server_section_def from_secs_def instant_max_def)

lemma demo_opens:
  obtains s where "wrun demo (demo_server, []) [Arrived] (s, [Opening demo_peer [1, 2, 3]])"
proof -
  have a: "admits demo_env 3 (fst demo_peer) demo_server" by simp
  have p: "e_permit demo_env" by (simp add: demo_env_def)
  from a obtain s where g: "Server.gate demo_env (length [1 :: byte, 2, 3]) (fst demo_peer) demo_server = Inr s"
    by (auto simp: gate_def admits_def)
  have "permit_free demo_server []"
    by (simp add: permit_free_def in_flight_def demo_server_def Let_def demo_config_def default_server_section_def)
  with p have "wstep demo (demo_server, []) Arrived (s, [] @ [Opening demo_peer [1, 2, 3]])"
    by (intro wstep.arrive [OF _ _ g]) simp_all
  from wrun.step [OF wrun.start this] that show thesis by simp
qed

theorem server_settles_witness:
  "\<exists>s tr w. wrun demo (demo_server, []) [Arrived] (s, [Opening demo_peer [1, 2, 3]]) \<and>
     wrun demo (s, [Opening demo_peer [1, 2, 3]]) tr w \<and> settled w \<and> length tr \<le> 9"
proof -
  obtain s where r: "wrun demo (demo_server, []) [Arrived] (s, [Opening demo_peer [1, 2, 3]])" by (rule demo_opens)
  let ?w = "(s, [Opening demo_peer [1, 2, 3 :: byte]])"
  note start = start_calm [OF demo_from_config]
  have ok: "server_ok (fst ?w)" "sv_config (fst ?w) = demo_config"
    using run_work [OF r start(1)] start(2) by simp_all
  obtain tr w where t: "wrun demo ?w tr w" "list_all task_step tr" "\<forall>l \<in> set tr. in_time demo_config l"
      "\<forall>st \<in> set (snd w). terminal st"
    using comes_to_rest [of ?w demo_env demo] ok demo_room demo_checked by auto
  have "revoke_executor demo_config = None"
    by (simp add: revoke_executor_def demo_config_def default_command_section_def)
  then have f: "from_config demo 0 demo_config (grant_executor demo_config) (revoke_executor demo_config) = Returns (Inr demo_server)"
    using demo_from_config by simp
  have "\<forall>l \<in> set ([Arrived] @ tr). in_time demo_config l" using t(3) by simp
  from server_settles [OF f demo_checked r t(1,2) this] t(4)
  have "settled w" "length tr + work_left w \<le> work_left ?w" by (simp_all add: work_left_def no_work)
  with r t(1) show ?thesis by (intro exI [of _ s] exI [of _ tr] exI [of _ w]) (simp add: work_left_def total_work_def)
qed


definition demo_answer :: "hello \<Rightarrow> int \<Rightarrow> claim" where
  "demo_answer h x = (let r = \<lparr>r_client_id = h_client_id h, r_nonce = e_nonce demo_env, r_interval = 60, r_param = None, r_signature = []\<rparr>
     in Pulse (r\<lparr>r_signature := demo_sign demo_seed (response_payload demo r demo_server x)\<rparr>))"


end
