(* ===== verification/Service.thy ===== *)
theory Service
  imports Rust_Text
begin

text \<open>
  Installation as a background service, \<open>signedpulse-common/src/service.rs\<close>: the texts of the
  systemd unit and the launchd property list, the placement of the file, the commands that activate
  it, the query of the service manager, and \<open>write_config_file\<close> as a sequence of file-system
  states.

  A path is the text of the path. The environment variable HOME, the existence of the
  tools, the results of commands and the failures of file operations are parameters.
\<close>

subsection \<open>Specification of a service\<close>

datatype service_target = SystemdSystem | SystemdUser | LaunchdAgent

record service_spec =
  sp_unit_name :: string
  sp_description :: string
  sp_exec_path :: string
  sp_args :: "string list"
  sp_launchd_label :: string

record install_report =
  ir_path :: string
  ir_activation_commands :: "string list"
  ir_activated :: bool
  ir_note :: "string option"

definition path_join :: "string \<Rightarrow> string \<Rightarrow> string" where
  "path_join a b =
     (if starts_with b ''/'' then b
      else if a \<noteq> [] \<and> last a \<noteq> CHR ''/'' then a @ ''/'' @ b else a @ b)"

definition default_config_path :: "string \<Rightarrow> string" where
  "default_config_path component = path_join ''/etc/signedpulse'' (component @ ''.toml'')"

subsection \<open>Quoting\<close>

text \<open>
  \<open>chars().filter(|c| !c.is_control())\<close>: the control characters are the ASCII ones, one byte
  each, and U+0080 to U+009F, two bytes each of which the first is 0xC2.
\<close>

definition ascii_control :: "char \<Rightarrow> bool" where
  "ascii_control c \<longleftrightarrow> (of_char c :: nat) < 32 \<or> (of_char c :: nat) = 127"

definition c1_control :: "char \<Rightarrow> char \<Rightarrow> bool" where
  "c1_control a b \<longleftrightarrow> (of_char a :: nat) = 194 \<and> 128 \<le> (of_char b :: nat) \<and> (of_char b :: nat) < 160"

fun strip_control :: "string \<Rightarrow> string" where
  "strip_control (a # b # s) =
     (if ascii_control a then strip_control (b # s)
      else if c1_control a b then strip_control s
      else a # strip_control (b # s))"
| "strip_control [a] = (if ascii_control a then [] else [a])"
| "strip_control [] = []"

abbreviation (input) dquote :: char where "dquote \<equiv> CHR 0x22"
abbreviation (input) backslash :: char where "backslash \<equiv> CHR 0x5C"
abbreviation (input) line_feed :: char where "line_feed \<equiv> CHR 0x0A"

definition quoted :: "string \<Rightarrow> string" where
  "quoted s = dquote # s @ [dquote]"

definition systemd_quote :: "string \<Rightarrow> string" where
  "systemd_quote s =
     (let cleaned = strip_control s
      in quoted (replace_str [dquote] [backslash, dquote] (replace_str [backslash] [backslash, backslash] cleaned)))"

fun push_args :: "string \<Rightarrow> string list \<Rightarrow> string" where
  "push_args line [] = line"
| "push_args line (a # as) = push_args (line @ '' '' @ systemd_quote a) as"

definition exec_line :: "string \<Rightarrow> string list \<Rightarrow> string" where
  "exec_line exec_path args = push_args (systemd_quote exec_path) args"

definition xml_escape :: "string \<Rightarrow> string" where
  "xml_escape s =
     replace_str ''>'' ''&gt;'' (replace_str ''<'' ''&lt;'' (replace_str ''&'' ''&amp;'' s))"

subsection \<open>The service definitions\<close>

definition unlines :: "string list \<Rightarrow> string" where
  "unlines ls = concat (map (\<lambda>l. l @ [line_feed]) ls)"

definition render_systemd_unit :: "service_spec \<Rightarrow> bool \<Rightarrow> string" where
  "render_systemd_unit spec user =
     (let wanted_by = (if user then ''default.target'' else ''multi-user.target'');
          description = strip_control (sp_description spec)
      in unlines
          [''[Unit]'',
           ''Description='' @ description,
           ''After=network-online.target'',
           ''Wants=network-online.target'',
           '''',
           ''[Service]'',
           ''Type=simple'',
           ''ExecStart='' @ exec_line (sp_exec_path spec) (sp_args spec),
           ''Restart=on-failure'',
           ''RestartSec=5'',
           ''NoNewPrivileges=true'',
           '''',
           ''[Install]'',
           ''WantedBy='' @ wanted_by])"

definition string_element :: "string \<Rightarrow> string" where
  "string_element s = ''<string>'' @ xml_escape s @ ''</string>''"

definition log_section :: "string option \<Rightarrow> string \<Rightarrow> string" where
  "log_section home label =
     (case home of
        None \<Rightarrow> ''''
      | Some h \<Rightarrow>
          (let dir = path_join h ''Library/Logs'' in
           unlines
            [''           <key>StandardOutPath</key>'',
             ''  '' @ string_element (path_join dir (label @ ''.out.log'')),
             ''  <key>StandardErrorPath</key>'',
             ''  '' @ string_element (path_join dir (label @ ''.err.log''))]))"

definition render_launchd_plist :: "string option \<Rightarrow> service_spec \<Rightarrow> string" where
  "render_launchd_plist home spec =
     unlines
      [''<?xml version='' @ quoted ''1.0'' @ '' encoding='' @ quoted ''UTF-8'' @ ''?>'',
       ''<!DOCTYPE plist PUBLIC '' @ quoted ''-//Apple//DTD PLIST 1.0//EN'' @ '' '' @
         quoted ''http://www.apple.com/DTDs/PropertyList-1.0.dtd'' @ ''>'',
       ''<plist version='' @ quoted ''1.0'' @ ''>'',
       ''<dict>'',
       ''  <key>Label</key>'',
       ''  '' @ string_element (sp_launchd_label spec),
       ''  <key>ProgramArguments</key>'',
       ''  <array>''] @
     unlines (map (\<lambda>a. ''    '' @ string_element a) (sp_exec_path spec # sp_args spec)) @
     unlines
      [''  </array>'',
       ''  <key>RunAtLoad</key>'',
       ''  <true/>'',
       ''  <key>KeepAlive</key>'',
       ''  <true/>''] @
     log_section home (sp_launchd_label spec) @
     unlines [''</dict>'', ''</plist>'']"

definition render :: "string option \<Rightarrow> service_spec \<Rightarrow> service_target \<Rightarrow> string" where
  "render home spec target =
     (case target of
        SystemdSystem \<Rightarrow> render_systemd_unit spec False
      | SystemdUser \<Rightarrow> render_systemd_unit spec True
      | LaunchdAgent \<Rightarrow> render_launchd_plist home spec)"

datatype io_error = NoHome | ToolMissing string | CommandFailed string string | OsError string

definition unit_path :: "string option \<Rightarrow> service_spec \<Rightarrow> service_target \<Rightarrow> (io_error, string) res" where
  "unit_path home spec target =
     (let home' = (case home of Some h \<Rightarrow> Inr h | None \<Rightarrow> Inl NoHome) in
      case target of
        SystemdSystem \<Rightarrow> Inr (path_join ''/etc/systemd/system'' (sp_unit_name spec @ ''.service''))
      | SystemdUser \<Rightarrow> res_bind home' (\<lambda>h.
          Inr (path_join (path_join h ''.config/systemd/user'') (sp_unit_name spec @ ''.service'')))
      | LaunchdAgent \<Rightarrow> res_bind home' (\<lambda>h.
          Inr (path_join (path_join h ''Library/LaunchAgents'') (sp_launchd_label spec @ ''.plist''))))"

subsection \<open>Activation\<close>

definition activation_commands :: "service_spec \<Rightarrow> service_target \<Rightarrow> string \<Rightarrow> string list" where
  "activation_commands spec target path =
     (case target of
        SystemdSystem \<Rightarrow> [''systemctl daemon-reload'', ''systemctl enable --now '' @ sp_unit_name spec]
      | SystemdUser \<Rightarrow> [''systemctl --user daemon-reload'', ''systemctl --user enable --now '' @ sp_unit_name spec]
      | LaunchdAgent \<Rightarrow> [''launchctl load -w '' @ path])"

definition invocations :: "service_target \<Rightarrow> string \<Rightarrow> service_spec \<Rightarrow> (string \<times> string list) list" where
  "invocations target path spec =
     (case target of
        SystemdSystem \<Rightarrow>
          [(''systemctl'', [''daemon-reload'']),
           (''systemctl'', [''enable'', ''--now'', sp_unit_name spec])]
      | SystemdUser \<Rightarrow>
          [(''systemctl'', [''--user'', ''daemon-reload'']),
           (''systemctl'', [''--user'', ''enable'', ''--now'', sp_unit_name spec])]
      | LaunchdAgent \<Rightarrow> [(''launchctl'', [''load'', ''-w'', path])])"

text \<open>
  What the system says: whether a file exists, and how a command ended, with the
  exit status as its \<open>Display\<close> shows it when it was no success.
\<close>

record os_env =
  os_exists :: "string \<Rightarrow> bool"
  os_status :: "string \<Rightarrow> string list \<Rightarrow> string + string option"

fun find_tool :: "(string \<Rightarrow> bool) \<Rightarrow> string \<Rightarrow> string list \<Rightarrow> string option" where
  "find_tool ex name [] = None"
| "find_tool ex name (dir # dirs) =
     (let p = path_join dir name in if ex p then Some p else find_tool ex name dirs)"

definition resolve_tool :: "(string \<Rightarrow> bool) \<Rightarrow> string \<Rightarrow> string option" where
  "resolve_tool ex name = find_tool ex name [''/usr/bin'', ''/bin'', ''/usr/sbin'', ''/sbin'']"

fun join_with :: "string \<Rightarrow> string list \<Rightarrow> string" where
  "join_with sep [] = ''''"
| "join_with sep [x] = x"
| "join_with sep (x # y # ys) = x @ sep @ join_with sep (y # ys)"

text \<open>The commands that were run, with the path of the tool, and the result.\<close>

fun run_invocations ::
  "os_env \<Rightarrow> (string \<times> string list) list \<Rightarrow> (string \<times> string list) list \<times> (io_error, unit) res" where
  "run_invocations S [] = ([], Inr ())"
| "run_invocations S ((program, args) # rest) =
     (case resolve_tool (os_exists S) program of
        None \<Rightarrow> ([], Inl (ToolMissing program))
      | Some tool \<Rightarrow>
          (case os_status S tool args of
             Inl e \<Rightarrow> ([(tool, args)], Inl (OsError e))
           | Inr (Some status) \<Rightarrow> ([(tool, args)], Inl (CommandFailed (program @ '' '' @ join_with '' '' args) status))
           | Inr None \<Rightarrow> (let (run, r) = run_invocations S rest in ((tool, args) # run, r))))"

definition run_activation ::
  "os_env \<Rightarrow> service_target \<Rightarrow> string \<Rightarrow> service_spec \<Rightarrow> (string \<times> string list) list \<times> (io_error, unit) res" where
  "run_activation S target path spec = run_invocations S (invocations target path spec)"

fun io_text :: "io_error \<Rightarrow> string" where
  "io_text NoHome = ''HOME is not set''"
| "io_text (ToolMissing program) = [CHR 0x60] @ program @ [CHR 0x60] @ '' not found in a trusted system location''"
| "io_text (CommandFailed command status) = [CHR 0x60] @ command @ [CHR 0x60] @ '' exited with '' @ status"
| "io_text (OsError e) = e"

subsection \<open>Writing a file\<close>

text \<open>
  \<open>Path::with_extension\<close> on the text of a path: separators and \<open>/.\<close> at the end belong to no
  component, \<open>.\<close> and \<open>..\<close> are no file names, and a dot at the front of a name starts no extension.
\<close>

fun drop_tail :: "string \<Rightarrow> string" where
  "drop_tail [] = []"
| "drop_tail (c # r) =
     (if c = CHR ''/'' then drop_tail r
      else if c = CHR ''.'' \<and> r \<noteq> [] \<and> hd r = CHR ''/'' then drop_tail (tl r)
      else c # r)"

definition file_name :: "string \<Rightarrow> string" where
  "file_name path = rev (takeWhile (\<lambda>c. c \<noteq> CHR ''/'') (drop_tail (rev path)))"

definition directory_part :: "string \<Rightarrow> string" where
  "directory_part path = rev (dropWhile (\<lambda>c. c \<noteq> CHR ''/'') (drop_tail (rev path)))"

definition has_file_name :: "string \<Rightarrow> bool" where
  "has_file_name path \<longleftrightarrow> file_name path \<notin> {'''', ''.'', ''..''}"

definition file_stem :: "string \<Rightarrow> string" where
  "file_stem name =
     (let before = rev (tl (dropWhile (\<lambda>c. c \<noteq> CHR ''.'') (rev name)))
      in if CHR ''.'' \<notin> set name \<or> before = [] then name else before)"

definition with_extension :: "string \<Rightarrow> string \<Rightarrow> string" where
  "with_extension path ext =
     (if has_file_name path then directory_part path @ file_stem (file_name path) @ ''.'' @ ext else path)"

text \<open>
  The regular files with their contents and permission bits. \<open>wr_*\<close> is what the operating
  system does: the error of each call, and after how many bytes a write fails.
\<close>

type_synonym files = "string \<Rightarrow> (string \<times> nat) option"

record write_env =
  wr_pid :: nat
  wr_parent :: "string option"
  wr_removes :: bool
  wr_open :: "string option"
  wr_write :: "(nat \<times> string) option"
  wr_rename :: "string option"

text \<open>
  All the states that the file system goes through, first to last, and the result; 384 is
  the mode 0600 and 420 is 0644.
\<close>

definition replace_file ::
  "write_env \<Rightarrow> string \<Rightarrow> string \<Rightarrow> string \<Rightarrow> nat \<Rightarrow> files \<Rightarrow> files list \<times> (io_error, unit) res" where
  "replace_file W tmp path contents mode fs =
     (let fs1 = (if wr_removes W then fs(tmp := None) else fs)
      in case (wr_open W, fs1 tmp) of
           (Some e, _) \<Rightarrow> ([fs, fs1], Inl (OsError e))
         | (None, Some _) \<Rightarrow> ([fs, fs1], Inl (OsError ''File exists (os error 17)''))
         | (None, None) \<Rightarrow>
             (case wr_write W of
                Some (n, e) \<Rightarrow>
                  ([fs, fs1] @ map (\<lambda>k. fs1(tmp \<mapsto> (take k contents, mode))) [0..<Suc n], Inl (OsError e))
              | None \<Rightarrow>
                  (let written = [fs, fs1] @ map (\<lambda>k. fs1(tmp \<mapsto> (take k contents, mode))) [0..<Suc (length contents)]
                   in case wr_rename W of
                        Some e \<Rightarrow> (written, Inl (OsError e))
                      | None \<Rightarrow> (written @ [fs1(tmp := None, path \<mapsto> (contents, mode))], Inr ()))))"

definition write_config_file ::
  "write_env \<Rightarrow> string \<Rightarrow> string \<Rightarrow> bool \<Rightarrow> files \<Rightarrow> files list \<times> (io_error, unit) res" where
  "write_config_file W path contents secret fs =
     (case wr_parent W of
        Some e \<Rightarrow> ([fs], Inl (OsError e))
      | None \<Rightarrow>
          (let mode = (if secret then 384 else 420);
               tmp = with_extension path (''tmp.'' @ show_nat (wr_pid W))
           in replace_file W tmp path contents mode fs))"

subsection \<open>Installation\<close>

definition install ::
  "os_env \<Rightarrow> string option \<Rightarrow> write_env \<Rightarrow> service_spec \<Rightarrow> service_target \<Rightarrow> bool \<Rightarrow> files \<Rightarrow>
   files \<times> (string \<times> string list) list \<times> (io_error, install_report) res" where
  "install S home W spec target activate fs =
     (case unit_path home spec target of
        Inl e \<Rightarrow> (fs, [], Inl e)
      | Inr path \<Rightarrow>
          (case write_config_file W path (render home spec target) False fs of
             (states, Inl e) \<Rightarrow> (last states, [], Inl e)
           | (states, Inr _) \<Rightarrow>
               (let report = \<lparr>ir_path = path, ir_activation_commands = activation_commands spec target path,
                              ir_activated = False, ir_note = None\<rparr>
                in if \<not> activate
                   then (last states, [],
                     Inr (report\<lparr>ir_note := Some ''activation skipped; run the commands below to start it''\<rparr>))
                   else
                     case run_activation S target path spec of
                       (run, Inr _) \<Rightarrow> (last states, run, Inr (report\<lparr>ir_activated := True\<rparr>))
                     | (run, Inl e) \<Rightarrow>
                         (last states, run,
                          Inr (report\<lparr>ir_note := Some (''could not activate automatically ('' @ io_text e @
                            ''); run the commands below manually'')\<rparr>)))))"

subsection \<open>State of the service\<close>

datatype service_state = Active | Inactive | UnknownState

text \<open>The output of a command: \<open>None\<close> when it could not be run, else its success and standard output.\<close>

record query_env =
  q_macos :: bool
  q_exists :: "string \<Rightarrow> bool"
  q_run :: "string \<Rightarrow> string list \<Rightarrow> (bool \<times> string) option"

definition systemctl_is_active :: "query_env \<Rightarrow> string list \<Rightarrow> string \<Rightarrow> service_state option" where
  "systemctl_is_active Q prefix unit_name =
     (case resolve_tool (q_exists Q) ''systemctl'' of
        None \<Rightarrow> None
      | Some tool \<Rightarrow>
          (case q_run Q tool (prefix @ [''is-active'', unit_name]) of
             None \<Rightarrow> None
           | Some (_, stdout) \<Rightarrow>
               (let word = trim stdout in
                if word = ''active'' then Some Active
                else if word \<in> {''inactive'', ''failed'', ''deactivating'', ''activating''} then Some Inactive
                else None)))"

definition query_service :: "query_env \<Rightarrow> string \<Rightarrow> string \<Rightarrow> service_state \<times> string" where
  "query_service Q unit_name launchd_label =
     (if q_macos Q then
        (case resolve_tool (q_exists Q) ''launchctl'' of
           None \<Rightarrow> (UnknownState, ''launchctl unavailable'')
         | Some tool \<Rightarrow>
             (case q_run Q tool [''list'', launchd_label] of
                None \<Rightarrow> (UnknownState, ''launchctl unavailable'')
              | Some (True, _) \<Rightarrow> (Active, ''launchctl: loaded'')
              | Some (False, _) \<Rightarrow> (Inactive, ''launchctl: not loaded'')))
      else
        (case systemctl_is_active Q [] unit_name of
           Some st \<Rightarrow> (st, ''systemctl'')
         | None \<Rightarrow>
             (case systemctl_is_active Q [''--user''] unit_name of
                Some st \<Rightarrow> (st, ''systemctl --user'')
              | None \<Rightarrow> (UnknownState, ''systemctl unavailable''))))"

subsection \<open>Replacing one character\<close>

lemma replace_char: "replace_str [p] to s = concat (map (\<lambda>c. if c = p then to else [c]) s)"
  by (induction s) (auto simp: starts_with_def)

lemma concat_map_concat: "concat (map g (concat (map f s))) = concat (map (\<lambda>c. concat (map g (f c))) s)"
  by (induction s) auto

definition quote_char :: "char \<Rightarrow> string" where
  "quote_char c = (if c = backslash then [backslash, backslash] else if c = dquote then [backslash, dquote] else [c])"

lemma systemd_quote_alt: "systemd_quote s = quoted (concat (map quote_char (strip_control s)))"
proof -
  have "concat (map (\<lambda>c. if c = dquote then [backslash, dquote] else [c])
      (if c = backslash then [backslash, backslash] else [c])) = quote_char c" for c
    by (simp add: quote_char_def)
  then show ?thesis by (simp add: systemd_quote_def replace_char concat_map_concat)
qed

definition entity :: "char \<Rightarrow> string" where
  "entity c = (if c = CHR ''&'' then ''&amp;'' else if c = CHR ''<'' then ''&lt;''
     else if c = CHR ''>'' then ''&gt;'' else [c])"

lemma xml_escape_alt: "xml_escape s = concat (map entity s)"
proof -
  have "concat (map (\<lambda>c. concat (map (\<lambda>c. if c = CHR ''>'' then ''&gt;'' else [c])
      (if c = CHR ''<'' then ''&lt;'' else [c]))) (if c = CHR ''&'' then ''&amp;'' else [c])) = entity c" for c
    by (simp add: entity_def)
  then show ?thesis by (simp add: xml_escape_def replace_char concat_map_concat)
qed

subsection \<open>Reading the texts back\<close>

text \<open>The words of a line in which every word is quoted, as systemd's manual describes the quotes.\<close>

fun read_quoted :: "string \<Rightarrow> (string \<times> string) option" where
  "read_quoted [] = None"
| "read_quoted (c # s) =
     (if c = dquote then Some ([], s)
      else if c = backslash then
        (case s of [] \<Rightarrow> None | d # r \<Rightarrow> map_option (\<lambda>(w, r). (d # w, r)) (read_quoted r))
      else map_option (\<lambda>(w, r). (c # w, r)) (read_quoted s))"

lemma read_quoted_shorter: "read_quoted s = Some (w, r) \<Longrightarrow> length r < length s"
  by (induction s arbitrary: w r rule: read_quoted.induct) (fastforce split: if_splits list.splits)+

function read_words :: "string \<Rightarrow> string list option" where
  "read_words s =
     (case s of
        [] \<Rightarrow> None
      | c # s \<Rightarrow>
          if c \<noteq> dquote then None
          else case read_quoted s of
                 None \<Rightarrow> None
               | Some (w, r) \<Rightarrow>
                   (if r = [] then Some [w]
                    else if hd r = CHR '' '' then map_option (Cons w) (read_words (tl r)) else None))"
  by pat_completeness auto
termination
  by (relation "measure length") (auto dest: read_quoted_shorter)

declare read_words.simps [simp del]

lemma read_quoted_word: "read_quoted (concat (map quote_char s) @ dquote # r) = Some (s, r)"
  by (induction s) (auto simp: quote_char_def)

lemma read_words_one: "read_words (systemd_quote a) = Some [strip_control a]"
  unfolding systemd_quote_alt quoted_def by (subst read_words.simps) (simp add: read_quoted_word)

lemma read_words_more:
  "read_words (systemd_quote a @ CHR '' '' # rest) = map_option (Cons (strip_control a)) (read_words rest)"
  unfolding systemd_quote_alt quoted_def by (subst read_words.simps) (simp add: read_quoted_word)

lemma exec_line_Nil: "exec_line p [] = systemd_quote p"
  and exec_line_Cons: "exec_line p (a # as) = systemd_quote p @ CHR '' '' # exec_line a as"
proof -
  have "push_args (x @ y) as = x @ push_args y as" for x y as
    by (induction as arbitrary: y) simp_all
  from this [of "systemd_quote p @ '' ''" "systemd_quote a" as]
  show "exec_line p (a # as) = systemd_quote p @ CHR '' '' # exec_line a as" by (simp add: exec_line_def)
qed (simp add: exec_line_def)

lemma read_exec_line: "read_words (exec_line p as) = Some (map strip_control (p # as))"
  by (induction as arbitrary: p) (simp_all add: exec_line_Nil exec_line_Cons read_words_one read_words_more)

text \<open>The lines of a text.\<close>

fun lines_from :: "string \<Rightarrow> string \<Rightarrow> string list" where
  "lines_from acc [] = (if acc = [] then [] else [rev acc])"
| "lines_from acc (c # s) = (if c = line_feed then rev acc # lines_from [] s else lines_from (c # acc) s)"

abbreviation lines_of :: "string \<Rightarrow> string list" where
  "lines_of \<equiv> lines_from []"

lemma lines_from_line: "line_feed \<notin> set l \<Longrightarrow> lines_from acc (l @ line_feed # s) = (rev acc @ l) # lines_of s"
  by (induction l arbitrary: acc) auto

lemma lines_of_unlines: "\<forall>l \<in> set ls. line_feed \<notin> set l \<Longrightarrow> lines_of (unlines ls) = ls"
  by (induction ls) (simp_all add: unlines_def lines_from_line)

lemma strip_control_subset: "c \<in> set (strip_control s) \<Longrightarrow> c \<in> set s \<and> \<not> ascii_control c"
  by (induction s rule: strip_control.induct) (auto split: if_splits)

lemma newline_stripped [simp]: "line_feed \<notin> set (strip_control s)"
  by (auto dest: strip_control_subset simp: ascii_control_def)

lemma newline_not_quoted [simp]: "line_feed \<notin> set (systemd_quote s)"
  using newline_stripped [of s] by (auto simp: systemd_quote_alt quoted_def quote_char_def split: if_splits)

lemma newline_not_in_line [simp]: "line_feed \<notin> set (exec_line p as)"
  by (induction as arbitrary: p) (simp_all add: exec_line_Nil exec_line_Cons)

text \<open>On well-formed text, \<open>strip_control\<close> removes exactly the control characters.\<close>

lemma strip_control_plain:
  "\<not> ascii_control a \<Longrightarrow> (of_char a :: nat) \<noteq> 194 \<Longrightarrow> strip_control (a # s) = a # strip_control s"
  by (cases s) (auto simp: c1_control_def)

lemma strip_control_ascii: "ascii_control a \<Longrightarrow> strip_control (a # s) = strip_control s"
  by (cases s) auto

lemma strip_control_cont: "is_cont (of_char a) \<Longrightarrow> strip_control (a # s) = a # strip_control s"
  by (rule strip_control_plain) (auto simp: is_cont_def ascii_control_def)

lemma second_ok_cont: "second_ok3 a b \<Longrightarrow> is_cont b" "second_ok4 a b \<Longrightarrow> is_cont b"
  by (auto simp: second_ok3_def second_ok4_def is_cont_def split: if_splits)

lemma strip_control_decode:
  "utf8_decode (codes s) = Some cps \<Longrightarrow>
   utf8_decode (codes (strip_control s)) = Some (filter (\<lambda>c. \<not> is_control c) cps)"
proof (induction "length s" arbitrary: s cps rule: less_induct)
  case less
  show ?case
  proof (cases s)
    case Nil
    with less.prems show ?thesis by simp
  next
    case (Cons a t)
    let ?n = "of_char a :: nat"
    obtain cp r cps' where nx: "utf8_next ?n (codes t) = Some (cp, r)" "utf8_decode r = Some cps'" "cps = cp # cps'"
      using less.prems Cons by (auto split: option.splits)
    have IH: "utf8_decode (codes (strip_control u)) = Some (filter (\<lambda>c. \<not> is_control c) cps'')"
      if "length u \<le> length t" "utf8_decode (codes u) = Some cps''" for u cps''
      using less.hyps [of u] that Cons by simp
    consider (one) "?n < 128" | (two) "194 \<le> ?n" "?n \<le> 223" | (three) "224 \<le> ?n" "?n \<le> 239"
      | (four) "\<not> ?n < 128" "\<not> (194 \<le> ?n \<and> ?n \<le> 239)" by linarith
    then show ?thesis
    proof cases
      case one
      then have "is_control ?n \<longleftrightarrow> ascii_control a" by (auto simp: is_control_def ascii_control_def)
      with one nx IH [of t] Cons show ?thesis
        by (auto simp: strip_control_ascii strip_control_plain)
    next
      case two
      then obtain b u where t: "t = b # u" "is_cont (of_char b)" "r = codes u"
        and cp: "cp = (?n - 192) * 64 + (of_char b - 128)"
        using nx(1) by (cases t) (auto simp: utf8_next.simps split: if_splits)
      have ctl: "is_control cp \<longleftrightarrow> c1_control a b"
        using two t(2) cp by (auto simp: is_control_def c1_control_def is_cont_def)
      have keep: "strip_control s = (if c1_control a b then strip_control u else a # b # strip_control u)"
        using two t Cons by (simp add: ascii_control_def strip_control_cont)
      have "utf8_next ?n (of_char b # codes (strip_control u)) = Some (cp, codes (strip_control u))"
        using two t(2) cp by (simp add: utf8_next.simps)
      with keep ctl IH [of u] t nx show ?thesis by simp
    next
      case three
      then obtain b c u where t: "t = b # c # u" "second_ok3 ?n (of_char b)" "is_cont (of_char c)" "r = codes u"
        and cp: "cp = (?n - 224) * 4096 + (of_char b - 128) * 64 + (of_char c - 128)"
        using nx(1) by (auto simp: utf8_next.simps codes_def split: if_splits list.splits)
      have ctl: "\<not> is_control cp"
        using three t(2) cp by (auto simp: is_control_def second_ok3_def split: if_splits)
      have keep: "strip_control s = a # b # c # strip_control u"
        using three t second_ok_cont(1) [OF t(2)] Cons
        by (simp del: strip_control.simps add: ascii_control_def strip_control_cont strip_control_plain)
      have "utf8_next ?n (of_char b # of_char c # codes (strip_control u)) = Some (cp, codes (strip_control u))"
        using three t(2,3) cp by (simp add: utf8_next.simps)
      with keep ctl IH [of u] t nx show ?thesis by simp
    next
      case four
      then obtain b c d u where t: "t = b # c # d # u" "second_ok4 ?n (of_char b)" "is_cont (of_char c)"
          "is_cont (of_char d)" "r = codes u"
        and cp: "cp = (?n - 240) * 262144 + (of_char b - 128) * 4096 + (of_char c - 128) * 64 + (of_char d - 128)"
        using nx(1) by (auto simp: utf8_next.simps codes_def split: if_splits list.splits)
      have n: "240 \<le> ?n" using t(2) by (auto simp: second_ok4_def split: if_splits)
      have ctl: "\<not> is_control cp"
        using n t(2) cp by (auto simp: is_control_def second_ok4_def split: if_splits)
      have keep: "strip_control s = a # b # c # d # strip_control u"
        using n t second_ok_cont(2) [OF t(2)] Cons
        by (simp del: strip_control.simps add: ascii_control_def strip_control_cont strip_control_plain)
      have "utf8_next ?n (of_char b # of_char c # of_char d # codes (strip_control u)) = Some (cp, codes (strip_control u))"
        using n t(2-4) cp by (simp add: utf8_next.simps)
      with keep ctl IH [of u] t nx show ?thesis by simp
    qed
  qed
qed

text \<open>The texts of the string elements of a property list, with the entities resolved.\<close>

fun xml_unescape :: "string \<Rightarrow> string" where
  "xml_unescape [] = []"
| "xml_unescape (c # s) =
     (if c \<noteq> CHR ''&'' then c # xml_unescape s
      else if starts_with s ''amp;'' then CHR ''&'' # xml_unescape (drop 4 s)
      else if starts_with s ''lt;'' then CHR ''<'' # xml_unescape (drop 3 s)
      else if starts_with s ''gt;'' then CHR ''>'' # xml_unescape (drop 3 s)
      else c # xml_unescape s)"

fun read_strings :: "string \<Rightarrow> string list" where
  "read_strings [] = []"
| "read_strings (c # s) =
     (if starts_with (c # s) ''<string>''
      then xml_unescape (takeWhile (\<lambda>c. c \<noteq> CHR ''<'') (drop 7 s)) # read_strings s
      else read_strings s)"

lemma xml_unescape_escape: "xml_unescape (xml_escape s) = s"
  by (induction s) (simp_all add: xml_escape_alt entity_def starts_with_def)

lemma no_markup: "CHR ''<'' \<notin> set (xml_escape s)" "CHR ''>'' \<notin> set (xml_escape s)"
  by (auto simp: xml_escape_alt entity_def split: if_splits)

lemma read_strings_skip: "CHR ''<'' \<notin> set s \<Longrightarrow> read_strings (s @ t) = read_strings t"
  by (induction s) (auto simp: starts_with_def)

lemma read_string_element: "read_strings (string_element s @ t) = s # read_strings t"
proof -
  have "takeWhile (\<lambda>c. c \<noteq> CHR ''<'') (xml_escape s @ CHR ''<'' # u) = xml_escape s" for u
    using no_markup(1) [of s] by (subst takeWhile_append2) auto
  moreover have "read_strings (xml_escape s @ ''</string>'' @ t) = read_strings t"
    using no_markup(1) by (simp add: read_strings_skip starts_with_def)
  ultimately show ?thesis
    by (simp add: string_element_def starts_with_def xml_unescape_escape read_strings_skip)
qed

lemma read_string_lines:
  "read_strings (unlines (map (\<lambda>a. ''    '' @ string_element a) as) @ t) = as @ read_strings t"
  by (induction as) (simp_all add: unlines_def starts_with_def read_string_element)

lemma read_log_section:
  "read_strings (log_section home label @ t) =
     (case home of None \<Rightarrow> [] | Some h \<Rightarrow>
        [path_join (path_join h ''Library/Logs'') (label @ ''.out.log''),
         path_join (path_join h ''Library/Logs'') (label @ ''.err.log'')]) @ read_strings t"
  by (simp add: log_section_def unlines_def Let_def starts_with_def read_string_element split: option.split)

text \<open>
  The property list names exactly the label, the program and its arguments, in order, and the log
  files when HOME is set: whatever characters the values have, none of them opens or
  closes an element.
\<close>

theorem plist_lists_program:
  "read_strings (render_launchd_plist home spec) =
     [sp_launchd_label spec, sp_exec_path spec] @ sp_args spec @
     (case home of None \<Rightarrow> [] | Some h \<Rightarrow>
        [path_join (path_join h ''Library/Logs'') (sp_launchd_label spec @ ''.out.log''),
         path_join (path_join h ''Library/Logs'') (sp_launchd_label spec @ ''.err.log'')])"
proof -
  have foot: "read_strings (unlines [''</dict>'', ''</plist>'']) = []"
    by (simp add: unlines_def starts_with_def)
  have middle: "read_strings (unlines [''  </array>'', ''  <key>RunAtLoad</key>'', ''  <true/>'', ''  <key>KeepAlive</key>'',
      ''  <true/>''] @ t) = read_strings t" for t
    by (simp add: unlines_def starts_with_def)
  have head: "read_strings (unlines
      [''<?xml version='' @ quoted ''1.0'' @ '' encoding='' @ quoted ''UTF-8'' @ ''?>'',
       ''<!DOCTYPE plist PUBLIC '' @ quoted ''-//Apple//DTD PLIST 1.0//EN'' @ '' '' @
         quoted ''http://www.apple.com/DTDs/PropertyList-1.0.dtd'' @ ''>'',
       ''<plist version='' @ quoted ''1.0'' @ ''>'',
       ''<dict>'',
       ''  <key>Label</key>'',
       ''  '' @ string_element label,
       ''  <key>ProgramArguments</key>'',
       ''  <array>''] @ t) = label # read_strings t" for label t
    by (simp add: unlines_def quoted_def starts_with_def read_string_element)
  show ?thesis
    unfolding render_launchd_plist_def append_assoc head read_string_lines middle read_log_section foot by simp
qed


subsection \<open>Activation\<close>

definition command_text :: "string \<times> string list \<Rightarrow> string" where
  "command_text c = fst c @ '' '' @ join_with '' '' (snd c)"

lemma commands_text: "map command_text (invocations target path spec) = activation_commands spec target path"
  by (cases target) (simp_all add: invocations_def activation_commands_def command_text_def)

definition runs_command :: "os_env \<Rightarrow> string \<times> string list \<Rightarrow> string \<Rightarrow> bool" where
  "runs_command S c text \<longleftrightarrow>
     (\<exists>program. resolve_tool (os_exists S) program = Some (fst c) \<and> text = command_text (program, snd c))"

lemma run_invocations_prefix:
  "run_invocations S cs = (run, r) \<Longrightarrow>
   list_all2 (runs_command S) run (take (length run) (map command_text cs)) \<and>
   (r = Inr () \<longleftrightarrow> length run = length cs \<and> (\<forall>(tool, args) \<in> set run. os_status S tool args = Inr None))"
proof (induction S cs arbitrary: run r rule: run_invocations.induct)
  case (1 S)
  then show ?case by auto
next
  case (2 S program args rest)
  show ?case
  proof (cases "resolve_tool (os_exists S) program")
    case None
    with 2 show ?thesis by auto
  next
    case (Some tool)
    obtain run' r' where rest: "run_invocations S rest = (run', r')" by fastforce
    have one: "runs_command S (tool, args) (command_text (program, args))"
      using Some by (auto simp: runs_command_def)
    show ?thesis
      using 2 Some rest one by (cases "os_status S tool args") (auto split: option.splits)
  qed
qed

lemma find_tool_trusted: "find_tool ex name dirs = Some p \<Longrightarrow> ex p \<and> p \<in> (\<lambda>d. path_join d name) ` set dirs"
  by (induction dirs) (auto simp: Let_def split: if_splits)

lemma runs_trusted: "runs_command S c text \<Longrightarrow> os_exists S (fst c) \<and>
    (\<exists>program. fst c \<in> (\<lambda>d. path_join d program) ` {''/usr/bin'', ''/bin'', ''/usr/sbin'', ''/sbin''})"
  unfolding runs_command_def resolve_tool_def by (metis find_tool_trusted list.simps(15) set_empty2 empty_set)

text \<open>
  \<open>run_activation\<close> runs a prefix of the commands that \<open>activation_commands\<close> shows, each with an
  existing tool of the trusted directories in place of the bare name, and reports success exactly when it
  has run them all and each has succeeded.
\<close>

theorem activation_runs_shown_commands:
  assumes "run_activation S target path spec = (run, r)"
  shows "list_all2 (runs_command S) run (take (length run) (activation_commands spec target path)) \<and>
    (r = Inr () \<longleftrightarrow> length run = length (activation_commands spec target path) \<and>
       (\<forall>(tool, args) \<in> set run. os_status S tool args = Inr None)) \<and>
    (\<forall>(tool, args) \<in> set run. os_exists S tool \<and>
       (\<exists>program. tool \<in> (\<lambda>d. path_join d program) ` {''/usr/bin'', ''/bin'', ''/usr/sbin'', ''/sbin''}))"
proof (intro conjI)
  note p = run_invocations_prefix [OF assms [unfolded run_activation_def]]
  show prefix: "list_all2 (runs_command S) run (take (length run) (activation_commands spec target path))"
    using p by (simp add: commands_text)
  have "length (activation_commands spec target path) = length (invocations target path spec)"
    by (simp flip: commands_text)
  then show "r = Inr () \<longleftrightarrow> length run = length (activation_commands spec target path) \<and>
       (\<forall>(tool, args) \<in> set run. os_status S tool args = Inr None)" using p by simp
  have "\<exists>text. runs_command S c text" if "c \<in> set run" for c
    using prefix that by (auto simp: list_all2_conv_all_nth in_set_conv_nth)
  then show "\<forall>(tool, args) \<in> set run. os_exists S tool \<and>
       (\<exists>program. tool \<in> (\<lambda>d. path_join d program) ` {''/usr/bin'', ''/bin'', ''/usr/sbin'', ''/sbin''})"
    using runs_trusted by fastforce
qed

definition demo_spec :: service_spec where
  "demo_spec = \<lparr>sp_unit_name = ''sp'', sp_description = ''d'', sp_exec_path = ''/opt/sp'', sp_args = [''-c''], sp_launchd_label = ''l''\<rparr>"

definition demo_os :: os_env where
  "demo_os = \<lparr>os_exists = (\<lambda>p. p = ''/bin/systemctl''),
     os_status = (\<lambda>_ as. if as = [''daemon-reload''] then Inr None else Inr (Some ''exit status: 1''))\<rparr>"

lemma demo_activation: "run_activation demo_os SystemdSystem ''u'' demo_spec =
    ([(''/bin/systemctl'', [''daemon-reload'']), (''/bin/systemctl'', [''enable'', ''--now'', ''sp''])],
     Inl (CommandFailed ''systemctl enable --now sp'' ''exit status: 1''))"
  by (simp add: run_activation_def invocations_def demo_os_def demo_spec_def resolve_tool_def Let_def path_join_def starts_with_def)

theorem activation_runs_shown_commands_witness:
  "runs_command demo_os (''/bin/systemctl'', [''enable'', ''--now'', ''sp'']) ''systemctl enable --now sp''"
  using activation_runs_shown_commands [OF demo_activation]
  by (simp add: activation_commands_def demo_spec_def)

subsection \<open>Files are replaced as a whole\<close>

lemma drop_tail_split: "\<exists>t. r = t @ drop_tail r \<and> set t \<subseteq> {CHR ''/'', CHR ''.''}"
proof (induction r rule: drop_tail.induct)
  case (2 c r)
  show ?case
  proof (cases "c = CHR ''/''")
    case True
    with 2 obtain t where "r = t @ drop_tail r" "set t \<subseteq> {CHR ''/'', CHR ''.''}" by blast
    with True show ?thesis by (intro exI [of _ "c # t"]) simp
  next
    case False
    show ?thesis
    proof (cases "c = CHR ''.'' \<and> r \<noteq> [] \<and> hd r = CHR ''/''")
      case True
      with 2 False obtain t where "tl r = t @ drop_tail (tl r)" "set t \<subseteq> {CHR ''/'', CHR ''.''}" by blast
      with True False show ?thesis by (intro exI [of _ "c # hd r # t"]) (cases r; simp)
    next
      case nothing: False
      with False show ?thesis by (intro exI [of _ "[]"]) auto
    qed
  qed
qed simp

lemma path_split: "\<exists>t. path = directory_part path @ file_name path @ t \<and> set t \<subseteq> {CHR ''/'', CHR ''.''}"
proof -
  obtain t where t: "rev path = t @ drop_tail (rev path)" "set t \<subseteq> {CHR ''/'', CHR ''.''}"
    using drop_tail_split by blast
  have "drop_tail (rev path) = rev (file_name path) @ rev (directory_part path)"
    by (simp add: file_name_def directory_part_def)
  with t(1) have "path = directory_part path @ file_name path @ rev t"
    by (metis append_assoc rev_append rev_rev_ident)
  with t(2) show ?thesis by (intro exI [of _ "rev t"]) auto
qed

lemma stem_split: "file_stem name = name \<or> (\<exists>e. name = file_stem name @ CHR ''.'' # e \<and> CHR ''.'' \<notin> set e)"
proof (cases "file_stem name = name")
  case False
  let ?d = "dropWhile (\<lambda>c. c \<noteq> CHR ''.'') (rev name)" and ?e = "takeWhile (\<lambda>c. c \<noteq> CHR ''.'') (rev name)"
  from False have dot: "CHR ''.'' \<in> set name" and stem: "file_stem name = rev (tl ?d)"
    by (auto simp: file_stem_def Let_def split: if_splits)
  from dot have "?d \<noteq> []" by (simp add: dropWhile_eq_Nil_conv) 
  moreover from this have "hd ?d = CHR ''.''" using hd_dropWhile [of "\<lambda>c. c \<noteq> CHR ''.''" "rev name"] by simp
  ultimately have "rev name = ?e @ CHR ''.'' # tl ?d" by (metis list.collapse takeWhile_dropWhile_id)
  then have "name = rev (tl ?d) @ CHR ''.'' # rev ?e"
    by (metis append.assoc append_Cons append_Nil rev.simps(2) rev_append rev_rev_ident)
  with stem show ?thesis by (intro disjI2 exI [of _ "rev ?e"]) (auto dest: set_takeWhileD)
qed simp

lemma with_extension_differs:
  assumes "has_file_name path" and "CHR ''.'' \<in> set ext" and "last ext \<notin> {CHR ''/'', CHR ''.''}"
  shows "with_extension path ext \<noteq> path"
proof
  assume eq: "with_extension path ext = path"
  obtain t where t: "path = directory_part path @ file_name path @ t" "set t \<subseteq> {CHR ''/'', CHR ''.''}"
    using path_split by blast
  have "directory_part path @ file_stem (file_name path) @ ''.'' @ ext = directory_part path @ file_name path @ t"
    using eq assms(1) t(1) unfolding with_extension_def by simp
  then have eq': "file_stem (file_name path) @ ''.'' @ ext = file_name path @ t" by simp
  have ext: "ext \<noteq> []" using assms(2) by auto
  from stem_split [of "file_name path"] show False
  proof
    assume "file_stem (file_name path) = file_name path"
    with eq' have "t = ''.'' @ ext" by (metis same_append_eq)
    with ext have "last ext \<in> set t" by simp
    with t(2) assms(3) show False by blast
  next
    assume "\<exists>e. file_name path = file_stem (file_name path) @ CHR ''.'' # e \<and> CHR ''.'' \<notin> set e"
    then obtain e where e: "file_name path = file_stem (file_name path) @ CHR ''.'' # e" "CHR ''.'' \<notin> set e" by blast
    have "file_stem (file_name path) @ CHR ''.'' # ext = file_stem (file_name path) @ CHR ''.'' # (e @ t)"
      using eq' e(1) by (metis append.assoc append_Cons append_Nil)
    then have x: "ext = e @ t" by simp
    have "t = []"
    proof (rule ccontr)
      assume "t \<noteq> []"
      with x have "last ext \<in> set t" by simp
      with t(2) assms(3) show False by blast
    qed
    with x assms(2) e(2) show False by simp
  qed
qed

lemma numbered_extension_differs:
  assumes "has_file_name path" and "CHR ''.'' \<in> set ext"
  shows "with_extension path (ext @ show_nat n) \<noteq> path"
proof (rule with_extension_differs [OF assms(1)])
  have "last (show_nat n) \<in> set (show_nat n)" by simp
  then have "48 \<le> (of_char (last (show_nat n)) :: nat)" using show_nat_chars by blast
  then show "last (ext @ show_nat n) \<notin> {CHR ''/'', CHR ''.''}" by auto
qed (use assms(2) in simp)

lemma replace_file_atomic:
  assumes "tmp \<noteq> path" and "replace_file W tmp path contents mode fs = (states, r)"
  shows "(\<forall>f \<in> set states. f path \<in> {fs path, Some (contents, mode)} \<and>
      (\<forall>p. f p \<noteq> fs p \<longrightarrow> p \<in> {path, tmp} \<and> (\<forall>text m. f p = Some (text, m) \<longrightarrow> m = mode))) \<and>
    (r = Inr () \<longrightarrow> last states path = Some (contents, mode))"
  using assms by (auto simp: replace_file_def Let_def split: option.splits if_splits)

text \<open>
  C30: At every moment of \<open>write_config_file\<close>, so also when it fails or the machine stops, the file at the
  path is either the old one or the complete new one; no other file but the temporary one
  changes, and whatever the call has put down carries the mode 0600 when it is a secret. It
  reports success only with the new file in place.
\<close>

theorem config_write_atomic:
  assumes "has_file_name path" and "write_config_file W path contents secret fs = (states, r)"
  shows "(\<forall>f \<in> set states. f path \<in> {fs path, Some (contents, if secret then 384 else 420)} \<and>
      (\<forall>p. f p \<noteq> fs p \<longrightarrow> p \<in> {path, with_extension path (''tmp.'' @ show_nat (wr_pid W))} \<and>
         (\<forall>text mode. f p = Some (text, mode) \<longrightarrow> mode = (if secret then 384 else 420)))) \<and>
    (r = Inr () \<longrightarrow> last states path = Some (contents, if secret then 384 else 420))"
proof -
  let ?tmp = "with_extension path (''tmp.'' @ show_nat (wr_pid W))"
  have tmp: "?tmp \<noteq> path" using assms(1) by (rule numbered_extension_differs) simp
  show ?thesis
  proof (cases "wr_parent W")
    case None
    with assms(2) have "replace_file W ?tmp path contents (if secret then 384 else 420) fs = (states, r)"
      by (simp add: write_config_file_def Let_def)
    from replace_file_atomic [OF tmp this] show ?thesis .
  next
    case (Some e)
    with assms(2) show ?thesis by (auto simp: write_config_file_def)
  qed
qed

definition demo_write :: write_env where
  "demo_write = \<lparr>wr_pid = 7, wr_parent = None, wr_removes = True, wr_open = None, wr_write = None, wr_rename = None\<rparr>"

theorem config_write_atomic_witness:
  "\<exists>states. write_config_file demo_write ''/e/c.toml'' ''k'' True (\<lambda>_. None) = (states, Inr ()) \<and>
     last states ''/e/c.toml'' = Some (''k'', 384)"
proof -
  have n: "has_file_name ''/e/c.toml''" by (simp add: has_file_name_def file_name_def)
  obtain states where w: "write_config_file demo_write ''/e/c.toml'' ''k'' True (\<lambda>_. None) = (states, Inr ())"
    by (simp add: write_config_file_def replace_file_def demo_write_def Let_def)
  from config_write_atomic [OF n w] w show ?thesis by simp
qed

end
