(* ===== verification/Setup.thy ===== *)
theory Setup
  imports Config Crypto Net Service
begin

text \<open>
  The commands that write configurations, \<open>signedpulse-server/src/cli.rs\<close> (\<open>init\<close>,
  \<open>add-client\<close>, \<open>install-service\<close>) and \<open>signedpulse-client/src/cli.rs\<close> (\<open>init\<close>,
  \<open>add-server\<close>, \<open>install-service\<close>): the checks of their arguments, the texts they write and the
  commands they suggest. Each command is a function from its arguments to the text it writes or an
  error; \<open>write_config_file\<close> then puts the text in place. The TOML parser and the parser of socket
  addresses are parameters: a loaded configuration and a parsed address are arguments.
\<close>

subsection \<open>Checks\<close>

datatype setup_error =
    ConfigExists
  | KeyNeeded
  | EmptyValue string
  | BadToken string
  | BadAddress
  | BadClientId
  | BadPublicKey crypto_error
  | BadServerEncKey crypto_error
  | BadLabel
  | AlreadyAuthorized string
  | NameIsPrimary string
  | NameConfigured string

definition ascii_alnum :: "char \<Rightarrow> bool" where
  "ascii_alnum c \<longleftrightarrow>
     (let n = (of_char c :: nat) in 48 \<le> n \<and> n \<le> 57 \<or> 65 \<le> n \<and> n \<le> 90 \<or> 97 \<le> n \<and> n \<le> 122)"

definition validate_token :: "string \<Rightarrow> string \<Rightarrow> (setup_error, unit) res" where
  "validate_token field value =
     (if value = [] then Inl (EmptyValue field)
      else if \<not> list_all (\<lambda>c. ascii_alnum c \<or> c = CHR ''-'' \<or> c = CHR ''_'' \<or> c = CHR ''.'') value
      then Inl (BadToken field) else Inr ())"

text \<open>\<open>char::is_whitespace\<close> on code points.\<close>

definition is_whitespace :: "nat \<Rightarrow> bool" where
  "is_whitespace cp \<longleftrightarrow>
     9 \<le> cp \<and> cp \<le> 13 \<or> cp = 32 \<or> cp = 133 \<or> cp = 160 \<or> cp = 5760 \<or> 8192 \<le> cp \<and> cp \<le> 8202 \<or>
     cp = 8232 \<or> cp = 8233 \<or> cp = 8239 \<or> cp = 8287 \<or> cp = 12288"

definition any_char :: "(nat \<Rightarrow> bool) \<Rightarrow> string \<Rightarrow> bool" where
  "any_char Q s = (case utf8_decode (codes s) of Some cps \<Rightarrow> list_ex Q cps | None \<Rightarrow> False)"

definition validate_addr :: "string \<Rightarrow> (setup_error, unit) res" where
  "validate_addr value =
     (if value = [] then Inl (EmptyValue ''--server'')
      else if any_char (\<lambda>c. c = 34 \<or> c = 92 \<or> is_whitespace c \<or> is_control c) value then Inl BadAddress
      else Inr ())"

definition check_label :: "string option \<Rightarrow> (setup_error, unit) res" where
  "check_label label =
     (case label of
        None \<Rightarrow> Inr ()
      | Some l \<Rightarrow> if any_char (\<lambda>c. c = 34 \<or> c = 92 \<or> is_control c) l then Inl BadLabel else Inr ())"

definition toml_table_key :: "string \<Rightarrow> string" where
  "toml_table_key s =
     (if list_all (\<lambda>c. ascii_alnum c \<or> c = CHR ''_'' \<or> c = CHR ''-'') s then s else quoted s)"

subsection \<open>Addresses\<close>

definition DEFAULT_PORT :: nat where "DEFAULT_PORT = 7370"

definition normalize_addr :: "(string \<Rightarrow> (ip_addr \<times> nat) option) \<Rightarrow> string \<Rightarrow> string" where
  "normalize_addr parse_socket input =
     (if parse_socket input \<noteq> None then input
      else if CHR '':'' \<in> set input then input
      else input @ '':'' @ show_nat DEFAULT_PORT)"

definition is_unspecified :: "ip_addr \<Rightarrow> bool" where
  "is_unspecified ip = (case ip of V4 a b c d \<Rightarrow> a = 0 \<and> b = 0 \<and> c = 0 \<and> d = 0 | V6 ws \<Rightarrow> list_all (\<lambda>w. w = 0) ws)"

definition is_loopback :: "ip_addr \<Rightarrow> bool" where
  "is_loopback ip = (case ip of V4 a b c d \<Rightarrow> a = 127 | V6 ws \<Rightarrow> ws = [0, 0, 0, 0, 0, 0, 0, 1])"

definition host_with_port :: "ip_addr \<Rightarrow> nat \<Rightarrow> string" where
  "host_with_port ip port =
     (if port = DEFAULT_PORT then ip_to_string ip
      else case ip of
        V6 _ \<Rightarrow> ''['' @ ip_to_string ip @ '']:'' @ show_nat port
      | V4 _ _ _ _ \<Rightarrow> ip_to_string ip @ '':'' @ show_nat port)"

text \<open>
  \<open>discover_outbound_ip\<close>: for each of the two routes tried, the local address of the connected
  socket, when there is one.
\<close>

fun discover_outbound_ip :: "ip_addr option list \<Rightarrow> ip_addr option" where
  "discover_outbound_ip [] = None"
| "discover_outbound_ip (None # rs) = discover_outbound_ip rs"
| "discover_outbound_ip (Some ip # rs) =
     (if \<not> is_unspecified ip \<and> \<not> is_loopback ip then Some ip else discover_outbound_ip rs)"

definition suggest_host :: "(string \<Rightarrow> (ip_addr \<times> nat) option) \<Rightarrow> ip_addr option list \<Rightarrow> string \<Rightarrow> string" where
  "suggest_host parse_socket routes bind =
     (case parse_socket bind of
        Some (ip, port) \<Rightarrow>
          if \<not> is_unspecified ip then host_with_port ip port
          else (case discover_outbound_ip routes of Some ip \<Rightarrow> host_with_port ip port | None \<Rightarrow> ''<HOST>'')
      | None \<Rightarrow> ''<HOST>'')"

subsection \<open>Server: init and add-client\<close>

definition key_value :: "string \<Rightarrow> string \<Rightarrow> string" where
  "key_value k v = k @ '' = '' @ quoted v"

record init_args =
  in_bind :: string
  in_server_id :: string
  in_hook :: string
  in_no_encryption :: bool
  in_force :: bool

definition server_config_text :: "init_args \<Rightarrow> string \<Rightarrow> string" where
  "server_config_text args enc_secret =
     unlines
      [''# Generated by `signedpulse-server init`.'',
       ''[server]'',
       key_value ''bind'' (in_bind args),
       key_value ''server_id'' (in_server_id args),
       ''nonce_ttl_seconds = 30'',
       ''command_timeout_seconds = 10'',
       ''client_cooldown_seconds = 60'',
       ''max_packet_size = 2048'',
       ''hello_rate_max = 30'',
       ''hello_rate_window_seconds = 60'',
       ''hello_max_skew_seconds = 30'',
       ''max_faulty_packets = 10'',
       ''blacklist_seconds = 300'',
       key_value ''wire_encryption'' (if in_no_encryption args then ''off'' else ''required''),
       key_value ''encryption_private_key'' enc_secret,
       [],
       ''[command]'',
       ''# Placeholders {ip}, {client_id}, {source_port}, {param} are'',
       ''# substituted as literal arguments. No shell unless allow_shell = true.'',
       ''argv = ['' @ quoted (in_hook args) @ '', '' @ quoted ''{ip}'' @ '', '' @ quoted ''{client_id}'' @ '', '' @
         quoted ''{param}'' @ '']'',
       key_value ''working_dir'' ''/'',
       ''max_concurrent = 4'',
       ''allow_shell = false'',
       [],
       ''# Authorize clients with: signedpulse-server add-client --client-id HEX --public-key KEY'']"

text \<open>The text written and the public key that is printed; \<open>secret\<close> is the random X25519 secret.\<close>

definition init_server :: "primitives \<Rightarrow> bytes \<Rightarrow> bool \<Rightarrow> init_args \<Rightarrow> (setup_error, string \<times> string) res" where
  "init_server P secret exists args =
     (if exists \<and> \<not> in_force args then Inl ConfigExists
      else res_bind (validate_token ''--server-id'' (in_server_id args)) (\<lambda>_.
        let (enc_secret, enc_public) = generate_encryption_keypair P secret
        in Inr (server_config_text args enc_secret, enc_public)))"

definition suggested_commands :: "string \<Rightarrow> string \<Rightarrow> string \<Rightarrow> string list" where
  "suggested_commands host server_id enc_public =
     [''signedpulse-client init --server '' @ host @ '' --server-id '' @ quoted server_id @ '' --server-key '' @ quoted enc_public,
      ''signedpulse-client add-server --name '' @ quoted server_id @ '' --server '' @ host @ '' --server-id '' @
        quoted server_id @ '' --server-key '' @ quoted enc_public]"

definition terminated :: "string \<Rightarrow> string" where
  "terminated text = (if text \<noteq> [] \<and> last text = line_feed then text else text @ [line_feed])"

record add_client_args =
  ac_client_id :: string
  ac_public_key :: string
  ac_label :: "string option"

definition client_lines :: "add_client_args \<Rightarrow> string list" where
  "client_lines args =
     [[], ''[[clients]]'', key_value ''client_id'' (ac_client_id args), key_value ''public_key'' (ac_public_key args)] @
     (case ac_label args of None \<Rightarrow> [] | Some l \<Rightarrow> [key_value ''label'' l])"

text \<open>From the loaded configuration and the text of its file to the text that is written.\<close>

definition add_client ::
  "primitives \<Rightarrow> server_config \<Rightarrow> string \<Rightarrow> add_client_args \<Rightarrow> (setup_error, string) res may_panic" where
  "add_client P existing text args =
     (case from_hex (ac_client_id args) of
        Panics \<Rightarrow> Panics
      | Returns (Inl _) \<Rightarrow> Returns (Inl BadClientId)
      | Returns (Inr _) \<Rightarrow> Returns
          (case load_verifying_key P (ac_public_key args) of
             Inl e \<Rightarrow> Inl (BadPublicKey e)
           | Inr _ \<Rightarrow>
               res_bind (check_label (ac_label args)) (\<lambda>_.
               if list_ex (\<lambda>c. map ascii_lower (ce_client_id c) = map ascii_lower (ac_client_id args)) (sc_clients existing)
               then Inl (AlreadyAuthorized (ac_client_id args))
               else Inr (terminated text @ unlines (client_lines args)))))"

subsection \<open>Client: init and add-server\<close>

record client_init_args =
  ci_server :: string
  ci_server_key :: "string option"
  ci_client_id :: "string option"
  ci_label :: "string option"
  ci_server_id :: string
  ci_interval :: nat
  ci_no_encryption :: bool
  ci_force :: bool

definition interval_line :: "nat \<Rightarrow> string" where
  "interval_line n = ''interval_seconds = '' @ show_nat n"

definition client_config_lines :: "string \<Rightarrow> string \<Rightarrow> string \<Rightarrow> client_init_args \<Rightarrow> string list" where
  "client_config_lines client_id server_addr private_key args =
     [''# Generated by `signedpulse-client init`.'',
      ''[client]'',
      key_value ''client_id'' client_id,
      key_value ''server_addr'' server_addr,
      key_value ''server_id'' (ci_server_id args),
      interval_line (ci_interval args),
      key_value ''private_key'' private_key,
      ''retry_initial_ms = 500'',
      ''retry_max_ms = 4000'',
      ''retries = 3'',
      ''wire_encryption = '' @ (if ci_no_encryption args then ''false'' else ''true'')] @
     (case ci_server_key args of None \<Rightarrow> [] | Some key \<Rightarrow> [key_value ''server_encryption_key'' key])"

text \<open>\<open>random_id\<close> and \<open>seed\<close> are the random identifier and the random Ed25519 seed.\<close>

definition init_client ::
  "primitives \<Rightarrow> (string \<Rightarrow> (ip_addr \<times> nat) option) \<Rightarrow> bytes \<Rightarrow> bytes \<Rightarrow> bool \<Rightarrow> client_init_args \<Rightarrow>
   (setup_error, string) res may_panic" where
  "init_client P parse_socket random_id seed exists args =
     (if exists \<and> \<not> ci_force args then Returns (Inl ConfigExists)
      else if \<not> ci_no_encryption args \<and> ci_server_key args = None then Returns (Inl KeyNeeded)
      else
        case res_bind (validate_token ''--server-id'' (ci_server_id args)) (\<lambda>_.
               case ci_label args of None \<Rightarrow> Inr () | Some l \<Rightarrow> validate_token ''--label'' l) of
          Inl e \<Rightarrow> Returns (Inl e)
        | Inr _ \<Rightarrow>
            (case (case ci_client_id args of
                     None \<Rightarrow> Returns (Inr (to_hex (ClientId random_id)))
                   | Some i \<Rightarrow>
                       (case from_hex i of
                          Panics \<Rightarrow> Panics
                        | Returns (Inl _) \<Rightarrow> Returns (Inl BadClientId)
                        | Returns (Inr _) \<Rightarrow> Returns (Inr i))) of
               Panics \<Rightarrow> Panics
             | Returns (Inl e) \<Rightarrow> Returns (Inl e)
             | Returns (Inr client_id) \<Rightarrow> Returns (
                 let server_addr = normalize_addr parse_socket (ci_server args) in
                 res_bind (validate_addr server_addr) (\<lambda>_.
                 Inr (unlines (client_config_lines client_id server_addr (fst (generate_keypair P seed)) args))))))"

record add_server_args =
  as_name :: string
  as_server :: string
  as_server_key :: "string option"
  as_server_id :: "string option"
  as_interval :: "nat option"
  as_no_encryption :: bool

definition table_header :: "string \<Rightarrow> string" where
  "table_header name = ''[client.servers.'' @ toml_table_key name @ '']''"

definition server_lines :: "string \<Rightarrow> string \<Rightarrow> add_server_args \<Rightarrow> string list" where
  "server_lines server_id server_addr args =
     [[], table_header (as_name args), key_value ''server_addr'' server_addr] @
     (if server_id \<noteq> as_name args then [key_value ''server_id'' server_id] else []) @
     (case as_server_key args of None \<Rightarrow> [] | Some key \<Rightarrow> [key_value ''server_encryption_key'' key]) @
     (if as_no_encryption args then [''wire_encryption = false''] else []) @
     (case as_interval args of None \<Rightarrow> [] | Some n \<Rightarrow> [interval_line n])"

definition add_server ::
  "primitives \<Rightarrow> (string \<Rightarrow> (ip_addr \<times> nat) option) \<Rightarrow> client_section \<Rightarrow> string \<Rightarrow> add_server_args \<Rightarrow>
   (setup_error, string) res" where
  "add_server P parse_socket existing text args =
     (let name = as_name args; server_id = unwrap_or (as_server_id args) name in
      res_bind (validate_token ''--name'' name) (\<lambda>_.
      if name = cs_server_id existing then Inl (NameIsPrimary name)
      else if map_of (cs_servers existing) name \<noteq> None then Inl (NameConfigured name)
      else res_bind (validate_token ''--server-id'' server_id) (\<lambda>_.
      if \<not> as_no_encryption args \<and> as_server_key args = None then Inl KeyNeeded
      else res_bind (case as_server_key args of
          None \<Rightarrow> Inr ()
        | Some key \<Rightarrow> (case x25519_from_base64 P key of Inl e \<Rightarrow> Inl (BadServerEncKey e) | Inr _ \<Rightarrow> Inr ())) (\<lambda>_.
      let server_addr = normalize_addr parse_socket (as_server args) in
      res_bind (validate_addr server_addr) (\<lambda>_.
      Inr (terminated text @ unlines (server_lines server_id server_addr args)))))))"

subsection \<open>The services\<close>

definition server_service :: "string \<Rightarrow> string \<Rightarrow> bool \<Rightarrow> service_spec \<times> service_target" where
  "server_service exec_path config_path user =
     (\<lparr>sp_unit_name = ''signedpulse-server'', sp_description = ''SignedPulse server'', sp_exec_path = exec_path,
       sp_args = [''--config'', config_path], sp_launchd_label = ''com.signedpulse.server''\<rparr>,
      if user then SystemdUser else SystemdSystem)"

definition client_service :: "string \<Rightarrow> string \<Rightarrow> bool \<Rightarrow> bool \<Rightarrow> service_spec \<times> service_target" where
  "client_service exec_path config_path user macos =
     (\<lparr>sp_unit_name = ''signedpulse-client'', sp_description = ''SignedPulse client'', sp_exec_path = exec_path,
       sp_args = [''--config'', config_path], sp_launchd_label = ''com.signedpulse.client''\<rparr>,
      if user then SystemdUser else if macos then LaunchdAgent else SystemdSystem)"

subsection \<open>Values that stay inside their line\<close>

text \<open>
  A line \<open>key = "value"\<close> of TOML, read by the rule for basic strings without escapes: the value
  ends at the next quote, which must end the line, and holds no backslash and no ASCII control
  character.
\<close>

definition line_safe :: "string \<Rightarrow> bool" where
  "line_safe v \<longleftrightarrow> (\<forall>c \<in> set v. c \<noteq> dquote \<and> c \<noteq> backslash \<and> \<not> ascii_control c)"

definition read_entry :: "string \<Rightarrow> (string \<times> string) option" where
  "read_entry l =
     (let k = takeWhile (\<lambda>c. c \<noteq> CHR '' '') l;
          rest = drop (length k) l;
          v = takeWhile (\<lambda>c. c \<noteq> dquote) (drop 4 rest)
      in if starts_with rest ('' = '' @ [dquote]) \<and> drop (4 + length v) rest = [dquote] \<and> line_safe v
         then Some (k, v) else None)"

lemma read_entry_key_value: "CHR '' '' \<notin> set k \<Longrightarrow> line_safe v \<Longrightarrow> read_entry (key_value k v) = Some (k, v)"
proof -
  assume k: "CHR '' '' \<notin> set k" and v: "line_safe v"
  have 1: "takeWhile (\<lambda>c. c \<noteq> CHR '' '') (k @ CHR '' '' # r) = k" for r
    using k by (subst takeWhile_append2) auto
  have 2: "takeWhile (\<lambda>c. c \<noteq> dquote) (v @ [dquote]) = v"
    using v by (subst takeWhile_append2) (auto simp: line_safe_def)
  have 3: "drop (4 + length v) (CHR '' '' # CHR ''='' # CHR '' '' # dquote # v @ [dquote]) = [dquote]"
    by (simp add: eval_nat_numeral)
  show ?thesis using v by (simp add: read_entry_def key_value_def quoted_def 1 2 3 starts_with_def)
qed

lemma clean_newline: "line_safe v \<Longrightarrow> line_feed \<notin> set v"
  unfolding line_safe_def by (rule notI, drule bspec, assumption) (simp add: ascii_control_def)

lemma key_value_line: "line_feed \<notin> set k \<Longrightarrow> line_safe v \<Longrightarrow> line_feed \<notin> set (key_value k v)"
  by (simp add: key_value_def quoted_def clean_newline)

lemma clean_range:
  "\<forall>c \<in> set v. 33 \<le> (of_char c :: nat) \<and> (of_char c :: nat) \<noteq> 34 \<and> (of_char c :: nat) \<noteq> 92 \<and> (of_char c :: nat) \<noteq> 127 \<Longrightarrow> line_safe v"
  by (auto simp: line_safe_def ascii_control_def)

lemma token_clean: "validate_token f v = Inr u \<Longrightarrow> line_safe v"
proof (rule clean_range, rule ballI)
  fix c
  assume "validate_token f v = Inr u" and "c \<in> set v"
  then have "ascii_alnum c \<or> c = CHR ''-'' \<or> c = CHR ''_'' \<or> c = CHR ''.''"
    by (auto simp: validate_token_def list_all_iff split: if_splits)
  then show "33 \<le> (of_char c :: nat) \<and> (of_char c :: nat) \<noteq> 34 \<and> (of_char c :: nat) \<noteq> 92 \<and> (of_char c :: nat) \<noteq> 127"
    by (auto simp: ascii_alnum_def Let_def)
qed

lemma any_char_clean:
  assumes "valid_utf8 v" and "\<not> any_char Q v" and "\<forall>c. c = 34 \<or> c = 92 \<or> is_control c \<longrightarrow> Q c"
  shows "line_safe v"
proof -
  obtain cps where d: "utf8_decode (codes v) = Some cps" using assms(1) by (auto simp: valid_utf8_def)
  have "\<not> Q (of_char c)" if "c \<in> set v" "(of_char c :: nat) < 128" for c
  proof -
    have "of_char c \<in> set cps" using utf8_decode_keeps_ascii [OF d, of "of_char c"] that by (auto simp: codes_def)
    with assms(2) d show ?thesis by (auto simp: any_char_def list_ex_iff)
  qed
  with assms(3) show ?thesis
    by (fastforce simp: line_safe_def ascii_control_def is_control_def)
qed

lemma addr_clean: "validate_addr v = Inr u \<Longrightarrow> valid_utf8 v \<Longrightarrow> line_safe v"
  by (rule any_char_clean [of _ "\<lambda>c. c = 34 \<or> c = 92 \<or> is_whitespace c \<or> is_control c"])
     (auto simp: validate_addr_def split: if_splits)

lemma label_clean: "check_label (Some l) = Inr u \<Longrightarrow> valid_utf8 l \<Longrightarrow> line_safe l"
  by (rule any_char_clean [of _ "\<lambda>c. c = 34 \<or> c = 92 \<or> is_control c"])
     (auto simp: check_label_def split: if_splits)

text \<open>
  The base64 engine emits only letters, digits and \<open>+/=\<close> and decodes nothing else, as its
  documentation says of the standard alphabet.
\<close>

definition b64_char :: "char \<Rightarrow> bool" where
  "b64_char c \<longleftrightarrow> ascii_alnum c \<or> c = CHR ''+'' \<or> c = CHR ''/'' \<or> c = CHR ''=''"

definition b64_alphabet :: "primitives \<Rightarrow> bool" where
  "b64_alphabet P \<longleftrightarrow> (\<forall>b. list_all b64_char (b64_encode P b)) \<and>
     (\<forall>s b. b64_decode P s = Some b \<longrightarrow> list_all b64_char s)"

lemma b64_clean: "list_all b64_char s \<Longrightarrow> line_safe s"
  by (rule clean_range) (auto simp: list_all_iff b64_char_def ascii_alnum_def Let_def)

lemma decoded_clean: "b64_alphabet P \<Longrightarrow> b64_decode_res P s = Inr b \<Longrightarrow> line_safe s"
  by (auto simp: b64_alphabet_def b64_decode_res_def intro: b64_clean split: option.splits)

text \<open>The characters of an accepted identifier without spaces around it.\<close>

definition id_char :: "char \<Rightarrow> bool" where
  "id_char c \<longleftrightarrow> hex_val c \<noteq> None \<or> c = CHR ''+''"

lemma hex_digits_chars: "hex_digits acc s = Some n \<Longrightarrow> list_all (\<lambda>c. hex_val c \<noteq> None) s"
  by (induction acc s rule: hex_digits.induct) (auto split: option.splits if_splits)

lemma u8_chars: "u8_from_str_radix16 s = Some n \<Longrightarrow> list_all id_char s"
  by (cases s) (auto simp: u8_from_str_radix16.simps id_char_def list_all_iff simp del: hex_digits.simps
      split: if_splits dest!: hex_digits_chars)

lemma from_hex_loop_chars:
  "from_hex_loop s i k = Returns (Inr bs) \<Longrightarrow> 2 * (i + k) \<le> length s \<Longrightarrow>
   \<forall>j. 2 * i \<le> j \<and> j < 2 * (i + k) \<longrightarrow> id_char (s ! j)"
proof (induction k arbitrary: i bs)
  case (Suc k)
  from Suc.prems obtain t n bs' where t: "str_slice s (2 * i) (2 * i + 2) = Returns t" "u8_from_str_radix16 t = Some n"
    "from_hex_loop s (Suc i) k = Returns (Inr bs')"
    by (auto split: may_panic.splits option.splits sum.splits)
  then have "t = take 2 (drop (2 * i) s)" by (auto simp: str_slice_def split: if_splits)
  with u8_chars [OF t(2)] Suc.prems(2) have "\<forall>n < 2. id_char (s ! (2 * i + n))" by (auto simp: list_all_length)
  from this [rule_format, of 0] this [rule_format, of 1] have first: "id_char (s ! (2 * i))" "id_char (s ! Suc (2 * i))"
    by simp_all
  from Suc.IH [OF t(3)] Suc.prems(2) have rest: "\<forall>j. 2 * Suc i \<le> j \<and> j < 2 * (Suc i + k) \<longrightarrow> id_char (s ! j)" by simp
  show ?case
  proof (intro allI impI)
    fix j
    assume "2 * i \<le> j \<and> j < 2 * (i + Suc k)"
    then have "j = 2 * i \<or> j = Suc (2 * i) \<or> 2 * Suc i \<le> j \<and> j < 2 * (Suc i + k)" by auto
    with first rest show "id_char (s ! j)" by blast
  qed
qed auto

lemma id_chars: "from_hex s = Returns (Inr i) \<Longrightarrow> trim s = s \<Longrightarrow> \<forall>c \<in> set s. id_char c"
proof -
  assume "from_hex s = Returns (Inr i)" and "trim s = s"
  then have l: "length s = CLIENT_ID_LEN * 2" and loop: "\<exists>bs. from_hex_loop s 0 CLIENT_ID_LEN = Returns (Inr bs)"
    by (auto simp: from_hex_def Let_def split: if_splits may_panic.splits sum.splits)
  then have "\<forall>j < length s. id_char (s ! j)" using from_hex_loop_chars [of s 0 CLIENT_ID_LEN] by auto
  then show ?thesis by (auto simp: in_set_conv_nth)
qed

lemma id_clean: "from_hex s = Returns (Inr i) \<Longrightarrow> trim s = s \<Longrightarrow> line_safe s"
  by (rule clean_range, drule (1) id_chars)
     (fastforce simp: id_char_def hex_val_def Let_def split: if_splits)

lemma lines_of_terminated: "lines_from acc (s @ line_feed # t) = lines_from acc (s @ [line_feed]) @ lines_of t"
  by (induction s arbitrary: acc) auto

lemma lines_of_append: "lines_of (terminated text @ t) = lines_of (terminated text) @ lines_of t"
proof -
  obtain s where "terminated text = s @ [line_feed]"
    by (cases "text \<noteq> [] \<and> last text = line_feed") (auto simp: terminated_def, metis append_butlast_last_id)
  then show ?thesis using lines_of_terminated [of "[]" s t] by simp
qed

subsection \<open>What the commands write\<close>

text \<open>The lines are lines of their own, and their entries read back as the values.\<close>

definition reads_as :: "string list \<Rightarrow> (string \<times> string) list \<Rightarrow> bool" where
  "reads_as ls es \<longleftrightarrow> lines_of (unlines ls) = ls \<and> List.map_filter read_entry ls = es"

lemma reads_as_intro: "\<forall>l \<in> set ls. line_feed \<notin> set l \<Longrightarrow> List.map_filter read_entry ls = es \<Longrightarrow> reads_as ls es"
  by (simp add: reads_as_def lines_of_unlines)

lemma plain_lines [simp]:
  "read_entry [] = None" "read_entry ''[[clients]]'' = None" "read_entry ''[client]'' = None"
  "read_entry ''# Generated by `signedpulse-client init`.'' = None"
  "read_entry ''retry_initial_ms = 500'' = None" "read_entry ''retry_max_ms = 4000'' = None"
  "read_entry ''retries = 3'' = None" "read_entry ''wire_encryption = false'' = None"
  "read_entry ''wire_encryption = true'' = None" "read_entry (interval_line n) = None" "line_feed \<notin> set (interval_line n)"
proof -
  have "dquote \<notin> set (show_nat n)" using show_nat_chars by fastforce
  then show "read_entry (interval_line n) = None"
    by (cases "show_nat n") (auto simp: interval_line_def read_entry_def Let_def starts_with_def)
qed (simp_all add: interval_line_def, simp_all add: read_entry_def Let_def starts_with_def)

definition label_entries :: "string option \<Rightarrow> (string \<times> string) list" where
  "label_entries l = (case l of None \<Rightarrow> [] | Some v \<Rightarrow> [(''label'', v)])"

text \<open>
  What \<open>add-client\<close> accepts stays in its place: the old lines of the file are kept, and the new ones are a blank one,
  the table header and one entry for each value, which reads back as the value given, so no value
  opens a further entry or table; and no client of the file had this identifier in
  any case of its letters.
\<close>

theorem added_client_keeps_its_lines:
  assumes "b64_alphabet P" and "add_client P existing text args = Returns (Inr text')"
    and "trim (ac_client_id args) = ac_client_id args" and "\<forall>l. ac_label args = Some l \<longrightarrow> valid_utf8 l"
  shows "lines_of text' = lines_of (terminated text) @ client_lines args \<and>
    reads_as (client_lines args)
      ([(''client_id'', ac_client_id args), (''public_key'', ac_public_key args)] @ label_entries (ac_label args)) \<and>
    (\<forall>c \<in> set (sc_clients existing). map ascii_lower (ce_client_id c) \<noteq> map ascii_lower (ac_client_id args))"
proof -
  obtain i where i: "from_hex (ac_client_id args) = Returns (Inr i)"
    using assms(2) by (auto simp: add_client_def split: may_panic.splits sum.splits)
  with assms(2) have rest: "(\<exists>k. load_verifying_key P (ac_public_key args) = Inr k)" "check_label (ac_label args) = Inr ()"
    "\<not> list_ex (\<lambda>c. map ascii_lower (ce_client_id c) = map ascii_lower (ac_client_id args)) (sc_clients existing)"
    "text' = terminated text @ unlines (client_lines args)"
    by (auto simp: add_client_def res_bind_eq_Inr split: sum.splits if_splits)
  have idc: "line_safe (ac_client_id args)" by (rule id_clean [OF i assms(3)])
  have kc: "line_safe (ac_public_key args)"
    using rest(1) decoded_clean [OF assms(1)] by (auto simp: load_verifying_key_def res_bind_eq_Inr)
  have lc: "line_safe l" if "ac_label args = Some l" for l
    using rest(2) assms(4) that label_clean by auto
  have r: "reads_as (client_lines args)
      ([(''client_id'', ac_client_id args), (''public_key'', ac_public_key args)] @ label_entries (ac_label args))"
    using idc kc lc
    by (intro reads_as_intro)
       (auto simp: client_lines_def label_entries_def key_value_line read_entry_key_value map_filter_simps split: option.splits)
  then have "lines_of text' = lines_of (terminated text) @ client_lines args"
    by (simp add: rest(4) lines_of_append reads_as_def)
  with r rest(3) show ?thesis by (auto simp: list_ex_iff)
qed

lemma demo_alphabet: "b64_alphabet demo"
proof -
  have hex: "b64_char c" if "hex_val c = Some d" for c d
    using that by (auto simp: hex_val_def b64_char_def ascii_alnum_def Let_def split: if_splits)
  have enc: "list_all b64_char (hexify b)" for b
  proof (induction b)
    case (Cons x b)
    have "b64_char (hex_char d)" if "d < 16" for d using hex [OF hex_val_hex_char [OF that]] .
    with Cons nibble_bounds [of x] show ?case by simp
  qed simp
  have dec: "unhexify s = Some b \<Longrightarrow> list_all b64_char s" for s b
    by (induction s arbitrary: b rule: unhexify.induct) (auto split: option.splits dest: hex)
  show ?thesis using enc dec by (simp add: b64_alphabet_def demo_def)
qed

definition demo_client_args :: add_client_args where
  "demo_client_args = \<lparr>ac_client_id = to_hex (ClientId (replicate 32 9)), ac_public_key = hexify (replicate 32 2), ac_label = Some ''lab''\<rparr>"

definition demo_existing :: server_config where
  "demo_existing = \<lparr>sc_server = default_server_section ''0.0.0.0:7370'' ''s'', sc_command = default_command_section [''/h''], sc_clients = []\<rparr>"

theorem added_client_keeps_its_lines_witness:
  "\<exists>text'. add_client demo demo_existing ''x'' demo_client_args = Returns (Inr text') \<and>
     lines_of text' = ''x'' # client_lines demo_client_args"
proof -
  let ?i = "ClientId (replicate 32 9)"
  have wf: "wf_client_id ?i" by (simp add: wf_client_id_def CLIENT_ID_LEN_def)
  have trimmed: "trim (to_hex ?i) = to_hex ?i" by (simp add: to_hex_def trim_graphic hex_pairs_graphic)
  have key: "load_verifying_key demo (hexify (replicate 32 2)) = Inr (replicate 32 2)"
    by (simp add: load_verifying_key_def demo_def b64_decode_res_def array_of_def PUBLIC_KEY_LENGTH_def)
  have "check_label (Some ''lab'') = Inr ()" "valid_utf8 ''lab''" by code_simp+
  then obtain text' where a: "add_client demo demo_existing ''x'' demo_client_args = Returns (Inr text')"
    using wf key by (simp add: add_client_def demo_client_args_def from_hex_to_hex demo_existing_def)
  from added_client_keeps_its_lines [OF demo_alphabet a] trimmed \<open>valid_utf8 ''lab''\<close> a show ?thesis
    by (simp add: demo_client_args_def terminated_def)
qed

lemma no_entry_without_space: "CHR '' '' \<notin> set l \<Longrightarrow> read_entry l = None"
proof -
  assume "CHR '' '' \<notin> set l"
  then have tw: "takeWhile (\<lambda>c. c \<noteq> CHR '' '') l = l" by (auto simp: takeWhile_eq_all_conv)
  show ?thesis unfolding read_entry_def Let_def tw by (simp add: starts_with_def)
qed

lemma token_no_space: "validate_token f v = Inr u \<Longrightarrow> CHR '' '' \<notin> set v"
  by (auto simp: validate_token_def list_all_iff ascii_alnum_def Let_def split: if_splits)

lemma newline_not_in_number [simp]: "line_feed \<notin> set (show_nat n)"
  by simp

definition server_entries :: "string \<Rightarrow> string \<Rightarrow> add_server_args \<Rightarrow> (string \<times> string) list" where
  "server_entries server_id server_addr args =
     [(''server_addr'', server_addr)] @ (if server_id \<noteq> as_name args then [(''server_id'', server_id)] else []) @
     (case as_server_key args of None \<Rightarrow> [] | Some key \<Rightarrow> [(''server_encryption_key'', key)])"

text \<open>
  The same of \<open>add-server\<close>: the new table has the given name, which neither the primary server nor another table
  has, and its entries read back as the address, the identifier when it differs from
  the name, and the key.
\<close>

theorem added_server_keeps_its_lines:
  assumes "b64_alphabet P" and "add_server P parse_socket existing text args = Inr text'"
    and "addr = normalize_addr parse_socket (as_server args)" and "valid_utf8 addr"
    and "server_id = unwrap_or (as_server_id args) (as_name args)"
  shows "lines_of text' = lines_of (terminated text) @ server_lines server_id addr args \<and>
    reads_as (server_lines server_id addr args) (server_entries server_id addr args) \<and>
    as_name args \<notin> insert (cs_server_id existing) (set (map fst (cs_servers existing)))"
proof -
  have ok: "validate_token ''--name'' (as_name args) = Inr ()" "as_name args \<noteq> cs_server_id existing"
    "map_of (cs_servers existing) (as_name args) = None" "validate_token ''--server-id'' server_id = Inr ()"
    "\<forall>key. as_server_key args = Some key \<longrightarrow> (\<exists>k. x25519_from_base64 P key = Inr k)"
    "validate_addr addr = Inr ()" "text' = terminated text @ unlines (server_lines server_id addr args)"
    using assms(2,3,5)
    by (auto simp: add_server_def Let_def res_bind_eq_Inr split: if_splits option.splits sum.splits)
  have name: "line_safe (as_name args)" "CHR '' '' \<notin> set (as_name args)"
    using token_clean [OF ok(1)] token_no_space [OF ok(1)] by blast+
  have sid: "line_safe server_id" and ac: "line_safe addr"
    using token_clean [OF ok(4)] addr_clean [OF ok(6) assms(4)] by blast+
  have kc: "line_safe key" if "as_server_key args = Some key" for key
    using ok(5) that decoded_clean [OF assms(1)] by (auto simp: x25519_from_base64_def res_bind_eq_Inr)
  have "line_feed \<notin> set (table_header (as_name args))" "read_entry (table_header (as_name args)) = None"
    using name by (auto simp: table_header_def toml_table_key_def quoted_def clean_newline intro!: no_entry_without_space)
  then have r: "reads_as (server_lines server_id addr args) (server_entries server_id addr args)"
    using sid ac kc
    by (intro reads_as_intro)
       (auto simp: server_lines_def server_entries_def key_value_line read_entry_key_value map_filter_simps split: option.splits)
  then have "lines_of text' = lines_of (terminated text) @ server_lines server_id addr args"
    by (simp add: ok(7) lines_of_append reads_as_def)
  with r ok(2,3) show ?thesis by (auto simp: map_of_eq_None_iff)
qed

definition demo_section :: client_section where
  "demo_section = default_client_section ''c'' ''h:1'' ''main'' ''k''"

definition demo_bytes :: bytes where
  "demo_bytes = replicate 32 2"

definition demo_server_args :: add_server_args where
  "demo_server_args = \<lparr>as_name = ''b.2'', as_server = ''host'', as_server_key = Some (hexify demo_bytes),
     as_server_id = None, as_interval = Some 60, as_no_encryption = False\<rparr>"

lemma demo_addr: "normalize_addr (\<lambda>_. None) ''host'' = ''host:7370''"
  by (simp add: normalize_addr_def DEFAULT_PORT_def show_nat.simps digit_def char_of_eq_iff take_bit_nat_eq_self)

lemma demo_valid:
  "validate_addr ''host:7370'' = Inr ()" "valid_utf8 ''host:7370''" "validate_token ''--name'' ''b.2'' = Inr ()"
  "validate_token ''--server-id'' ''b.2'' = Inr ()" "validate_token ''--server-id'' ''main'' = Inr ()"
  by (simp_all add: validate_addr_def any_char_def valid_utf8_def utf8_decode_ascii is_whitespace_def is_control_def
      validate_token_def ascii_alnum_def)

theorem added_server_keeps_its_lines_witness:
  "\<exists>text'. add_server demo (\<lambda>_. None) demo_section ''x'' demo_server_args = Inr text' \<and>
     lines_of text' = ''x'' # server_lines ''b.2'' ''host:7370'' demo_server_args"
proof -
  note addr = demo_addr and v = demo_valid(1-4)
  have "x25519_from_base64 demo (hexify demo_bytes) = Inr demo_bytes"
    by (simp add: x25519_from_base64_def demo_def b64_decode_res_def array_of_def X25519_KEY_LEN_def demo_bytes_def)
  with v addr obtain text' where a: "add_server demo (\<lambda>_. None) demo_section ''x'' demo_server_args = Inr text'"
    by (simp add: add_server_def Let_def demo_server_args_def demo_section_def default_client_section_def)
  have "''host:7370'' = normalize_addr (\<lambda>_. None) (as_server demo_server_args)" using addr by (simp add: demo_server_args_def)
  from added_server_keeps_its_lines [OF demo_alphabet a this v(2) refl] a show ?thesis
    by (simp add: demo_server_args_def terminated_def)
qed

lemma hex_pairs_clean: "line_safe (hex_pairs bs)"
proof (rule clean_range, rule ballI)
  fix c
  assume "c \<in> set (hex_pairs bs)"
  then obtain d where "d < 16" "c = hex_char d"
    by (induction bs) (auto intro: nibble_bounds)
  then show "33 \<le> (of_char c :: nat) \<and> (of_char c :: nat) \<noteq> 34 \<and> (of_char c :: nat) \<noteq> 92 \<and> (of_char c :: nat) \<noteq> 127"
    using of_char_hex_char [of d] by auto
qed

text \<open>
  The client's \<open>init\<close> checks what it writes but for the server's key: when that key has no quote,
  backslash or control character, the file has the lines meant and each entry reads back as its value.
\<close>

theorem client_init_keeps_its_lines:
  assumes "b64_alphabet P" and "init_client P parse_socket random_id seed ex args = Returns (Inr text)"
    and "addr = normalize_addr parse_socket (ci_server args)" and "valid_utf8 addr"
    and "cid = (case ci_client_id args of Some i \<Rightarrow> i | None \<Rightarrow> to_hex (ClientId random_id))" and "trim cid = cid"
    and "\<forall>key. ci_server_key args = Some key \<longrightarrow> line_safe key"
  shows "\<exists>private_key. lines_of text = client_config_lines cid addr private_key args \<and>
    reads_as (client_config_lines cid addr private_key args)
      ([(''client_id'', cid), (''server_addr'', addr), (''server_id'', ci_server_id args), (''private_key'', private_key)] @
       (case ci_server_key args of None \<Rightarrow> [] | Some key \<Rightarrow> [(''server_encryption_key'', key)]))"
proof -
  let ?private = "fst (generate_keypair P seed)"
  have ok: "validate_token ''--server-id'' (ci_server_id args) = Inr ()" "validate_addr addr = Inr ()"
    "text = unlines (client_config_lines cid addr ?private args)"
    "\<forall>i. ci_client_id args = Some i \<longrightarrow> (\<exists>c. from_hex i = Returns (Inr c))"
    using assms(2,3,5)
    by (auto simp: init_client_def Let_def res_bind_eq_Inr res_bind_eq_Inl
        split: if_splits option.splits sum.splits may_panic.splits)
  have sid: "line_safe (ci_server_id args)" and ac: "line_safe addr"
    using token_clean [OF ok(1)] addr_clean [OF ok(2) assms(4)] by blast+
  have idc: "line_safe cid"
    using assms(5,6) ok(4) id_clean hex_pairs_clean by (cases "ci_client_id args") (auto simp: to_hex_def)
  have pc: "line_safe ?private" using assms(1) b64_clean by (auto simp: b64_alphabet_def generate_keypair_def)
  have r: "reads_as (client_config_lines cid addr ?private args)
      ([(''client_id'', cid), (''server_addr'', addr), (''server_id'', ci_server_id args), (''private_key'', ?private)] @
       (case ci_server_key args of None \<Rightarrow> [] | Some key \<Rightarrow> [(''server_encryption_key'', key)]))"
    using sid ac idc pc assms(7)
    by (intro reads_as_intro)
       (auto simp: client_config_lines_def key_value_line read_entry_key_value map_filter_simps split: option.splits)
  with ok(3) show ?thesis by (intro exI [of _ ?private]) (simp add: reads_as_def)
qed

definition demo_init_args :: client_init_args where
  "demo_init_args = \<lparr>ci_server = ''host'', ci_server_key = Some ''a b'', ci_client_id = None, ci_label = None,
     ci_server_id = ''main'', ci_interval = 300, ci_no_encryption = False, ci_force = False\<rparr>"

lemma demo_init:
  "\<exists>text. init_client demo (\<lambda>_. None) demo_bytes demo_bytes False (demo_init_args\<lparr>ci_server_key := Some key\<rparr>) =
     Returns (Inr text) \<and>
     text = unlines (client_config_lines (to_hex (ClientId demo_bytes)) ''host:7370'' (hexify demo_bytes)
       (demo_init_args\<lparr>ci_server_key := Some key\<rparr>))"
proof -
  note demo_addr demo_valid
  moreover have "fst (generate_keypair demo demo_bytes) = hexify demo_bytes" by (simp add: generate_keypair_def demo_def)
  ultimately show ?thesis by (simp add: init_client_def demo_init_args_def)
qed

theorem client_init_keeps_its_lines_witness:
  "\<exists>text private_key. init_client demo (\<lambda>_. None) demo_bytes demo_bytes False (demo_init_args\<lparr>ci_server_key := Some ''a b''\<rparr>) =
     Returns (Inr text) \<and>
     lines_of text = client_config_lines (to_hex (ClientId demo_bytes)) ''host:7370'' private_key (demo_init_args\<lparr>ci_server_key := Some ''a b''\<rparr>)"
proof -
  let ?args = "demo_init_args\<lparr>ci_server_key := Some ''a b''\<rparr>"
  obtain out where t: "init_client demo (\<lambda>_. None) demo_bytes demo_bytes False ?args = Returns (Inr out)"
    using demo_init by blast
  have addr: "''host:7370'' = normalize_addr (\<lambda>_. None) (ci_server ?args)" using demo_addr by (simp add: demo_init_args_def)
  have cid: "to_hex (ClientId demo_bytes) = (case ci_client_id ?args of Some i \<Rightarrow> i | None \<Rightarrow> to_hex (ClientId demo_bytes))"
    by (simp add: demo_init_args_def)
  have trimmed: "trim (to_hex (ClientId demo_bytes)) = to_hex (ClientId demo_bytes)"
    by (simp add: to_hex_def trim_graphic hex_pairs_graphic)
  have "\<forall>key. ci_server_key ?args = Some key \<longrightarrow> line_safe key" by (simp add: line_safe_def ascii_control_def)
  from client_init_keeps_its_lines [OF demo_alphabet t addr demo_valid(2) cid trimmed this] t show ?thesis by blast
qed

text \<open>\<open>init\<close> takes any text as the key, even one that adds an entry of its own to the file.\<close>

lemma init_key_unchecked:
  "\<exists>text. init_client demo (\<lambda>_. None) demo_bytes demo_bytes False
       (demo_init_args\<lparr>ci_server_key := Some (''k'' @ dquote # line_feed # ''param_command = ['' @ quoted ''/x'' @ ''] # '')\<rparr>) =
       Returns (Inr text) \<and>
     ''param_command = ['' @ quoted ''/x'' @ ''] # '' @ [dquote] \<in> set (lines_of text)"
proof -
  let ?args = "demo_init_args\<lparr>ci_server_key := Some (''k'' @ dquote # line_feed # ''param_command = ['' @ quoted ''/x'' @ ''] # '')\<rparr>"
  let ?b = "''param_command = ['' @ quoted ''/x'' @ ''] # '' @ [dquote]"
  let ?a = "''server_encryption_key = '' @ dquote # ''k'' @ [dquote]"
  let ?ls = "client_config_lines (to_hex (ClientId demo_bytes)) ''host:7370'' (hexify demo_bytes) (demo_init_args\<lparr>ci_server_key := None\<rparr>)"
  have split: "lines_of (unlines (ls @ [a @ line_feed # b])) = ls @ [a, b]"
    if "\<forall>l \<in> set ls. line_feed \<notin> set l" "line_feed \<notin> set a" "line_feed \<notin> set b" for ls a b
    using that lines_of_unlines [of "ls @ [a, b]"] by (simp add: unlines_def)
  have ls: "\<forall>l \<in> set ?ls. line_feed \<notin> set l"
    by (simp add: client_config_lines_def key_value_def quoted_def demo_init_args_def to_hex_def hexify_no_newline)
  have "client_config_lines (to_hex (ClientId demo_bytes)) ''host:7370'' (hexify demo_bytes) ?args = ?ls @ [?a @ line_feed # ?b]"
    by (simp add: client_config_lines_def key_value_def quoted_def)
  note lines = this
  have "lines_of (unlines (?ls @ [?a @ line_feed # ?b])) = ?ls @ [?a, ?b]"
    by (rule split [OF ls]) (simp_all add: quoted_def)
  then have b: "?b \<in> set (lines_of (unlines (client_config_lines (to_hex (ClientId demo_bytes)) ''host:7370'' (hexify demo_bytes) ?args)))"
    unfolding lines by (simp only: set_append) simp
  from demo_init obtain out where "init_client demo (\<lambda>_. None) demo_bytes demo_bytes False ?args = Returns (Inr out)"
    "out = unlines (client_config_lines (to_hex (ClientId demo_bytes)) ''host:7370'' (hexify demo_bytes) ?args)" by blast
  with b show ?thesis by (intro exI [of _ out] conjI) (simp only:, simp only:)
qed

subsection \<open>The suggested address\<close>

lemma show_byte_no_colon: "CHR '':'' \<notin> set (show_byte b)"
  using show_nat_chars by (fastforce simp: show_byte_def)

lemma v4_no_colon: "CHR '':'' \<notin> set (ip_to_string (V4 a b c d))"
  by (simp add: show_v4_def show_byte_no_colon)

lemma v6_colon: "length ws = 8 \<Longrightarrow> CHR '':'' \<in> set (ip_to_string (V6 ws))"
proof -
  assume ws: "length ws = 8"
  then obtain x y r where "ws = x # y # r" by (cases ws; cases "tl ws") auto
  then have "CHR '':'' \<in> set (show_segments ws)" by simp
  moreover obtain start n where "zero_run 0 (0, 0) (0, 0) ws = (start, n)" by fastforce
  ultimately show ?thesis by (simp add: show_v6_def Let_def)
qed

text \<open>
  The address that the server's \<open>init\<close> suggests for a server bound to an IPv4 address, or to IPv6 on
  another port than the default, is with the default port that the client adds the address and the port
  the server is bound to. For IPv6 on the default port it is not: the suggestion leaves the port
  out, and the client takes the colons in it for a port and adds none. Socket addresses are only
  assumed to have a colon.
\<close>

theorem suggested_host_normalizes:
  assumes "\<forall>s. parse_socket s \<noteq> None \<longrightarrow> CHR '':'' \<in> set s" and "length ws = 8"
  shows "normalize_addr parse_socket (host_with_port (V4 a b c d) port) = ip_to_string (V4 a b c d) @ '':'' @ show_nat port \<and>
    (port \<noteq> DEFAULT_PORT \<longrightarrow>
       normalize_addr parse_socket (host_with_port (V6 ws) port) = ''['' @ ip_to_string (V6 ws) @ '']:'' @ show_nat port) \<and>
    normalize_addr parse_socket (host_with_port (V6 ws) DEFAULT_PORT) = ip_to_string (V6 ws)"
proof -
  have "parse_socket (ip_to_string (V4 a b c d)) = None" using assms(1) v4_no_colon [of a b c d] by blast
  with v4_no_colon [of a b c d] v6_colon [OF assms(2)] show ?thesis
    by (auto simp: normalize_addr_def host_with_port_def)
qed

theorem suggested_host_normalizes_witness:
  "normalize_addr (\<lambda>_. None) (host_with_port (V6 [0x2001, 0xdb8, 0, 0, 0, 0, 0, 1]) DEFAULT_PORT) =
     ip_to_string (V6 [0x2001, 0xdb8, 0, 0, 0, 0, 0, 1])"
  using suggested_host_normalizes [of "\<lambda>_. None" "[0x2001, 0xdb8, 0, 0, 0, 0, 0, 1]" 0 0 0 0 1] by simp

subsection \<open>The commands on the file\<close>

text \<open>
  \<open>load\<close> reads, parses and validates a file; \<open>add-client\<close> and \<open>add-server\<close> load the file, add to its
  text, replace it and load it again. The results say where a command ended.
\<close>

datatype load_error = Unreadable | Unparsable string | InvalidConfig config_error

datatype edit_result =
    CannotLoad load_error
  | Refused setup_error
  | CannotWrite io_error
  | BadReload load_error
  | Edited nat

definition load_config ::
  "(string \<Rightarrow> (string, 'c) res) \<Rightarrow> ('c \<Rightarrow> (config_error, unit) res may_panic) \<Rightarrow> string option \<Rightarrow>
   (load_error, 'c) res may_panic" where
  "load_config parse validate text =
     (case text of
        None \<Rightarrow> Returns (Inl Unreadable)
      | Some t \<Rightarrow>
          (case parse t of
             Inl e \<Rightarrow> Returns (Inl (Unparsable e))
           | Inr cfg \<Rightarrow>
               (case validate cfg of
                  Panics \<Rightarrow> Panics
                | Returns (Inl e) \<Rightarrow> Returns (Inl (InvalidConfig e))
                | Returns (Inr _) \<Rightarrow> Returns (Inr cfg))))"

definition edit_config ::
  "(string option \<Rightarrow> (load_error, 'c) res may_panic) \<Rightarrow> ('c \<Rightarrow> string \<Rightarrow> (setup_error, string) res may_panic) \<Rightarrow>
   ('c \<Rightarrow> nat) \<Rightarrow> write_env \<Rightarrow> string \<Rightarrow> files \<Rightarrow> files list \<times> edit_result may_panic" where
  "edit_config load edit count W path fs =
     (let current = map_option fst (fs path) in
      case load current of
        Panics \<Rightarrow> ([fs], Panics)
      | Returns (Inl e) \<Rightarrow> ([fs], Returns (CannotLoad e))
      | Returns (Inr cfg) \<Rightarrow>
          (case edit cfg (case current of Some t \<Rightarrow> t | None \<Rightarrow> []) of
             Panics \<Rightarrow> ([fs], Panics)
           | Returns (Inl e) \<Rightarrow> ([fs], Returns (Refused e))
           | Returns (Inr text) \<Rightarrow>
               (case write_config_file W path text True fs of
                  (states, Inl e) \<Rightarrow> (states, Returns (CannotWrite e))
                | (states, Inr _) \<Rightarrow>
                    (states,
                     (case load (map_option fst (last states path)) of
                        Panics \<Rightarrow> Panics
                      | Returns (Inl e) \<Rightarrow> Returns (BadReload e)
                      | Returns (Inr updated) \<Rightarrow> Returns (Edited (count updated)))))))"

definition add_client_command ::
  "primitives \<Rightarrow> (string \<Rightarrow> (string, server_config) res) \<Rightarrow> add_client_args \<Rightarrow> write_env \<Rightarrow> string \<Rightarrow> files \<Rightarrow>
   files list \<times> edit_result may_panic" where
  "add_client_command P parse args =
     edit_config (load_config parse validate_server) (\<lambda>cfg text. add_client P cfg text args) (\<lambda>cfg. length (sc_clients cfg))"

definition add_server_command ::
  "primitives \<Rightarrow> (string \<Rightarrow> (string, client_section) res) \<Rightarrow> (string \<Rightarrow> (ip_addr \<times> nat) option) \<Rightarrow> add_server_args \<Rightarrow>
   write_env \<Rightarrow> string \<Rightarrow> files \<Rightarrow> files list \<times> edit_result may_panic" where
  "add_server_command P parse parse_socket args =
     edit_config (load_config parse validate_client) (\<lambda>c text. Returns (add_server P parse_socket c text args))
       (\<lambda>c. 1 + length (cs_servers c))"

definition init_server_command ::
  "primitives \<Rightarrow> bytes \<Rightarrow> init_args \<Rightarrow> write_env \<Rightarrow> string \<Rightarrow> files \<Rightarrow> files list \<times> (setup_error + io_error, string) res" where
  "init_server_command P secret args W path fs =
     (case init_server P secret (fs path \<noteq> None) args of
        Inl e \<Rightarrow> ([fs], Inl (Inl e))
      | Inr (config, enc_public) \<Rightarrow>
          (case write_config_file W path config True fs of
             (states, Inl e) \<Rightarrow> (states, Inl (Inr e))
           | (states, Inr _) \<Rightarrow> (states, Inr enc_public)))"

lemma write_states:
  assumes "has_file_name path" and "write_config_file W path contents True fs = (states, r)"
  shows "f \<in> set states \<Longrightarrow> f path = fs path \<or> f path = Some (contents, 384)"
    and "r = Inr () \<Longrightarrow> last states path = Some (contents, 384)"
proof -
  let ?tmp = "with_extension path (''tmp.'' @ show_nat (wr_pid W))"
  have tmp: "?tmp \<noteq> path" using assms(1) by (rule numbered_extension_differs) simp
  have "(\<forall>f \<in> set states. f path \<in> {fs path, Some (contents, 384)}) \<and> (r = Inr () \<longrightarrow> last states path = Some (contents, 384))"
  proof (cases "wr_parent W")
    case None
    with assms(2) have "replace_file W ?tmp path contents 384 fs = (states, r)"
      by (simp add: write_config_file_def Let_def)
    from replace_file_atomic [OF tmp this] show ?thesis by blast
  next
    case (Some e)
    with assms(2) show ?thesis by (auto simp: write_config_file_def)
  qed
  then show "f \<in> set states \<Longrightarrow> f path = fs path \<or> f path = Some (contents, 384)"
    and "r = Inr () \<Longrightarrow> last states path = Some (contents, 384)" by auto
qed

lemma write_refused: "write_config_file W path contents secret fs = (states, Inl e) \<Longrightarrow> has_file_name path \<Longrightarrow> last states path = fs path"
proof -
  assume w: "write_config_file W path contents secret fs = (states, Inl e)" and "has_file_name path"
  then have tmp: "with_extension path (''tmp.'' @ show_nat (wr_pid W)) \<noteq> path"
    by (intro numbered_extension_differs) simp_all
  with w show ?thesis
    by (auto simp: write_config_file_def replace_file_def Let_def last_append last_map split: option.splits if_splits)
qed

lemma load_config_nothing: "load_config parse validate None = Returns (Inl Unreadable)"
  by (simp add: load_config_def)

lemma load_config_valid: "load_config parse validate (Some t) = Returns (Inr cfg) \<longleftrightarrow> parse t = Inr cfg \<and> validate cfg = Returns (Inr ())"
  by (auto simp: load_config_def split: sum.splits may_panic.splits)

text \<open>
  The contract of the two commands: a missing file does not load, a file loads when its text is
  valid, and an accepted edit puts \<open>added\<close> after the text.
\<close>

locale file_editor =
  fixes load :: "string option \<Rightarrow> (load_error, 'c) res may_panic"
    and edit :: "'c \<Rightarrow> string \<Rightarrow> (setup_error, string) res may_panic"
    and count :: "'c \<Rightarrow> nat"
    and valid :: "string \<Rightarrow> 'c \<Rightarrow> bool"
    and added :: string
  assumes load_nothing: "load None = Returns (Inl Unreadable)"
    and load_valid: "load (Some t) = Returns (Inr cfg) \<longleftrightarrow> valid t cfg"
    and edit_adds: "edit cfg t = Returns (Inr new) \<Longrightarrow> new = terminated t @ added"
begin

lemma edit_cases:
  assumes "has_file_name path" and "edit_config load edit count W path fs = (states, r)"
  shows "f \<in> set states \<Longrightarrow> f path = fs path \<or>
      (\<exists>t mode cfg new. fs path = Some (t, mode) \<and> load (Some t) = Returns (Inr cfg) \<and> edit cfg t = Returns (Inr new) \<and>
         f path = Some (new, 384))"
    and "r = Returns (CannotLoad e1) \<or> r = Returns (Refused e2) \<or> r = Returns (CannotWrite e3) \<Longrightarrow> last states path = fs path"
    and "r = Returns (Edited n) \<Longrightarrow> \<exists>new cfg. last states path = Some (new, 384) \<and> load (Some new) = Returns (Inr cfg) \<and> n = count cfg"
proof -
  note case_splits = may_panic.splits sum.splits
  consider (stopped) "states = [fs]" "\<forall>n. r \<noteq> Returns (Edited n)"
    | (written) t mode cfg new w where "fs path = Some (t, mode)" "load (Some t) = Returns (Inr cfg)" "edit cfg t = Returns (Inr new)"
        "write_config_file W path new True fs = (states, w)"
        "r = (case w of Inl e \<Rightarrow> Returns (CannotWrite e) | Inr _ \<Rightarrow>
           (case load (map_option fst (last states path)) of Panics \<Rightarrow> Panics | Returns (Inl e) \<Rightarrow> Returns (BadReload e)
            | Returns (Inr updated) \<Rightarrow> Returns (Edited (count updated))))"
  proof (cases "\<exists>t mode cfg new. fs path = Some (t, mode) \<and> load (Some t) = Returns (Inr cfg) \<and> edit cfg t = Returns (Inr new)")
    case True
    then obtain t mode cfg new where c: "fs path = Some (t, mode)" "load (Some t) = Returns (Inr cfg)" "edit cfg t = Returns (Inr new)"
      by blast
    obtain st w where w: "write_config_file W path new True fs = (st, w)" by fastforce
    with c assms(2) have "states = st" "r = (case w of Inl e \<Rightarrow> Returns (CannotWrite e) | Inr _ \<Rightarrow>
           (case load (map_option fst (last states path)) of Panics \<Rightarrow> Panics | Returns (Inl e) \<Rightarrow> Returns (BadReload e)
            | Returns (Inr updated) \<Rightarrow> Returns (Edited (count updated))))"
      by (auto simp: edit_config_def Let_def split: sum.splits)
    with c w show ?thesis using that(2) by blast
  next
    case False
    with load_nothing assms(2) have "states = [fs] \<and> (\<forall>n. r \<noteq> Returns (Edited n))"
      by (cases "fs path") (auto simp: edit_config_def Let_def split: case_splits)
    with that(1) show ?thesis by blast
  qed
  note cases = this
  show "f \<in> set states \<Longrightarrow> f path = fs path \<or>
      (\<exists>t mode cfg new. fs path = Some (t, mode) \<and> load (Some t) = Returns (Inr cfg) \<and> edit cfg t = Returns (Inr new) \<and>
         f path = Some (new, 384))"
    using write_states(1) [OF assms(1)] by (cases rule: cases) (simp, metis)
  show "r = Returns (CannotLoad e1) \<or> r = Returns (Refused e2) \<or> r = Returns (CannotWrite e3) \<Longrightarrow> last states path = fs path"
    using write_refused [OF _ assms(1)] by (cases rule: cases) (auto split: case_splits)
  show "r = Returns (Edited n) \<Longrightarrow> \<exists>new cfg. last states path = Some (new, 384) \<and> load (Some new) = Returns (Inr cfg) \<and> n = count cfg"
    using write_states(2) [OF assms(1)] by (cases rule: cases) (auto split: case_splits)
qed

lemma one_step:
  assumes "has_file_name path" and "edit_config load edit count W path fs = (states, r)"
  shows "(\<forall>f \<in> set states. f path = fs path \<or>
      (\<exists>t mode cfg. fs path = Some (t, mode) \<and> valid t cfg \<and> f path = Some (terminated t @ added, 384))) \<and>
    ((\<exists>e. r = Returns (CannotLoad e)) \<or> (\<exists>e. r = Returns (Refused e)) \<or> (\<exists>e. r = Returns (CannotWrite e)) \<longrightarrow>
       last states path = fs path) \<and>
    (\<forall>n. r = Returns (Edited n) \<longrightarrow>
       (\<exists>new cfg. last states path = Some (new, 384) \<and> valid new cfg \<and> n = count cfg))"
proof (intro conjI ballI)
  note spec = edit_cases [OF assms]
  fix f assume "f \<in> set states"
  from spec(1) [OF this] show "f path = fs path \<or>
      (\<exists>t mode cfg. fs path = Some (t, mode) \<and> valid t cfg \<and> f path = Some (terminated t @ added, 384))"
    using edit_adds load_valid by blast
qed (use edit_cases(2,3) [OF assms] load_valid in blast)+

end

interpretation clients: file_editor "load_config parse validate_server" "\<lambda>cfg text. add_client P cfg text args"
    "\<lambda>cfg. length (sc_clients cfg)" "\<lambda>t cfg. parse t = Inr cfg \<and> validate_server cfg = Returns (Inr ())" "unlines (client_lines args)"
  for P parse args
  by unfold_locales
     (auto simp: load_config_nothing load_config_valid add_client_def res_bind_eq_Inr split: may_panic.splits sum.splits if_splits)

interpretation servers: file_editor "load_config parse validate_client" "\<lambda>c text. Returns (add_server P parse_socket c text args)"
    "\<lambda>c. 1 + length (cs_servers c)" "\<lambda>t c. parse t = Inr c \<and> validate_client c = Returns (Inr ())"
    "unlines (server_lines (unwrap_or (as_server_id args) (as_name args)) (normalize_addr parse_socket (as_server args)) args)"
  for P parse parse_socket args
  by unfold_locales
     (auto simp: load_config_nothing load_config_valid add_server_def Let_def res_bind_eq_Inr split: option.splits sum.splits if_splits)

text \<open>
  C29: At every moment of \<open>add-client\<close> the file is the old one or, private to the user, the old text of a
  valid configuration with the lines of the new client after it. When the command stops with an error before the file
  is replaced, the file is the old one; when it reports n clients, the file then loads as a valid
  configuration of n clients.
\<close>

theorem add_client_edits_in_one_step:
  assumes "has_file_name path" and "add_client_command P parse args W path fs = (states, r)"
  shows "(\<forall>f \<in> set states. f path = fs path \<or>
      (\<exists>t mode cfg. fs path = Some (t, mode) \<and> (parse t = Inr cfg \<and> validate_server cfg = Returns (Inr ())) \<and>
         f path = Some (terminated t @ unlines (client_lines args), 384))) \<and>
    ((\<exists>e. r = Returns (CannotLoad e)) \<or> (\<exists>e. r = Returns (Refused e)) \<or> (\<exists>e. r = Returns (CannotWrite e)) \<longrightarrow>
       last states path = fs path) \<and>
    (\<forall>n. r = Returns (Edited n) \<longrightarrow>
       (\<exists>new cfg. last states path = Some (new, 384) \<and> (parse new = Inr cfg \<and> validate_server cfg = Returns (Inr ())) \<and>
          n = length (sc_clients cfg)))"
  using assms unfolding add_client_command_def by (rule clients.one_step)

text \<open>The same of \<open>add-server\<close>; the primary server counts too.\<close>

lemma add_server_edits_in_one_step:
  assumes "has_file_name path" and "add_server_command P parse parse_socket args W path fs = (states, r)"
  shows "(\<forall>f \<in> set states. f path = fs path \<or>
      (\<exists>t mode c. fs path = Some (t, mode) \<and> (parse t = Inr c \<and> validate_client c = Returns (Inr ())) \<and>
         f path = Some (terminated t @ unlines (server_lines (unwrap_or (as_server_id args) (as_name args))
           (normalize_addr parse_socket (as_server args)) args), 384))) \<and>
    ((\<exists>e. r = Returns (CannotLoad e)) \<or> (\<exists>e. r = Returns (Refused e)) \<or> (\<exists>e. r = Returns (CannotWrite e)) \<longrightarrow>
       last states path = fs path) \<and>
    (\<forall>n. r = Returns (Edited n) \<longrightarrow>
       (\<exists>new c. last states path = Some (new, 384) \<and> (parse new = Inr c \<and> validate_client c = Returns (Inr ())) \<and>
          n = 1 + length (cs_servers c)))"
  using assms unfolding add_server_command_def by (rule servers.one_step)

definition demo_parse :: "string \<Rightarrow> (string, server_config) res" where
  "demo_parse t = Inr (sample_config (if t = ''x'' then [] else [hex_text 9]))"

lemma demo_new_client: "\<exists>new. add_client demo (sample_config []) ''x'' demo_client_args = Returns (Inr new) \<and> new \<noteq> ''x''"
proof -
  have id: "from_hex (to_hex (ClientId (replicate 32 9))) = Returns (Inr (ClientId (replicate 32 9)))"
    using hex_text_from_hex [of 9] by (simp add: hex_text_def to_hex_def)
  have key: "load_verifying_key demo (hexify (replicate 32 2)) = Inr (replicate 32 2)"
    by (simp add: load_verifying_key_def demo_def b64_decode_res_def array_of_def PUBLIC_KEY_LENGTH_def)
  have "check_label (Some ''lab'') = Inr ()" by code_simp
  with id key show ?thesis
    by (simp add: add_client_def demo_client_args_def sample_config_def terminated_def client_lines_def unlines_def)
qed

theorem add_client_edits_in_one_step_witness:
  "\<exists>states new cfg. add_client_command demo demo_parse demo_client_args demo_write ''/e/c.toml'' [''/e/c.toml'' \<mapsto> (''x'', 384)] =
       (states, Returns (Edited 1)) \<and>
     last states ''/e/c.toml'' = Some (new, 384) \<and> validate_server cfg = Returns (Inr ()) \<and> 1 = length (sc_clients cfg)"
proof -
  let ?fs = "[''/e/c.toml'' \<mapsto> (''x'', 384)] :: files"
  have n: "has_file_name ''/e/c.toml''" by (simp add: has_file_name_def file_name_def)
  obtain new where new: "add_client demo (sample_config []) ''x'' demo_client_args = Returns (Inr new)" "new \<noteq> ''x''"
    using demo_new_client by blast
  obtain states where w: "write_config_file demo_write ''/e/c.toml'' new True ?fs = (states, Inr ())"
    by (simp add: write_config_file_def replace_file_def demo_write_def Let_def)
  have "last states ''/e/c.toml'' = Some (new, 384)" using write_states(2) [OF n w] by simp
  moreover have "load_config demo_parse validate_server (Some ''x'') = Returns (Inr (sample_config []))"
    "load_config demo_parse validate_server (Some new) = Returns (Inr (sample_config [hex_text 9]))"
    using new(2) by (simp_all add: load_config_valid demo_parse_def sample_config_valid sample_entry_def)
  ultimately have r: "add_client_command demo demo_parse demo_client_args demo_write ''/e/c.toml'' ?fs = (states, Returns (Edited 1))"
    using new(1) w by (simp add: add_client_command_def edit_config_def Let_def sample_config_def)
  from add_client_edits_in_one_step [OF n r] r show ?thesis by blast
qed

end
