(* ===== verification/Enrolment.thy ===== *)
theory Enrolment
  imports Setup
begin

text \<open>
  How a client and a server come to know each other: what \<open>init\<close>, \<open>add-client\<close>, \<open>add-server\<close>,
  \<open>install-service\<close> and \<open>generate-key\<close> print (\<open>signedpulse-server/src/cli.rs\<close>,
  \<open>signedpulse-client/src/cli.rs\<close>), and what the other program makes of the commands suggested there.
  A report is the list of the lines printed. Paths are their texts.
\<close>

subsection \<open>What the commands print\<close>

definition label_words :: "string option \<Rightarrow> string" where
  "label_words label = (case label of None \<Rightarrow> [] | Some l \<Rightarrow> '' --label '' @ quoted l)"

definition authorize_command :: "string \<Rightarrow> string \<Rightarrow> string option \<Rightarrow> string" where
  "authorize_command client_id public_key label =
     ''  signedpulse-server add-client --client-id '' @ quoted client_id @ '' --public-key '' @ quoted public_key @
     label_words label"

definition manual_block :: "string \<Rightarrow> string \<Rightarrow> string option \<Rightarrow> string list" where
  "manual_block client_id public_key label =
     [''  [[clients]]'', ''  '' @ key_value ''client_id'' client_id, ''  '' @ key_value ''public_key'' public_key] @
     (case label of None \<Rightarrow> [] | Some l \<Rightarrow> [''  '' @ key_value ''label'' l])"

text \<open>The three bytes at the front of the block's introduction are an ellipsis.\<close>

definition client_init_report :: "string \<Rightarrow> string \<Rightarrow> string \<Rightarrow> string option \<Rightarrow> string list" where
  "client_init_report path client_id public_key label =
     [''Wrote client config to '' @ path @ '' (mode 0600).'',
      [],
      ''=== Do this on the SERVER to authorize this client ==='',
      [],
      ''Run:'',
      authorize_command client_id public_key label,
      [],
      [CHR 0xE2, CHR 0x80, CHR 0xA6] @ ''or add this block to the server'' @ [CHR 0x27] @ ''s config manually:'',
      []] @
     manual_block client_id public_key label @
     [[],
      ''Then start this client (or run `signedpulse-client install-service`).'']"

definition server_init_report :: "string \<Rightarrow> string \<Rightarrow> string \<Rightarrow> string \<Rightarrow> string list" where
  "server_init_report path host server_id enc_public =
     [''Wrote server config to '' @ path @ '' (mode 0600).'',
      [],
      ''=== Set up clients to pulse this server ==='',
      (if host = ''<HOST>'' then ''(replace <HOST> below with this server'' @ [CHR 0x27] @ ''s address reachable by clients)''
       else ''(auto-detected address '' @ host @ ''; replace it if clients reach this host differently)''),
      [],
      ''For a NEW client:'',
      ''  '' @ suggested_commands host server_id enc_public ! 0,
      [],
      ''To ADD this server to an EXISTING client (pick a unique local --name):'',
      ''  '' @ suggested_commands host server_id enc_public ! 1,
      [],
      ''Next: authorize clients with `signedpulse-server add-client`, then start the server.'']"

text \<open>
  The reports of \<open>add-client\<close> and \<open>add-server\<close> after the file has been loaded again; values between quotes are
  printed by \<open>Debug\<close>, which leaves graphic ASCII without quotes and backslashes as it is: all values here have
  passed their checks. The second takes the configuration that was loaded.
\<close>

definition add_client_report :: "string \<Rightarrow> nat \<Rightarrow> string list" where
  "add_client_report client_id n =
     [''Authorized client '' @ quoted client_id @ ''. The config now has '' @ show_nat n @ '' client(s).'',
      ''Restart the server (e.g. `systemctl restart signedpulse-server`) to apply.'']"

definition add_server_report :: "primitives \<Rightarrow> string \<Rightarrow> string \<Rightarrow> string \<Rightarrow> client_section \<Rightarrow> string list" where
  "add_server_report P name server_id server_addr updated =
     [''Added server '' @ quoted name @ '' (server_id='' @ quoted server_id @ '', '' @ server_addr @ '').'' @
        '' This client now pulses '' @ show_nat (1 + length (cs_servers updated)) @ '' server(s).''] @
     (case load_signing_key P (cs_private_key updated) of
        Inl _ \<Rightarrow> []
      | Inr sk \<Rightarrow>
          [[],
           ''Authorize this client on the new server:'',
           authorize_command (cs_client_id updated) (b64_encode P (ed_public P sk)) None]) @
     [''Then restart this client (e.g. `systemctl restart signedpulse-client`) to apply.'']"

definition generate_key_report :: "primitives \<Rightarrow> bytes \<Rightarrow> string list" where
  "generate_key_report P seed =
     (let (private_key, public_key) = generate_keypair P seed in
      [''# SignedPulse Ed25519 keypair'',
       ''# Keep the private key secret. Place it in the CLIENT config:'',
       [],
       ''[client]'',
       key_value ''private_key'' private_key,
       [],
       ''# Place the public key in the SERVER config under the matching client:'',
       [],
       ''[[clients]]'',
       key_value ''client_id'' ''REPLACE_ME'',
       key_value ''public_key'' public_key])"

definition report_install :: "install_report \<Rightarrow> string list" where
  "report_install report =
     (''Installed service definition at '' @ ir_path report @ ''.'') #
     (if ir_activated report then [''Service activated and started.'']
      else (case ir_note report of None \<Rightarrow> [] | Some note \<Rightarrow> [note]) @ map (\<lambda>cmd. ''  '' @ cmd) (ir_activation_commands report))"

text \<open>\<open>install-service\<close>: the file system, the commands run, and the lines printed or the error.\<close>

definition install_service ::
  "os_env \<Rightarrow> string option \<Rightarrow> write_env \<Rightarrow> bool \<Rightarrow> service_spec \<times> service_target \<Rightarrow> files \<Rightarrow>
   files \<times> (string \<times> string list) list \<times> (string, string list) res" where
  "install_service S home W print_only st fs =
     (let (spec, target) = st in
      if print_only then (fs, [], Inr (lines_of (render home spec target)))
      else
        case install S home W spec target True fs of
          (fs', run, Inl e) \<Rightarrow>
            (fs', run, Inl (''failed to install service ('' @ io_text e @ ''). For a system service, re-run with sudo.''))
        | (fs', run, Inr report) \<Rightarrow> (fs', run, Inr (report_install report)))"

subsection \<open>The shell\<close>

text \<open>
  How a POSIX shell splits a line of plain words and words in double quotes. Within the quotes
  the characters that it would expand are refused, outside them everything but letters, digits and a few
  signs without a meaning of their own.
\<close>

definition shell_plain :: "char \<Rightarrow> bool" where
  "shell_plain c \<longleftrightarrow> ascii_alnum c \<or> c \<in> set ''-_.:/+=,@%''"

definition shell_quotable :: "char \<Rightarrow> bool" where
  "shell_quotable c \<longleftrightarrow> c \<noteq> dquote \<and> c \<noteq> backslash \<and> c \<noteq> CHR ''$'' \<and> c \<noteq> CHR 0x60 \<and> c \<noteq> CHR ''!''"

fun shell_read :: "string option \<Rightarrow> bool \<Rightarrow> string \<Rightarrow> string list option" where
  "shell_read cur q [] = (if q then None else Some (case cur of None \<Rightarrow> [] | Some w \<Rightarrow> [w]))"
| "shell_read cur q (c # s) =
     (let w = (case cur of None \<Rightarrow> [] | Some w \<Rightarrow> w) in
      if q then
        if c = dquote then shell_read (Some w) False s
        else if shell_quotable c then shell_read (Some (w @ [c])) True s else None
      else if c = CHR '' '' then
        (case cur of None \<Rightarrow> shell_read None False s | Some w \<Rightarrow> map_option ((#) w) (shell_read None False s))
      else if c = dquote then shell_read (Some w) True s
      else if shell_plain c then shell_read (Some (w @ [c])) False s else None)"

definition shell_words :: "string \<Rightarrow> string list option" where
  "shell_words = shell_read None False"

text \<open>A line of words, each plain or in quotes.\<close>

datatype shell_word = Plain string | InQuotes string

primrec word_text :: "shell_word \<Rightarrow> string" where
  "word_text (Plain w) = w"
| "word_text (InQuotes w) = quoted w"

primrec word_value :: "shell_word \<Rightarrow> string" where
  "word_value (Plain w) = w"
| "word_value (InQuotes w) = w"

primrec word_ok :: "shell_word \<Rightarrow> bool" where
  "word_ok (Plain w) \<longleftrightarrow> w \<noteq> [] \<and> list_all shell_plain w"
| "word_ok (InQuotes w) \<longleftrightarrow> list_all shell_quotable w"

fun line_text :: "shell_word list \<Rightarrow> string" where
  "line_text [] = []"
| "line_text [w] = word_text w"
| "line_text (w # v # ws) = word_text w @ '' '' @ line_text (v # ws)"

lemma shell_plain_special [simp]: "\<not> shell_plain CHR '' ''" "\<not> shell_plain dquote" "\<not> shell_quotable dquote"
  by (simp_all add: shell_plain_def ascii_alnum_def shell_quotable_def)

lemma shell_read_plain: "list_all shell_plain w \<Longrightarrow> shell_read (Some v) False (w @ s) = shell_read (Some (v @ w)) False s"
  by (induction w arbitrary: v) (auto simp: Let_def)

lemma shell_read_quotable: "list_all shell_quotable w \<Longrightarrow> shell_read (Some v) True (w @ s) = shell_read (Some (v @ w)) True s"
  by (induction w arbitrary: v) (auto simp: Let_def)

lemma shell_read_word: "word_ok w \<Longrightarrow> shell_read None False (word_text w @ s) = shell_read (Some (word_value w)) False s"
proof (cases w)
  case (Plain p)
  assume "word_ok w"
  with Plain obtain c r where "p = c # r" "shell_plain c" "list_all shell_plain r" by (cases p) auto
  with Plain show ?thesis by (auto simp: shell_read_plain)
next
  case (InQuotes p)
  assume "word_ok w"
  with InQuotes show ?thesis by (simp add: quoted_def shell_read_quotable)
qed

lemma shell_words_line: "list_all word_ok ws \<Longrightarrow> shell_words (line_text ws) = Some (map word_value ws)"
proof (induction ws rule: line_text.induct)
  case (2 w)
  then show ?case using shell_read_word [of w "[]"] by (simp add: shell_words_def)
qed (simp_all add: shell_words_def shell_read_word)

lemma shell_words_indented: "shell_words ('' '' @ s) = shell_words s" "shell_words (''  '' @ s) = shell_words s"
  by (simp_all add: shell_words_def)

subsection \<open>The words of the suggested commands\<close>

definition add_client_words :: "add_client_args \<Rightarrow> string list" where
  "add_client_words args =
     [''signedpulse-server'', ''add-client'', ''--client-id'', ac_client_id args, ''--public-key'', ac_public_key args] @
     (case ac_label args of None \<Rightarrow> [] | Some l \<Rightarrow> [''--label'', l])"

definition client_init_words :: "client_init_args \<Rightarrow> string list" where
  "client_init_words args =
     [''signedpulse-client'', ''init'', ''--server'', ci_server args, ''--server-id'', ci_server_id args] @
     (case ci_server_key args of None \<Rightarrow> [] | Some key \<Rightarrow> [''--server-key'', key])"

definition add_server_words :: "add_server_args \<Rightarrow> string list" where
  "add_server_words args =
     [''signedpulse-client'', ''add-server'', ''--name'', as_name args, ''--server'', as_server args] @
     (case as_server_id args of None \<Rightarrow> [] | Some i \<Rightarrow> [''--server-id'', i]) @
     (case as_server_key args of None \<Rightarrow> [] | Some key \<Rightarrow> [''--server-key'', key])"

lemma alnum_plain: "ascii_alnum c \<Longrightarrow> shell_plain c"
  by (simp add: shell_plain_def)

lemma plain_quotable: "shell_plain c \<Longrightarrow> shell_quotable c"
  by (auto simp: shell_plain_def shell_quotable_def ascii_alnum_def)

lemma quotable_if: "list_all shell_plain w \<Longrightarrow> list_all shell_quotable w"
  by (auto simp: list_all_iff plain_quotable)

lemma token_plain: "validate_token f v = Inr u \<Longrightarrow> list_all shell_plain v"
  by (auto simp: validate_token_def list_all_iff shell_plain_def split: if_splits)

lemma b64_plain: "list_all b64_char s \<Longrightarrow> list_all shell_plain s"
  by (auto simp: list_all_iff b64_char_def shell_plain_def)

lemma encoded_plain: "b64_alphabet P \<Longrightarrow> list_all shell_plain (b64_encode P b)"
  by (simp add: b64_alphabet_def b64_plain)

lemma ip_plain: "c \<in> ip_chars \<Longrightarrow> shell_plain c"
proof -
  have "list_all shell_plain ''0123456789abcdef.:''" by (simp add: shell_plain_def ascii_alnum_def)
  then show "c \<in> ip_chars \<Longrightarrow> shell_plain c" unfolding ip_chars_def list_all_iff by blast
qed

lemma number_plain: "list_all shell_plain (show_nat n)"
  using show_nat_ip ip_plain by (auto simp: list_all_iff)

lemma id_plain: "from_hex s = Returns (Inr i) \<Longrightarrow> trim s = s \<Longrightarrow> list_all shell_plain s"
proof -
  assume "from_hex s = Returns (Inr i)" and "trim s = s"
  then have "\<forall>c \<in> set s. id_char c" using id_chars by blast
  then show ?thesis
    by (fastforce simp: list_all_iff id_char_def hex_val_def shell_plain_def ascii_alnum_def Let_def split: if_splits)
qed

lemma known_words:
  "list_all word_ok (map Plain [''signedpulse-server'', ''add-client'', ''--client-id'', ''--public-key'', ''--label'',
     ''signedpulse-client'', ''init'', ''add-server'', ''--server'', ''--server-id'', ''--server-key'', ''--name''])"
  by code_simp

lemma authorize_command_words:
  assumes "list_all shell_plain cid" and "list_all shell_plain key" and "\<forall>l. label = Some l \<longrightarrow> list_all shell_plain l"
  shows "shell_words (authorize_command cid key label) =
     Some (add_client_words \<lparr>ac_client_id = cid, ac_public_key = key, ac_label = label\<rparr>)"
proof -
  let ?ws = "[Plain ''signedpulse-server'', Plain ''add-client'', Plain ''--client-id'', InQuotes cid,
      Plain ''--public-key'', InQuotes key] @ (case label of None \<Rightarrow> [] | Some l \<Rightarrow> [Plain ''--label'', InQuotes l])"
  have "word_ok (InQuotes cid)" "word_ok (InQuotes key)" "\<forall>l. label = Some l \<longrightarrow> word_ok (InQuotes l)"
    using assms by (simp_all add: quotable_if)
  with known_words have "list_all word_ok ?ws" by (cases label) (simp_all del: word_ok.simps)
  moreover have "authorize_command cid key label = ''  '' @ line_text ?ws"
    by (cases label) (simp_all add: authorize_command_def label_words_def quoted_def)
  moreover have "map word_value ?ws = add_client_words \<lparr>ac_client_id = cid, ac_public_key = key, ac_label = label\<rparr>"
    by (simp add: add_client_words_def split: option.split)
  ultimately show ?thesis using shell_words_line [of ?ws] by (simp only: shell_words_indented)
qed

subsection \<open>A client enrols with a server\<close>

definition resolved_id :: "bytes \<Rightarrow> client_init_args \<Rightarrow> string" where
  "resolved_id random_id args = (case ci_client_id args of Some i \<Rightarrow> i | None \<Rightarrow> to_hex (ClientId random_id))"

lemma init_client_checked:
  assumes "init_client P parse_socket random_id seed ex args = Returns (Inr text)"
  shows "\<forall>l. ci_label args = Some l \<longrightarrow> validate_token ''--label'' l = Inr ()"
    and "\<forall>i. ci_client_id args = Some i \<longrightarrow> (\<exists>c. from_hex i = Returns (Inr c))"
  using assms
  by (auto simp: init_client_def Let_def res_bind_eq_Inr res_bind_eq_Inl
      split: if_splits option.splits sum.splits may_panic.splits)

lemma plain_range: "shell_plain c \<Longrightarrow>
    32 < (of_char c :: nat) \<and> (of_char c :: nat) < 127 \<and> (of_char c :: nat) \<noteq> 34 \<and> (of_char c :: nat) \<noteq> 92"
  by (auto simp: shell_plain_def ascii_alnum_def Let_def)

lemma plain_none:
  assumes "list_all shell_plain v" and "\<And>b. 32 < b \<Longrightarrow> b < 127 \<Longrightarrow> b \<noteq> 34 \<Longrightarrow> b \<noteq> 92 \<Longrightarrow> \<not> Q b"
  shows "\<not> any_char Q v"
proof -
  have b: "32 < b \<and> b < 127 \<and> b \<noteq> 34 \<and> b \<noteq> 92" if "b \<in> set (codes v)" for b
    using that assms(1) plain_range by (auto simp: codes_def list_all_iff)
  then have "\<forall>b \<in> set (codes v). b < 128" by fastforce
  then have "utf8_decode (codes v) = Some (codes v)" by (rule utf8_decode_ascii)
  with b assms(2) show ?thesis by (auto simp: any_char_def list_ex_iff)
qed

lemma token_label: "validate_token f l = Inr u \<Longrightarrow> check_label (Some l) = Inr ()"
  using plain_none [OF token_plain, of f l u "\<lambda>c. c = 34 \<or> c = 92 \<or> is_control c"]
  by (simp add: check_label_def is_control_def)



subsection \<open>A server invites clients\<close>

definition invited_init :: "string \<Rightarrow> string \<Rightarrow> string \<Rightarrow> client_init_args" where
  "invited_init host server_id enc_public =
     \<lparr>ci_server = host, ci_server_key = Some enc_public, ci_client_id = None, ci_label = None,
      ci_server_id = server_id, ci_interval = 300, ci_no_encryption = False, ci_force = False\<rparr>"

definition invited_server :: "string \<Rightarrow> string \<Rightarrow> string \<Rightarrow> add_server_args" where
  "invited_server host server_id enc_public =
     \<lparr>as_name = server_id, as_server = host, as_server_key = Some enc_public, as_server_id = Some server_id,
      as_interval = None, as_no_encryption = False\<rparr>"

lemma suggested_words:
  assumes "host \<noteq> []" and "list_all shell_plain host" and "list_all shell_plain server_id" and "list_all shell_plain key"
  shows "shell_words (''  '' @ suggested_commands host server_id key ! 0) =
      Some (client_init_words (invited_init host server_id key))"
    and "shell_words (''  '' @ suggested_commands host server_id key ! 1) =
      Some (add_server_words (invited_server host server_id key))"
proof -
  let ?v = "[Plain ''signedpulse-client'', Plain ''init'', Plain ''--server'', Plain host, Plain ''--server-id'',
      InQuotes server_id, Plain ''--server-key'', InQuotes key]"
  let ?w = "[Plain ''signedpulse-client'', Plain ''add-server'', Plain ''--name'', InQuotes server_id, Plain ''--server'',
      Plain host, Plain ''--server-id'', InQuotes server_id, Plain ''--server-key'', InQuotes key]"
  have "word_ok (Plain host)" "word_ok (InQuotes server_id)" "word_ok (InQuotes key)"
    using assms by (simp_all add: quotable_if)
  with known_words have ok: "list_all word_ok ?v" "list_all word_ok ?w" by (simp_all del: word_ok.simps)
  have t: "suggested_commands host server_id key ! 0 = line_text ?v" "suggested_commands host server_id key ! 1 = line_text ?w"
    by (simp_all add: suggested_commands_def quoted_def)
  show "shell_words (''  '' @ suggested_commands host server_id key ! 0) =
      Some (client_init_words (invited_init host server_id key))"
    unfolding t shell_words_indented shell_words_line [OF ok(1)] by (simp add: client_init_words_def invited_init_def)
  show "shell_words (''  '' @ suggested_commands host server_id key ! 1) =
      Some (add_server_words (invited_server host server_id key))"
    unfolding t shell_words_indented shell_words_line [OF ok(2)] by (simp add: add_server_words_def invited_server_def)
qed

lemma plain_addr: "v \<noteq> [] \<Longrightarrow> list_all shell_plain v \<Longrightarrow> validate_addr v = Inr ()"
  using plain_none [of v "\<lambda>c. c = 34 \<or> c = 92 \<or> is_whitespace c \<or> is_control c"]
  by (simp add: validate_addr_def is_control_def is_whitespace_def)

lemma token_any_field: "validate_token f v = Inr u \<Longrightarrow> validate_token g v = Inr ()"
  by (simp add: validate_token_def split: if_splits)

lemma show_v4_plain: "list_all shell_plain (show_v4 a b c d)" "show_v4 a b c d \<noteq> []"
  using show_v4_ip [of a b c d] ip_plain by (auto simp: list_all_iff show_v4_def)

lemma v4_host:
  assumes "\<forall>s. parse_socket s \<noteq> None \<longrightarrow> CHR '':'' \<in> set s"
    and "parse_socket bind = Some (V4 a b c d, port)" and "\<not> is_unspecified (V4 a b c d)"
  shows "list_all shell_plain (suggest_host parse_socket routes bind)" and "suggest_host parse_socket routes bind \<noteq> []"
    and "normalize_addr parse_socket (suggest_host parse_socket routes bind) = ip_to_string (V4 a b c d) @ '':'' @ show_nat port"
proof -
  have h: "suggest_host parse_socket routes bind = host_with_port (V4 a b c d) port"
    using assms(2,3) by (simp add: suggest_host_def)
  have "shell_plain CHR '':''" by (simp add: shell_plain_def)
  with show_v4_plain number_plain show "list_all shell_plain (suggest_host parse_socket routes bind)"
    and "suggest_host parse_socket routes bind \<noteq> []"
    unfolding h by (auto simp: host_with_port_def)
  show "normalize_addr parse_socket (suggest_host parse_socket routes bind) = ip_to_string (V4 a b c d) @ '':'' @ show_nat port"
    unfolding h using suggested_host_normalizes [OF assms(1), of "replicate 8 0"] by simp
qed

lemma init_server_parts:
  "init_server P secret ex args = Inr (config, enc_public) \<Longrightarrow>
   validate_token ''--server-id'' (in_server_id args) = Inr () \<and> enc_public = b64_encode P (x_public P secret) \<and>
   config = server_config_text args (b64_encode P secret)"
  by (auto simp: init_server_def generate_encryption_keypair_def res_bind_eq_Inr split: if_splits)


definition demo_bind :: init_args where
  "demo_bind = \<lparr>in_bind = ''10.0.0.5:7370'', in_server_id = ''main'', in_hook = ''/h'', in_no_encryption = False, in_force = False\<rparr>"

definition demo_socket :: "string \<Rightarrow> (ip_addr \<times> nat) option" where
  "demo_socket s = (if s = ''10.0.0.5:7370'' then Some (V4 10 0 0 5, 7370) else None)"


text \<open>
  \<open>init --no-encryption\<close> configures a server for cleartext, but the commands it suggests are those of a
  server with encryption: a client set up by them seals what it sends, which a server in cleartext mode takes
  for faulty packets.
\<close>

theorem cleartext_server_invites_sealing_clients:
  assumes "b64_faithful P" and "init_server P secret ex args = Inr (config, key)" and "in_no_encryption args"
    and "line_feed \<notin> set (in_bind args)" and "line_feed \<notin> set (in_hook args)"
  shows "key_value ''wire_encryption'' ''off'' \<in> set (lines_of config) \<and>
    ''wire_encryption = true'' \<in> set (client_config_lines cid addr private_key (invited_init host server_id key)) \<and>
    ''wire_encryption = false'' \<notin> set (server_lines server_id addr (invited_server host server_id key))"
proof (intro conjI)
  from init_server_parts [OF assms(2)] have "validate_token ''--server-id'' (in_server_id args) = Inr ()"
    and config: "config = server_config_text args (b64_encode P secret)" by blast+
  then have "line_feed \<notin> set (in_server_id args)" using token_clean clean_newline by blast
  with assms show "key_value ''wire_encryption'' ''off'' \<in> set (lines_of config)"
    unfolding config server_config_text_def
    by (subst lines_of_unlines) (simp_all add: key_value_def quoted_def)
  show "''wire_encryption = true'' \<in> set (client_config_lines cid addr private_key (invited_init host server_id key))"
    by (simp add: client_config_lines_def invited_init_def)
  show "''wire_encryption = false'' \<notin> set (server_lines server_id addr (invited_server host server_id key))"
    by (simp add: server_lines_def invited_server_def table_header_def key_value_def)
qed

theorem cleartext_server_invites_sealing_clients_witness:
  "\<exists>config key. init_server demo demo_bytes False (demo_bind\<lparr>in_no_encryption := True\<rparr>) = Inr (config, key) \<and>
     key_value ''wire_encryption'' ''off'' \<in> set (lines_of config)"
proof -
  let ?args = "demo_bind\<lparr>in_no_encryption := True\<rparr>"
  obtain config key where i: "init_server demo demo_bytes False ?args = Inr (config, key)"
    using demo_valid(5) by (simp add: init_server_def demo_bind_def generate_encryption_keypair_def)
  with cleartext_server_invites_sealing_clients [OF demo_laws(2) i] show ?thesis by (simp add: demo_bind_def)
qed

end
