(* ===== verification/Status.thy ===== *)
theory Status
  imports Server_State Service "HOL-Library.Multiset" "HOL-Library.List_Lexorder" "HOL-Library.Char_ord"
begin

text \<open>
  Local status reporting, \<open>signedpulse-common/src/status.rs\<close>, with \<open>Server::write_status\<close> and what
  the \<open>status\<close> command computes from a snapshot: the paths of the state and pid files, the search
  for the daemon and its signal, the writing of the files, and the words and colours of the report.

  The environment, the processes and the file contents are parameters; so is the parser of the JSON
  in a state file. The lines of the report are in the theory \<open>Report\<close>.
\<close>

subsection \<open>Paths\<close>

definition state_file_in :: "string \<Rightarrow> string \<Rightarrow> string" where
  "state_file_in dir component = path_join (path_join dir ''signedpulse'') (component @ ''.state.json'')"

definition default_state_path :: "string option \<Rightarrow> string \<Rightarrow> string" where
  "default_state_path xdg component =
     (let dir = (case xdg of Some x \<Rightarrow> x | None \<Rightarrow> ''/run'') in state_file_in dir component)"

definition pid_path :: "string \<Rightarrow> string" where
  "pid_path state_path = with_extension state_path ''pid''"

definition add_path :: "string \<Rightarrow> string list \<Rightarrow> string list" where
  "add_path p out = (if p \<in> set out then out else out @ [p])"

definition state_path_candidates :: "string option \<Rightarrow> string \<Rightarrow> string list" where
  "state_path_candidates xdg component =
     (let out = (case xdg of Some x \<Rightarrow> add_path (state_file_in x component) [] | None \<Rightarrow> []);
          out = add_path (state_file_in ''/run'' component) out
      in add_path (state_file_in ''/run/user/0'' component) out)"

subsection \<open>Files\<close>

definition write_snapshot ::
  "write_env \<Rightarrow> string \<Rightarrow> string option \<Rightarrow> files \<Rightarrow> files list \<times> (io_error, unit) res" where
  "write_snapshot W path json fs =
     (case wr_parent W of
        Some e \<Rightarrow> ([fs], Inl (OsError e))
      | None \<Rightarrow>
          (case json of
             None \<Rightarrow> ([fs], Inl (OsError ''invalid data''))
           | Some text \<Rightarrow>
               (let tmp = with_extension path (''json.tmp.'' @ show_nat (wr_pid W))
                in replace_file W tmp path text 384 fs)))"

definition pid_text :: "nat \<Rightarrow> string" where
  "pid_text pid = show_nat pid @ [CHR 0x0A]"

text \<open>
  \<open>write_pidfile\<close> truncates the file, or creates it with the mode 0600, and writes the number into it; a
  file that was there keeps its mode.
\<close>

definition write_pidfile :: "write_env \<Rightarrow> string \<Rightarrow> files \<Rightarrow> files list \<times> (io_error, unit) res" where
  "write_pidfile W path fs =
     (case wr_parent W of
        Some e \<Rightarrow> ([fs], Inl (OsError e))
      | None \<Rightarrow>
          (case wr_open W of
             Some e \<Rightarrow> ([fs], Inl (OsError e))
           | None \<Rightarrow>
               (let mode = (case fs path of Some (_, m) \<Rightarrow> m | None \<Rightarrow> 384);
                    contents = pid_text (wr_pid W);
                    upto = (\<lambda>n. fs # map (\<lambda>k. fs(path \<mapsto> (take k contents, mode))) [0..<Suc n])
                in case wr_write W of
                     Some (n, e) \<Rightarrow> (upto n, Inl (OsError e))
                   | None \<Rightarrow> (upto (length contents), Inr ()))))"

text \<open>\<open>str::parse::<i32>\<close>.\<close>

definition is_digit :: "char \<Rightarrow> bool" where
  "is_digit c \<longleftrightarrow> 48 \<le> (of_char c :: nat) \<and> (of_char c :: nat) \<le> 57"

definition parse_digits :: "string \<Rightarrow> nat option" where
  "parse_digits s = (if s \<noteq> [] \<and> list_all is_digit s then Some (nat_of_digits s) else None)"

definition parse_i32 :: "string \<Rightarrow> int option" where
  "parse_i32 s =
     (case s of
        [] \<Rightarrow> None
      | c # r \<Rightarrow>
          if c = CHR ''-'' then
            (case parse_digits r of Some n \<Rightarrow> if n \<le> 2 ^ 31 then Some (- int n) else None | None \<Rightarrow> None)
          else
            (case parse_digits (if c = CHR ''+'' then r else s) of
               Some n \<Rightarrow> if n < 2 ^ 31 then Some (int n) else None
             | None \<Rightarrow> None))"

definition read_pid :: "string option \<Rightarrow> int option" where
  "read_pid text =
     (case text of
        None \<Rightarrow> None
      | Some t \<Rightarrow> (case parse_i32 (trim t) of None \<Rightarrow> None | Some pid \<Rightarrow> if 0 < pid then Some pid else None))"

subsection \<open>Finding the daemon\<close>

text \<open>
  What the \<open>status\<close> command sees: the text of a file when it can be read, \<open>kill(pid, 0)\<close>, the
  executable and the command name of a process, the modification time of a file at its k-th reading, and
  the parsed snapshot.
\<close>

record 'a machine =
  m_text :: "string \<Rightarrow> string option"
  m_kill0 :: "int \<Rightarrow> bool"
  m_exe :: "int \<Rightarrow> string option"
  m_comm :: "int \<Rightarrow> string option"
  m_mtime :: "nat \<Rightarrow> string \<Rightarrow> nat option"
  m_snapshot :: "string \<Rightarrow> 'a option"

definition process_alive :: "'a machine \<Rightarrow> int \<Rightarrow> bool" where
  "process_alive M pid \<longleftrightarrow> 0 < pid \<and> m_kill0 M pid"

definition trim_end :: "string \<Rightarrow> string" where
  "trim_end s = rev (trim_by ws_width_rev (rev s))"

definition process_is_signedpulse :: "'a machine \<Rightarrow> int \<Rightarrow> bool" where
  "process_is_signedpulse M pid =
     (case m_exe M pid of
        Some exe \<Rightarrow> has_file_name exe \<and> valid_utf8 (file_name exe) \<and> starts_with (file_name exe) ''signedpulse''
      | None \<Rightarrow> (case m_comm M pid of Some comm \<Rightarrow> starts_with (trim_end comm) ''signedpulse'' | None \<Rightarrow> False))"

text \<open>The poll loop: the number of sleeps of 20 ms, at most \<open>n\<close>, from the k-th reading on.\<close>

fun poll :: "(nat \<Rightarrow> nat option) \<Rightarrow> nat option \<Rightarrow> nat \<Rightarrow> nat \<Rightarrow> nat" where
  "poll mtime before k 0 = 0"
| "poll mtime before k (Suc n) =
     (if mtime k \<noteq> before \<and> mtime k \<noteq> None then 1 else Suc (poll mtime before (Suc k) n))"

text \<open>The processes signalled, the sleeps and the snapshot.\<close>

definition refresh_and_read :: "'a machine \<Rightarrow> string \<Rightarrow> string \<Rightarrow> int list \<times> nat \<times> 'a option" where
  "refresh_and_read M state_path pid_file =
     (case read_pid (m_text M pid_file) of
        None \<Rightarrow> ([], 0, None)
      | Some pid \<Rightarrow>
          if \<not> process_alive M pid \<or> \<not> process_is_signedpulse M pid then ([], 0, None)
          else
            (let before = m_mtime M 0 state_path
             in ([pid], poll (\<lambda>k. m_mtime M k state_path) before 1 50, m_snapshot M state_path)))"

fun probe :: "'a machine \<Rightarrow> string list \<Rightarrow> int list \<times> 'a option" where
  "probe M [] = ([], None)"
| "probe M (sp # sps) =
     (case refresh_and_read M sp (pid_path sp) of
        (signals, _, Some snap) \<Rightarrow> (signals, Some snap)
      | (signals, _, None) \<Rightarrow> (let (more, r) = probe M sps in (signals @ more, r)))"

definition refresh_and_read_component ::
  "'a machine \<Rightarrow> string option \<Rightarrow> string \<Rightarrow> string option \<Rightarrow> int list \<times> 'a option" where
  "refresh_and_read_component M xdg component configured =
     (let paths = (case configured of Some p \<Rightarrow> [p] | None \<Rightarrow> state_path_candidates xdg component) in probe M paths)"

subsection \<open>Snapshots\<close>

record lease_info =
  le_source_ip :: ip_addr
  le_client_id :: string
  le_revoke_in_seconds :: nat

record server_dump =
  sd_status :: status_snapshot
  sd_active_leases :: nat
  sd_leases :: "lease_info list"

definition write_status :: "instant \<Rightarrow> server \<Rightarrow> server_dump" where
  "write_status now s =
     (let leases = map (\<lambda>(ip, cid, secs). \<lparr>le_source_ip = ip, le_client_id = cid, le_revoke_in_seconds = secs\<rparr>)
            (live_snapshot now (sv_leases s));
          leases = sort_key le_revoke_in_seconds leases
      in \<lparr>sd_status = sv_status s, sd_active_leases = length leases, sd_leases = leases\<rparr>)"

subsection \<open>Words and colours\<close>

definition duration_words :: "int \<Rightarrow> string" where
  "duration_words secs0 =
     (let secs = max secs0 0; h = secs div 3600; m = (secs mod 3600) div 60; s = secs mod 60
      in if 0 < h then show_int h @ ''h'' @ show_int m @ ''m''
         else if 0 < m then show_int m @ ''m'' @ show_int s @ ''s''
         else show_int s @ ''s'')"

definition ago :: "int \<Rightarrow> int \<Rightarrow> string" where
  "ago now at_unix = (let secs = max (now - at_unix) 0 in duration_words secs @ '' ago'')"

record styler =
  sy_color :: bool

definition for_stdout :: "bool \<Rightarrow> bool \<Rightarrow> styler" where
  "for_stdout terminal_out no_color_set = \<lparr>sy_color = terminal_out \<and> \<not> no_color_set\<rparr>"

definition plain :: styler where
  "plain = \<lparr>sy_color = False\<rparr>"

definition wrap :: "styler \<Rightarrow> string \<Rightarrow> string \<Rightarrow> string" where
  "wrap st code s = (if sy_color st then CHR 0x1B # ''['' @ code @ ''m'' @ s @ CHR 0x1B # ''[0m'' else s)"

definition bold :: "styler \<Rightarrow> string \<Rightarrow> string" where "bold st = wrap st ''1''"
definition dim :: "styler \<Rightarrow> string \<Rightarrow> string" where "dim st = wrap st ''2''"
definition red :: "styler \<Rightarrow> string \<Rightarrow> string" where "red st = wrap st ''31''"
definition green :: "styler \<Rightarrow> string \<Rightarrow> string" where "green st = wrap st ''32''"
definition yellow :: "styler \<Rightarrow> string \<Rightarrow> string" where "yellow st = wrap st ''33''"
definition cyan :: "styler \<Rightarrow> string \<Rightarrow> string" where "cyan st = wrap st ''36''"

definition service_word :: "service_state \<Rightarrow> string" where
  "service_word st =
     (case st of Active \<Rightarrow> ''active (running)'' | Inactive \<Rightarrow> ''inactive'' | UnknownState \<Rightarrow> ''unknown'')"

definition service_styled :: "styler \<Rightarrow> service_state \<Rightarrow> string" where
  "service_styled st state =
     (let word = service_word state in
      case state of Active \<Rightarrow> green st word | Inactive \<Rightarrow> red st word | UnknownState \<Rightarrow> yellow st word)"

definition hook_outcome :: "styler \<Rightarrow> hook_info \<Rightarrow> string" where
  "hook_outcome st h =
     (if hi_timed_out h then red st ''timed out''
      else
        let code = (case hi_exit_code h of Some c \<Rightarrow> show_int c | None \<Rightarrow> ''?'');
            text = ''exit '' @ code
        in if hi_exit_code h = Some 0 then green st text else red st text)"

text \<open>
  \<open>max_by_key\<close> over the values of a \<open>BTreeMap\<close>: in the order of the keys, the last of the
  elements with the greatest key.
\<close>

fun max_by_key :: "('a \<Rightarrow> int) \<Rightarrow> 'a option \<Rightarrow> 'a list \<Rightarrow> 'a option" where
  "max_by_key f best [] = best"
| "max_by_key f best (x # xs) =
     max_by_key f (case best of None \<Rightarrow> Some x | Some b \<Rightarrow> if f b \<le> f x then Some x else Some b) xs"

definition by_name :: "(string, 'v) hmap \<Rightarrow> 'v list" where
  "by_name m = map snd (sort_key fst m)"

definition latest_pulse :: "status_snapshot \<Rightarrow> pulse_info option" where
  "latest_pulse s = max_by_key pi_at_unix None (List.map_filter cl_last_pulse (by_name (st_clients s)))"

definition latest_hook :: "status_snapshot \<Rightarrow> hook_info option" where
  "latest_hook s = max_by_key hi_at_unix None (List.map_filter cl_last_hook (by_name (st_clients s)))"

definition latest_revoke :: "status_snapshot \<Rightarrow> hook_info option" where
  "latest_revoke s = max_by_key hi_at_unix None (List.map_filter cl_last_revoke (by_name (st_clients s)))"

subsection \<open>The pid file\<close>

lemma digits_show_nat: "list_all is_digit (show_nat n)"
  using show_nat_chars by (auto simp: list_all_iff is_digit_def)

lemma parse_i32_show_nat: "n < 2 ^ 31 \<Longrightarrow> parse_i32 (show_nat n) = Some (int n)"
proof -
  assume n: "n < 2 ^ 31"
  obtain c r where s: "show_nat n = c # r" by (cases "show_nat n") simp_all
  then have "c \<in> set (show_nat n)" by simp
  then have "48 \<le> (of_char c :: nat)" using show_nat_chars by blast
  then have "c \<noteq> CHR ''-''" "c \<noteq> CHR ''+''" by auto
  moreover have "nat_of_digits (c # r) = n" "list_all is_digit (c # r)"
    using s nat_of_digits_show_nat [of n] digits_show_nat [of n] by simp_all
  ultimately show ?thesis using s n by (simp add: parse_i32_def parse_digits_def)
qed

lemma trim_line: "graphic s \<Longrightarrow> s \<noteq> [] \<Longrightarrow> trim (s @ [CHR 0x0A]) = s"
proof -
  assume g: "graphic s" and "s \<noteq> []"
  then obtain c r where s: "s = c # r" by (cases s) auto
  have front: "trim_by ws_width (s @ [CHR 0x0A]) = s @ [CHR 0x0A]"
    using g s by (simp add: graphic_def ws_width_graphic)
  obtain d q where q: "rev s = d # q" using \<open>s \<noteq> []\<close> by (cases "rev s") auto
  then have "d \<in> set s" by (metis list.set_intros(1) set_rev)
  then have d: "33 \<le> (of_char d :: nat)" "(of_char d :: nat) < 128" using g by (auto simp: graphic_def)
  have "ws_width_rev (10 # xs) = 1" for xs
    by (cases "10 # xs" rule: ws_width_rev.cases) (auto simp: ws1_def)
  then have "trim_by ws_width_rev (CHR 0x0A # rev s) = rev s"
    using d q by (simp add: ws_width_rev_graphic)
  with front show ?thesis by (simp add: trim_def)
qed

lemma graphic_show_nat: "graphic (show_nat n)"
  unfolding graphic_def using show_nat_chars by fastforce

lemma read_pid_positive: "read_pid t = Some pid \<Longrightarrow> 0 < pid \<and> pid < 2 ^ 31"
  by (auto simp: read_pid_def parse_i32_def split: option.splits list.splits if_splits)

text \<open>
  The status command reads back the pid that the daemon has written, for every pid that fits an i32; it
  takes no other number than a positive one, so a damaged or hostile file cannot make
  it signal a process group or every process.
\<close>

theorem pid_file_round_trip:
  "(0 < pid \<and> pid < 2 ^ 31 \<longrightarrow> read_pid (Some (pid_text pid)) = Some (int pid)) \<and>
   (\<forall>t p. read_pid t = Some p \<longrightarrow> 0 < p \<and> p < 2 ^ 31)"
  using read_pid_positive
  by (auto simp: read_pid_def pid_text_def trim_line graphic_show_nat parse_i32_show_nat)

theorem pid_file_round_trip_witness: "read_pid (Some (pid_text 4711)) = Some 4711"
  using pid_file_round_trip [of 4711] by simp

text \<open>
  A pid file that was written completely names the daemon, whatever was in it before; no other file changes.
\<close>

lemma written_pidfile:
  assumes "write_pidfile W path fs = (states, r)"
  shows "\<forall>f \<in> set states. \<forall>q. q \<noteq> path \<longrightarrow> f q = fs q"
    and "r = Inr () \<Longrightarrow> 0 < wr_pid W \<Longrightarrow> wr_pid W < 2 ^ 31 \<Longrightarrow> read_pid (map_option fst (last states path)) = Some (int (wr_pid W))"
  using assms
  by (auto simp: write_pidfile_def Let_def last_map pid_text_def read_pid_def trim_line graphic_show_nat parse_i32_show_nat
      split: option.splits)

subsection \<open>Finding the daemon\<close>

lemma poll_bounded: "poll mtime before k n \<le> n"
  by (induction mtime before k n rule: poll.induct) auto

lemma refresh_signals:
  "refresh_and_read M sp pf = (signals, sleeps, r) \<Longrightarrow>
   sleeps \<le> 50 \<and> length signals \<le> 1 \<and>
   (\<forall>pid \<in> set signals. 0 < pid \<and> process_alive M pid \<and> process_is_signedpulse M pid \<and> read_pid (m_text M pf) = Some pid) \<and>
   (r \<noteq> None \<longrightarrow> signals \<noteq> [] \<and> r = m_snapshot M sp)"
  by (auto simp: refresh_and_read_def process_alive_def poll_bounded split: option.splits if_splits)

lemma probe_signals:
  "probe M sps = (signals, r) \<Longrightarrow> length signals \<le> length sps \<and>
   (\<forall>pid \<in> set signals. 0 < pid \<and> process_alive M pid \<and> process_is_signedpulse M pid \<and>
      (\<exists>sp \<in> set sps. read_pid (m_text M (pid_path sp)) = Some pid)) \<and>
   (\<forall>snap. r = Some snap \<longrightarrow> (\<exists>sp \<in> set sps. m_snapshot M sp = Some snap))"
proof (induction sps arbitrary: signals r)
  case (Cons sp sps)
  obtain s1 k r1 where f: "refresh_and_read M sp (pid_path sp) = (s1, k, r1)" by (metis prod_cases3)
  obtain s2 r2 where p: "probe M sps = (s2, r2)" by fastforce
  from Cons.prems Cons.IH [OF p] refresh_signals [OF f] f p show ?case
    by (auto split: option.splits)
qed auto

lemma candidates_cover:
  "d \<in> {None, xdg, Some ''/run/user/0''} \<Longrightarrow> default_state_path d c \<in> set (state_path_candidates xdg c)"
  by (auto simp: default_state_path_def state_path_candidates_def add_path_def Let_def split: option.splits)

lemma candidates_distinct: "distinct (state_path_candidates xdg c)"
  by (auto simp: state_path_candidates_def add_path_def Let_def split: option.splits)

lemma candidates_few: "length (state_path_candidates xdg c) \<le> 3"
  by (auto simp: state_path_candidates_def add_path_def Let_def split: option.splits)


definition demo_machine :: "nat machine" where
  "demo_machine = \<lparr>m_text = (\<lambda>p. if p = ''/run/signedpulse/server.state.pid'' then Some (pid_text 42) else None),
     m_kill0 = (\<lambda>pid. pid = 42), m_exe = (\<lambda>_. Some ''/usr/bin/signedpulse-server''), m_comm = (\<lambda>_. None),
     m_mtime = (\<lambda>k _. Some (k div 3)), m_snapshot = (\<lambda>_. Some 7)\<rparr>"


subsection \<open>Snapshots\<close>

lemma write_snapshot_atomic:
  assumes "has_file_name path" and "write_snapshot W path (Some text) fs = (states, r)"
  shows "(\<forall>f \<in> set states. f path \<in> {fs path, Some (text, 384)}) \<and> (r = Inr () \<longrightarrow> last states path = Some (text, 384))"
proof -
  let ?tmp = "with_extension path (''json.tmp.'' @ show_nat (wr_pid W))"
  have tmp: "?tmp \<noteq> path" using assms(1) by (rule numbered_extension_differs) simp
  show ?thesis
  proof (cases "wr_parent W")
    case None
    with assms(2) have "replace_file W ?tmp path text 384 fs = (states, r)" by (simp add: write_snapshot_def Let_def)
    from replace_file_atomic [OF tmp this] show ?thesis by blast
  next
    case (Some e)
    with assms(2) show ?thesis by (auto simp: write_snapshot_def)
  qed
qed

lemma max_by_key_max:
  "max_by_key f best xs = Some m \<Longrightarrow> m \<in> set_option best \<union> set xs \<and> (\<forall>x \<in> set_option best \<union> set xs. f x \<le> f m)"
proof (induction f best xs arbitrary: m rule: max_by_key.induct)
  case (2 f best x xs)
  let ?best = "case best of None \<Rightarrow> Some x | Some b \<Rightarrow> if f b \<le> f x then Some x else Some b"
  have "m \<in> set_option ?best \<union> set xs" "\<forall>y \<in> set_option ?best \<union> set xs. f y \<le> f m"
    using "2.IH" [of m] "2.prems" by simp_all
  then show ?case by (cases best) (auto split: if_splits)
qed auto

lemma max_by_key_None: "max_by_key f best xs = None \<longleftrightarrow> best = None \<and> xs = []"
  by (induction f best xs rule: max_by_key.induct) (auto split: option.splits)

lemma set_by_name: "set (by_name m) = snd ` set m"
  by (simp add: by_name_def)

lemma map_filter_set: "set (List.map_filter f xs) = {y. \<exists>x \<in> set xs. f x = Some y}"
  by (induction xs) (auto simp: map_filter_simps split: option.splits)

lemma latest_spec:
  "case max_by_key f None (List.map_filter g (by_name m)) of
      None \<Rightarrow> \<forall>c \<in> snd ` set m. g c = None
    | Some p \<Rightarrow> (\<exists>c \<in> snd ` set m. g c = Some p) \<and> (\<forall>c \<in> snd ` set m. \<forall>q. g c = Some q \<longrightarrow> f q \<le> f p)"
proof -
  let ?ps = "List.map_filter g (by_name m)"
  have ps: "p \<in> set ?ps \<longleftrightarrow> (\<exists>c \<in> snd ` set m. g c = Some p)" for p
    by (simp only: map_filter_set set_by_name mem_Collect_eq)
  show ?thesis
  proof (cases "max_by_key f None ?ps")
    case None
    then have "set ?ps = {}" by (simp only: max_by_key_None) simp
    with ps have "\<forall>c \<in> snd ` set m. g c = None" by (metis empty_iff not_None_eq)
    then show ?thesis by (simp only: None option.case)
  next
    case (Some p)
    from max_by_key_max [OF Some] have "p \<in> set ?ps" "\<forall>q \<in> set ?ps. f q \<le> f p" by simp_all
    with ps have r: "(\<exists>c \<in> snd ` set m. g c = Some p) \<and> (\<forall>c \<in> snd ` set m. \<forall>q. g c = Some q \<longrightarrow> f q \<le> f p)" by blast
    show ?thesis unfolding Some option.case by (rule r)
  qed
qed

text \<open>
  What \<open>write_status\<close> dumps is what the server holds: one entry for each live lease, the next to be revoked first,
  and their number; and the pulse that the report shows as the last is one of a client's last pulses
  than which no other is later, none exactly when no client has one.
\<close>

theorem report_shows_the_state:
  "mset (map (\<lambda>l. (le_source_ip l, le_client_id l, le_revoke_in_seconds l)) (sd_leases (write_status now s))) =
     mset (live_snapshot now (sv_leases s)) \<and>
   sorted (map le_revoke_in_seconds (sd_leases (write_status now s))) \<and>
   sd_active_leases (write_status now s) = active_count now (sv_leases s) \<and>
   (case latest_pulse st of
      None \<Rightarrow> \<forall>c \<in> snd ` set (st_clients st). cl_last_pulse c = None
    | Some p \<Rightarrow> (\<exists>c \<in> snd ` set (st_clients st). cl_last_pulse c = Some p) \<and>
        (\<forall>c \<in> snd ` set (st_clients st). \<forall>q. cl_last_pulse c = Some q \<longrightarrow> pi_at_unix q \<le> pi_at_unix p))"
proof (intro conjI)
  let ?raw = "map (\<lambda>(ip, cid, secs). \<lparr>le_source_ip = ip, le_client_id = cid, le_revoke_in_seconds = secs\<rparr>)
            (live_snapshot now (sv_leases s))"
  have d: "sd_leases (write_status now s) = sort_key le_revoke_in_seconds ?raw"
    by (simp add: write_status_def Let_def)
  have raw: "map (\<lambda>l. (le_source_ip l, le_client_id l, le_revoke_in_seconds l)) ?raw = live_snapshot now (sv_leases s)"
    by (simp add: comp_def case_prod_unfold)
  have sorted: "mset (map g (sort_key k xs)) = mset (map g xs)" for g :: "lease_info \<Rightarrow> 'b" and k :: "lease_info \<Rightarrow> nat" and xs
    by simp
  show "mset (map (\<lambda>l. (le_source_ip l, le_client_id l, le_revoke_in_seconds l)) (sd_leases (write_status now s))) =
     mset (live_snapshot now (sv_leases s))"
    unfolding d sorted raw by (rule refl)
  show "sorted (map le_revoke_in_seconds (sd_leases (write_status now s)))" by (simp add: d)
  show "sd_active_leases (write_status now s) = active_count now (sv_leases s)"
    by (simp add: write_status_def Let_def live_snapshot_def active_count_def)
next
  show "case latest_pulse st of
      None \<Rightarrow> \<forall>c \<in> snd ` set (st_clients st). cl_last_pulse c = None
    | Some p \<Rightarrow> (\<exists>c \<in> snd ` set (st_clients st). cl_last_pulse c = Some p) \<and>
        (\<forall>c \<in> snd ` set (st_clients st). \<forall>q. cl_last_pulse c = Some q \<longrightarrow> pi_at_unix q \<le> pi_at_unix p)"
    unfolding latest_pulse_def by (rule latest_spec)
qed

end
