(* ===== verification/Report.thy ===== *)
theory Report
  imports Status Client
begin

text \<open>
  The reports of the two \<open>status\<close> commands (\<open>signedpulse-server/src/cli.rs\<close> and
  \<open>signedpulse-client/src/cli.rs\<close>), line by line, from the snapshot that the daemon dumped: \<open>status\<close>,
  \<open>hook_outcome\<close>, and the layout with its colours and paddings. A report is the list of the lines
  printed. The snapshots are as they are read back from the state file; the clock is read once, where the
  source reads it for each line. The last results of the client's legs are texts here, as in the file.

  Shown are that colours change nothing but colours, that what a client passes to the hook as its
  parameter never shows up, and which leases are listed.
\<close>

subsection \<open>Layout\<close>

text \<open>Formatting pads by characters, not by bytes.\<close>

definition char_count :: "string \<Rightarrow> nat" where
  "char_count s = (case utf8_decode (codes s) of Some cps \<Rightarrow> length cps | None \<Rightarrow> length s)"

definition pad :: "nat \<Rightarrow> string \<Rightarrow> string" where
  "pad n s = s @ replicate (n - char_count s) CHR '' ''"

definition dot :: string where "dot = [CHR '' '', CHR 0xC2, CHR 0xB7, CHR '' '']"
definition arrow :: string where "arrow = [CHR '' '', CHR 0xE2, CHR 0x86, CHR 0x92, CHR '' '']"

definition entry :: "styler \<Rightarrow> string \<Rightarrow> nat \<Rightarrow> string \<Rightarrow> string \<Rightarrow> string" where
  "entry st margin width k v = margin @ dim st (pad width k) @ ''  '' @ v"

definition kv :: "styler \<Rightarrow> string \<Rightarrow> string \<Rightarrow> string" where "kv st = entry st ''  '' 11"
definition act :: "styler \<Rightarrow> string \<Rightarrow> string \<Rightarrow> string" where "act st = entry st ''  '' 12"

text \<open>\<open>i64::saturating_sub\<close>, the cast of a \<open>u64\<close> and the clamp of an \<open>i128\<close>.\<close>

definition to_i64 :: "int \<Rightarrow> int" where
  "to_i64 x = max i64_min (min i64_max x)"

definition as_i64 :: "nat \<Rightarrow> int" where
  "as_i64 n = (let k = int (n mod 2 ^ 64) in if k < 2 ^ 63 then k else k - 2 ^ 64)"

definition service_line :: "styler \<Rightarrow> service_state \<times> string \<Rightarrow> string" where
  "service_line st svc = kv st ''service'' (service_styled st (fst svc) @ '' '' @ dim st (''['' @ snd svc @ '']''))"

definition no_data :: "styler \<Rightarrow> string \<Rightarrow> string" where
  "no_data st component =
     kv st ''status'' (yellow st (''no live data ('' @ component @ '' not running, or could not refresh state file)''))"

definition pid_line :: "styler \<Rightarrow> int \<Rightarrow> nat \<Rightarrow> int \<Rightarrow> string" where
  "pid_line st now pid started_at =
     kv st ''pid'' (show_nat pid @ dot @ ''uptime '' @ duration_words (to_i64 (now - started_at)))"

subsection \<open>The server\<close>

record server_snapshot =
  sn_started_at :: int
  sn_pid :: nat
  sn_dump :: server_dump

definition pulse_words :: "int \<Rightarrow> pulse_info \<Rightarrow> string" where
  "pulse_words now p =
     ip_to_string (pi_source_ip p) @ '':'' @ show_nat (pi_source_port p) @ dot @ ago now (pi_at_unix p)"

definition reason_words :: "styler \<Rightarrow> hook_info \<Rightarrow> string" where
  "reason_words st h =
     (let reason = unwrap_or (hi_reason h) ''expired'' in if reason = ''bye'' then cyan st reason else yellow st reason)"

definition hook_words :: "styler \<Rightarrow> int \<Rightarrow> string \<Rightarrow> hook_info \<Rightarrow> string" where
  "hook_words st now what h = what @ dot @ hook_outcome st h @ dot @ ago now (hi_at_unix h)"

definition hook_subject :: "string \<Rightarrow> hook_info \<Rightarrow> string" where
  "hook_subject what h = what @ '' '' @ quoted (hi_client_id h) @ arrow @ ip_to_string (hi_source_ip h)"

definition activity_lines :: "styler \<Rightarrow> int \<Rightarrow> status_snapshot \<Rightarrow> string list" where
  "activity_lines st now s =
     [[],
      bold st ''Activity'',
      act st ''last pulse'' (case latest_pulse s of Some p \<Rightarrow> pulse_words now p | None \<Rightarrow> dim st ''none yet''),
      act st ''last hook''
        (case latest_hook s of
           Some h \<Rightarrow> hook_words st now (hook_subject (green st ''grant'') h) h
         | None \<Rightarrow> dim st ''none yet'')] @
     (case latest_revoke s of
        Some h \<Rightarrow> [act st ''last revoke'' (hook_words st now (hook_subject (reason_words st h) h) h)]
      | None \<Rightarrow> [])"

definition num :: "styler \<Rightarrow> nat \<Rightarrow> bool \<Rightarrow> string" where
  "num st n warn = (let s = show_nat n in if warn \<and> 0 < n then red st s else dim st s)"

definition counter_lines :: "styler \<Rightarrow> server_dump \<Rightarrow> string list" where
  "counter_lines st d =
     (let s = sd_status d in
      [[],
       bold st ''Counters'',
       ''  hello '' @ num st (st_hello_accepted s) False @ dot @
       ''verified '' @ green st (show_nat (st_verified s)) @ dot @
       ''rejected '' @ num st (st_rejected s) True @ dot @
       ''replays '' @ num st (st_replays s) True @ dot @
       ''leases '' @ num st (sd_active_leases d) False])"

definition client_rows :: "styler \<Rightarrow> int \<Rightarrow> string \<times> client_status \<Rightarrow> string list" where
  "client_rows st now e =
     (let (name, c) = e; row = entry st ''    '' 7 in
      [''  '' @ bold st name] @
      (case cl_last_pulse c of Some p \<Rightarrow> [row ''pulse'' (pulse_words now p)] | None \<Rightarrow> []) @
      (case cl_last_hook c of Some h \<Rightarrow> [row ''hook'' (hook_words st now (green st ''grant'') h)] | None \<Rightarrow> []) @
      (case cl_last_revoke c of Some h \<Rightarrow> [row ''revoke'' (hook_words st now (reason_words st h) h)] | None \<Rightarrow> []))"

definition client_lines_of :: "styler \<Rightarrow> int \<Rightarrow> status_snapshot \<Rightarrow> string list" where
  "client_lines_of st now s =
     (if st_clients s = [] then []
      else [[], bold st ''Clients'' @ '' '' @ dim st (''('' @ show_nat (length (st_clients s)) @ '')'')] @
        concat (map (client_rows st now) (sort_key fst (st_clients s))))"

text \<open>The labels by the identifier as it is written in the configuration; of two entries the later one counts.\<close>

definition labels :: "client_entry list \<Rightarrow> (string \<times> string) list" where
  "labels cs = rev (List.map_filter (\<lambda>c. map_option (Pair (ce_client_id c)) (ce_label c)) cs)"

definition lease_owner :: "client_entry list \<Rightarrow> lease_info \<Rightarrow> string" where
  "lease_owner cs l = unwrap_or (map_of (labels cs) (le_client_id l)) (le_client_id l)"

definition lease_row :: "styler \<Rightarrow> client_entry list \<Rightarrow> lease_info \<Rightarrow> string" where
  "lease_row st cs l =
     ''  '' @ pad 20 (ip_to_string (le_source_ip l)) @ '' '' @ pad 16 (lease_owner cs l) @ '' '' @
     dim st (''revoke in '' @ duration_words (as_i64 (le_revoke_in_seconds l)))"

definition lease_lines :: "styler \<Rightarrow> client_entry list \<Rightarrow> lease_info list \<Rightarrow> string list" where
  "lease_lines st cs ls =
     (if ls = [] then []
      else [[], bold st ''Leases'' @ '' '' @ dim st ''(revoked when the countdown elapses with no new pulse)''] @
        map (lease_row st cs) ls)"

definition server_head :: "styler \<Rightarrow> service_state \<times> string \<Rightarrow> string \<Rightarrow> server_config \<Rightarrow> string list" where
  "server_head st svc path config =
     [bold st ''SignedPulse server'',
      service_line st svc,
      kv st ''config'' path,
      kv st [] (dim st (''bind '' @ ss_bind (sc_server config) @ dot @ ''server_id '' @ ss_server_id (sc_server config) @ dot @
        ''clients '' @ show_nat (length (sc_clients config))))]"

definition server_report ::
  "styler \<Rightarrow> service_state \<times> string \<Rightarrow> string \<Rightarrow> server_config \<Rightarrow> int \<Rightarrow> server_snapshot option \<Rightarrow> string list" where
  "server_report st svc path config now snapshot =
     server_head st svc path config @
     (case snapshot of
        None \<Rightarrow> [no_data st ''server'']
      | Some s \<Rightarrow>
          (let d = sn_dump s in
           [pid_line st now (sn_pid s) (sn_started_at s)] @ activity_lines st now (sd_status d) @
           counter_lines st d @ client_lines_of st now (sd_status d) @ lease_lines st (sc_clients config) (sd_leases d)))"

subsection \<open>The client\<close>

record leg_snapshot =
  lg_server_addr :: string
  lg_server_id :: string
  lg_interval_seconds :: nat
  lg_last_attempt :: "int option"
  lg_last_success :: "int option"
  lg_last_result :: string

record client_snapshot =
  cn_started_at :: int
  cn_pid :: nat
  cn_servers :: "(string, leg_snapshot) hmap"

definition next_in :: "int \<Rightarrow> int \<Rightarrow> nat \<Rightarrow> int" where
  "next_in now attempt interval = to_i64 (attempt + int interval - now)"

definition result_words :: "styler \<Rightarrow> string \<Rightarrow> string" where
  "result_words st r = (if r = ''ok'' then green st r else if r = ''pending'' then dim st r else red st r)"

definition leg_rows :: "styler \<Rightarrow> int \<Rightarrow> string \<times> leg_snapshot \<Rightarrow> string list" where
  "leg_rows st now e =
     (let (name, leg) = e; row = entry st ''    '' 11 in
      [''  '' @ bold st name @ '' '' @
         dim st
           (if lg_server_id leg \<noteq> [] \<and> lg_server_id leg \<noteq> name
            then ''(server_id '' @ lg_server_id leg @ '', '' @ lg_server_addr leg @ '')''
            else ''('' @ lg_server_addr leg @ '')''),
       row ''last pulse''
         (case lg_last_success leg of Some t \<Rightarrow> green st ''OK'' @ dot @ ago now t | None \<Rightarrow> dim st ''none succeeded yet'')] @
      (case lg_last_attempt leg of
         None \<Rightarrow> []
       | Some attempt \<Rightarrow>
           (let n = next_in now attempt (lg_interval_seconds leg) in
            [row ''next pulse'' (if 0 < n then ''in ~'' @ duration_words n else yellow st ''due now'')])) @
      [row ''last result'' (result_words st (lg_last_result leg))])"

definition servers_note :: "client_section \<Rightarrow> string" where
  "servers_note c =
     (let extra = length (cs_servers c) in
      if 0 < extra then cs_server_addr c @ '' (+'' @ show_nat extra @ '' more)'' else cs_server_addr c)"

definition client_report ::
  "styler \<Rightarrow> service_state \<times> string \<Rightarrow> string \<Rightarrow> client_section \<Rightarrow> int \<Rightarrow> client_snapshot option \<Rightarrow> string list" where
  "client_report st svc path c now snapshot =
     [bold st ''SignedPulse client'',
      service_line st svc,
      kv st ''config'' path,
      kv st [] (dim st (''client_id '' @ cs_client_id c @ dot @ ''server '' @ servers_note c))] @
     (case snapshot of
        None \<Rightarrow> [no_data st ''client'']
      | Some s \<Rightarrow>
          [pid_line st now (cn_pid s) (cn_started_at s),
           [],
           bold st ''Servers'' @ '' '' @ dim st (''('' @ show_nat (length (cn_servers s)) @ '')'')] @
          concat (map (leg_rows st now) (sort_key fst (cn_servers s))))"

text \<open>
  The whole commands: \<open>--json\<close> prints the dump or \<open>null\<close>, the serialiser being a parameter. The
  first component are the processes that were signalled.
\<close>

definition status_command ::
  "('a option \<Rightarrow> string list) \<Rightarrow> ('a \<Rightarrow> string) \<Rightarrow> 'a machine \<Rightarrow> string option \<Rightarrow> string \<Rightarrow> string option \<Rightarrow> bool \<Rightarrow>
   int list \<times> string list" where
  "status_command report to_json M xdg component configured json =
     (let (signals, snapshot) = refresh_and_read_component M xdg component configured in
      (signals,
       if json then [case snapshot of Some s \<Rightarrow> to_json s | None \<Rightarrow> ''null''] else report snapshot))"

subsection \<open>Colours\<close>

text \<open>What a terminal shows of a line: the escape sequences up to their \<open>m\<close> are invisible.\<close>

fun visible :: "bool \<Rightarrow> string \<Rightarrow> string" where
  "visible esc [] = []"
| "visible esc (c # s) =
     (if esc then visible (c \<noteq> CHR ''m'') s else if c = CHR 0x1B then visible True s else c # visible False s)"

definition no_escape :: "string \<Rightarrow> bool" where
  "no_escape s \<longleftrightarrow> CHR 0x1B \<notin> set s"

definition coloured :: styler where
  "coloured = \<lparr>sy_color = True\<rparr>"

text \<open>\<open>renders a b\<close>: in every context \<open>a\<close> shows as \<open>b\<close>, unless \<open>b\<close> brings an escape of its own.\<close>

definition renders :: "string \<Rightarrow> string \<Rightarrow> bool" where
  "renders a b \<longleftrightarrow> (no_escape b \<longrightarrow> (\<forall>r. visible False (a @ r) = b @ visible False r))"

lemma visible_clean: "no_escape s \<Longrightarrow> visible False (s @ r) = s @ visible False r"
  by (induction s) (auto simp: no_escape_def)

lemma visible_code: "CHR ''m'' \<notin> set code \<Longrightarrow> visible True (code @ CHR ''m'' # r) = visible False r"
  by (induction code) auto

named_theorems shows_as

lemma renders_same [shows_as]: "renders s s"
  by (simp add: renders_def visible_clean)

lemma renders_append [shows_as]: "renders a a' \<Longrightarrow> renders b b' \<Longrightarrow> renders (a @ b) (a' @ b')"
  by (auto simp: renders_def no_escape_def)

lemma renders_Cons [shows_as]: "renders a b \<Longrightarrow> renders (c # a) (c # b)"
  using renders_append [of "[c]" "[c]" a b] by (simp add: renders_same)

lemma renders_wrap: "CHR ''m'' \<notin> set code \<Longrightarrow> renders (wrap coloured code s) (wrap plain code s)"
  using visible_code [of code] visible_code [of "''[''"] by (simp add: renders_def wrap_def coloured_def plain_def visible_clean)

lemma renders_styles [shows_as]:
  "renders (bold coloured s) (bold plain s)" "renders (dim coloured s) (dim plain s)" "renders (red coloured s) (red plain s)"
  "renders (green coloured s) (green plain s)" "renders (yellow coloured s) (yellow plain s)"
  "renders (cyan coloured s) (cyan plain s)"
  by (simp_all add: bold_def dim_def red_def green_def yellow_def cyan_def renders_wrap)

lemma renders_if [shows_as]: "renders a a' \<Longrightarrow> renders b b' \<Longrightarrow> renders (if c then a else b) (if c then a' else b')"
  by simp

lemma renders_entry [shows_as]: "renders v w \<Longrightarrow> renders (entry coloured m n k v) (entry plain m n k w)"
  unfolding entry_def by (intro shows_as)

lemma renders_kv [shows_as]: "renders v w \<Longrightarrow> renders (kv coloured k v) (kv plain k w)"
  unfolding kv_def by (intro shows_as)

lemma renders_act [shows_as]: "renders v w \<Longrightarrow> renders (act coloured k v) (act plain k w)"
  unfolding act_def by (intro shows_as)

lemma renders_service [shows_as]: "renders (service_line coloured svc) (service_line plain svc)"
  unfolding service_line_def service_styled_def Let_def by (cases "fst svc") (simp_all only: service_state.case, (intro shows_as)+)

lemma renders_outcome [shows_as]: "renders (hook_outcome coloured h) (hook_outcome plain h)"
  unfolding hook_outcome_def Let_def by (intro shows_as)

lemma renders_reason [shows_as]: "renders (reason_words coloured h) (reason_words plain h)"
  unfolding reason_words_def Let_def by (intro shows_as)

lemma renders_hook [shows_as]: "renders v w \<Longrightarrow> renders (hook_words coloured now v h) (hook_words plain now w h)"
  unfolding hook_words_def by (intro shows_as)

lemma renders_subject [shows_as]: "renders v w \<Longrightarrow> renders (hook_subject v h) (hook_subject w h)"
  unfolding hook_subject_def by (intro shows_as)

lemma renders_num [shows_as]: "renders (num coloured n w) (num plain n w)"
  unfolding num_def Let_def by (intro shows_as)

lemma renders_no_data [shows_as]: "renders (no_data coloured c) (no_data plain c)"
  unfolding no_data_def by (intro shows_as)

lemma renders_pid [shows_as]: "renders (pid_line coloured now pid t) (pid_line plain now pid t)"
  unfolding pid_line_def by (intro shows_as)

lemma renders_lease [shows_as]: "renders (lease_row coloured cs l) (lease_row plain cs l)"
  unfolding lease_row_def by (intro shows_as)

lemma renders_result [shows_as]: "renders (result_words coloured r) (result_words plain r)"
  unfolding result_words_def by (intro shows_as)

text \<open>The same for lists of lines.\<close>

definition all_render :: "string list \<Rightarrow> string list \<Rightarrow> bool" where
  "all_render = list_all2 renders"

lemma all_render_intros [shows_as]:
  "all_render [] []"
  "renders a b \<Longrightarrow> all_render as bs \<Longrightarrow> all_render (a # as) (b # bs)"
  "all_render as bs \<Longrightarrow> all_render as' bs' \<Longrightarrow> all_render (as @ as') (bs @ bs')"
  "all_render as bs \<Longrightarrow> all_render as' bs' \<Longrightarrow> all_render (if c then as else as') (if c then bs else bs')"
  by (simp_all add: all_render_def list_all2_appendI)

lemma all_render_map: "(\<And>x. renders (f x) (g x)) \<Longrightarrow> all_render (map f xs) (map g xs)"
  by (simp add: all_render_def list_all2_conv_all_nth)

lemma all_render_concat: "(\<And>x. all_render (f x) (g x)) \<Longrightarrow> all_render (concat (map f xs)) (concat (map g xs))"
  by (induction xs) (simp_all add: all_render_def list_all2_appendI)

lemma all_render_visible: "all_render as bs \<Longrightarrow> \<forall>b \<in> set bs. no_escape b \<Longrightarrow> map (visible False) as = bs"
proof (induction as arbitrary: bs)
  case (Cons a as)
  then obtain b bs' where bs: "bs = b # bs'" "renders a b" "all_render as bs'"
    by (auto simp: all_render_def list_all2_Cons1)
  with Cons.prems(2) have "visible False (a @ []) = b @ visible False []" unfolding renders_def by (metis list.set_intros(1))
  then have "visible False a = b" by simp
  with Cons.IH [OF bs(3)] Cons.prems(2) bs(1) show ?case by simp
qed (simp add: all_render_def)

lemma activity_render [shows_as]: "all_render (activity_lines coloured now s) (activity_lines plain now s)"
  unfolding activity_lines_def
  by (cases "latest_pulse s"; cases "latest_hook s"; cases "latest_revoke s"; simp only: option.case; intro shows_as)

lemma counters_render [shows_as]: "all_render (counter_lines coloured d) (counter_lines plain d)"
  unfolding counter_lines_def Let_def by (intro shows_as)

lemma client_rows_render [shows_as]: "all_render (client_rows coloured now e) (client_rows plain now e)"
proof (cases e)
  case (Pair name c)
  show ?thesis
    unfolding client_rows_def Pair Let_def prod.case
    by (cases "cl_last_pulse c"; cases "cl_last_hook c"; cases "cl_last_revoke c"; simp only: option.case; intro shows_as)
qed

lemma clients_render [shows_as]: "all_render (client_lines_of coloured now s) (client_lines_of plain now s)"
  unfolding client_lines_of_def by (intro shows_as all_render_concat)

lemma leases_render [shows_as]: "all_render (lease_lines coloured cs ls) (lease_lines plain cs ls)"
  unfolding lease_lines_def by (intro shows_as all_render_map)

lemma leg_rows_render [shows_as]: "all_render (leg_rows coloured now e) (leg_rows plain now e)"
proof (cases e)
  case (Pair name leg)
  show ?thesis
    unfolding leg_rows_def Pair Let_def prod.case
    by (cases "lg_last_success leg"; cases "lg_last_attempt leg"; simp only: option.case; intro shows_as)
qed

lemma server_report_renders: "all_render (server_report coloured svc path config now s) (server_report plain svc path config now s)"
  unfolding server_report_def server_head_def Let_def
  by (cases s; simp only: option.case; intro shows_as)

lemma client_report_renders: "all_render (client_report coloured svc path c now s) (client_report plain svc path c now s)"
  unfolding client_report_def Let_def
  by (cases s; simp only: option.case; intro shows_as all_render_concat)

text \<open>
  C40: Colours only colour: what a terminal shows of the coloured report of the server, and of the client, is
  line by line the plain report, whenever no value in it brings an escape character of its own.
\<close>

theorem colours_only_colour:
  "((\<forall>l \<in> set (server_report plain svc path config now s). no_escape l) \<longrightarrow>
      map (visible False) (server_report coloured svc path config now s) = server_report plain svc path config now s) \<and>
   ((\<forall>l \<in> set (client_report plain svc path c now s'). no_escape l) \<longrightarrow>
      map (visible False) (client_report coloured svc path c now s') = client_report plain svc path c now s')"
  using all_render_visible [OF server_report_renders] all_render_visible [OF client_report_renders] by blast

definition demo_client_snapshot :: client_snapshot where
  "demo_client_snapshot =
     \<lparr>cn_started_at = 0, cn_pid = 7,
      cn_servers = [(''main'', \<lparr>lg_server_addr = ''h:1'', lg_server_id = ''x'', lg_interval_seconds = 60, lg_last_attempt = Some 5,
        lg_last_success = None, lg_last_result = ''pending''\<rparr>)]\<rparr>"

lemma no_escape_parts:
  "no_escape []" "no_escape (c # s) \<longleftrightarrow> c \<noteq> CHR 0x1B \<and> no_escape s" "no_escape (s @ t) \<longleftrightarrow> no_escape s \<and> no_escape t"
  "no_escape (show_nat n)" "no_escape (replicate k CHR '' '')"
  using show_nat_chars [of "CHR 0x1B" n] by (auto simp: no_escape_def)

lemma no_escape_words: "no_escape (duration_words i)"
proof -
  have "no_escape (show_int j)" for j
    by (simp add: show_int_def no_escape_parts)
  then show ?thesis by (simp add: duration_words_def Let_def no_escape_parts)
qed

theorem colours_only_colour_witness:
  "map (visible False) (client_report coloured (Active, ''systemctl'') ''/e/c'' (default_client_section ''c'' ''h:1'' ''main'' ''k'') 9
      (Some demo_client_snapshot)) =
     client_report plain (Active, ''systemctl'') ''/e/c'' (default_client_section ''c'' ''h:1'' ''main'' ''k'') 9
      (Some demo_client_snapshot)"
proof -
  have w: "wrap plain c s = s" for c s by (simp add: wrap_def plain_def)
  have "\<forall>l \<in> set (client_report plain (Active, ''systemctl'') ''/e/c'' (default_client_section ''c'' ''h:1'' ''main'' ''k'') 9
      (Some demo_client_snapshot)). no_escape l"
    by (simp add: client_report_def service_line_def service_styled_def service_word_def kv_def entry_def pad_def
        bold_def dim_def red_def green_def yellow_def cyan_def w no_escape_parts no_escape_words dot_def servers_note_def
        default_client_section_def pid_line_def leg_rows_def Let_def result_words_def demo_client_snapshot_def)
  with colours_only_colour show ?thesis by blast
qed

subsection \<open>Parameters\<close>

definition hide_hook :: "hook_info \<Rightarrow> hook_info" where
  "hide_hook h = h\<lparr>hi_param := None\<rparr>"

definition hide_client :: "client_status \<Rightarrow> client_status" where
  "hide_client c = \<lparr>cl_last_pulse = cl_last_pulse c, cl_last_hook = map_option hide_hook (cl_last_hook c),
     cl_last_revoke = map_option hide_hook (cl_last_revoke c)\<rparr>"

definition hide_params :: "server_snapshot \<Rightarrow> server_snapshot" where
  "hide_params s =
     s\<lparr>sn_dump := (sn_dump s)\<lparr>sd_status := (sd_status (sn_dump s))\<lparr>st_clients :=
        map (apsnd hide_client) (st_clients (sd_status (sn_dump s)))\<rparr>\<rparr>\<rparr>"

lemma insort_apsnd: "insort_key fst (apsnd g x) (map (apsnd g) xs) = map (apsnd g) (insort_key fst x xs)"
  by (induction xs) simp_all

lemma sort_apsnd: "sort_key fst (map (apsnd g) xs) = map (apsnd g) (sort_key fst xs)"
  by (induction xs) (simp_all add: insort_apsnd)

lemma max_by_key_map: "(\<And>x. f (g x) = f x) \<Longrightarrow> max_by_key f (map_option g b) (map g xs) = map_option g (max_by_key f b xs)"
proof (induction f b xs rule: max_by_key.induct)
  case (2 f best x xs)
  have "(case map_option g best of None \<Rightarrow> Some (g x) | Some b \<Rightarrow> if f b \<le> f (g x) then Some (g x) else Some b) =
      map_option g (case best of None \<Rightarrow> Some x | Some b \<Rightarrow> if f b \<le> f x then Some x else Some b)"
    using 2(2) by (cases best) simp_all
  with 2 show ?case by simp
qed simp

lemma by_name_hide: "by_name (map (apsnd g) m) = map g (by_name m)"
  by (simp add: by_name_def sort_apsnd comp_def)

lemma map_filter_hide:
  "(\<And>c. field (g c) = map_option h (field c)) \<Longrightarrow> List.map_filter field (map g cs) = map h (List.map_filter field cs)"
  by (induction cs) (auto simp: map_filter_simps split: option.split)

lemma hidden_latest:
  fixes m :: "(string, client_status) hmap" and s :: status_snapshot
  defines "hidden \<equiv> s\<lparr>st_clients := map (apsnd hide_client) m\<rparr>" and "shown \<equiv> s\<lparr>st_clients := m\<rparr>"
  shows "latest_pulse hidden = latest_pulse shown"
    and "latest_hook hidden = map_option hide_hook (latest_hook shown)"
    and "latest_revoke hidden = map_option hide_hook (latest_revoke shown)"
proof -
  have f: "List.map_filter cl_last_pulse (map hide_client cs) = map id (List.map_filter cl_last_pulse cs)"
    "List.map_filter cl_last_hook (map hide_client cs) = map hide_hook (List.map_filter cl_last_hook cs)"
    "List.map_filter cl_last_revoke (map hide_client cs) = map hide_hook (List.map_filter cl_last_revoke cs)" for cs
    by (rule map_filter_hide, simp add: hide_client_def option.map_id)+
  have "hi_at_unix (hide_hook h) = hi_at_unix h" for h by (simp add: hide_hook_def)
  note m = max_by_key_map [of hi_at_unix hide_hook None, OF this, simplified]
  show "latest_pulse hidden = latest_pulse shown" by (simp add: hidden_def shown_def latest_pulse_def by_name_hide f)
  show "latest_hook hidden = map_option hide_hook (latest_hook shown)"
    by (simp add: hidden_def shown_def latest_hook_def by_name_hide f m)
  show "latest_revoke hidden = map_option hide_hook (latest_revoke shown)"
    by (simp add: hidden_def shown_def latest_revoke_def by_name_hide f m)
qed

lemma hidden_words [simp]:
  "hook_words st now w (hide_hook h) = hook_words st now w h" "hook_subject w (hide_hook h) = hook_subject w h"
  "reason_words st (hide_hook h) = reason_words st h"
  by (simp_all add: hook_words_def hook_subject_def reason_words_def hook_outcome_def hide_hook_def)

lemma hidden_rows: "client_rows st now (apsnd hide_client e) = client_rows st now e"
  by (cases e) (simp add: client_rows_def hide_client_def Let_def split: option.split)

text \<open>
  C39: What a client passes to the hook as its parameter is only for the hook: the report of the server is the
  same whatever parameters the snapshot holds.
\<close>

theorem params_never_reported:
  "server_report st svc path config now (map_option hide_params snapshot) = server_report st svc path config now snapshot"
proof (cases snapshot)
  case (Some s)
  let ?s = "sd_status (sn_dump s)"
  have s: "?s\<lparr>st_clients := st_clients ?s\<rparr> = ?s" by simp
  note latest = hidden_latest [where s = ?s and m = "st_clients ?s", unfolded s]
  have "activity_lines st now (?s\<lparr>st_clients := map (apsnd hide_client) (st_clients ?s)\<rparr>) = activity_lines st now ?s"
    unfolding activity_lines_def latest by (simp split: option.split)
  moreover have "client_lines_of st now (?s\<lparr>st_clients := map (apsnd hide_client) (st_clients ?s)\<rparr>) = client_lines_of st now ?s"
    by (simp add: client_lines_of_def sort_apsnd comp_def hidden_rows)
  ultimately show ?thesis
    by (simp add: Some server_report_def hide_params_def Let_def counter_lines_def)
qed simp

subsection \<open>The owner of a lease\<close>

lemma labelled: "(k, v) \<in> set (labels cs) \<longleftrightarrow> (\<exists>c \<in> set cs. ce_client_id c = k \<and> ce_label c = Some v)"
  by (induction cs) (auto simp: labels_def map_filter_simps split: option.split)

lemma labels_distinct: "distinct (map ce_client_id cs) \<Longrightarrow> distinct (map fst (labels cs))"
proof (induction cs)
  case (Cons x cs)
  have "ce_client_id x \<notin> fst ` set (labels cs)"
  proof
    assume "ce_client_id x \<in> fst ` set (labels cs)"
    then obtain v where "(ce_client_id x, v) \<in> set (labels cs)" by auto
    then obtain c where "c \<in> set cs" "ce_client_id c = ce_client_id x" unfolding labelled by blast
    with Cons.prems show False by (metis distinct.simps(2) image_eqI list.set_map list.simps(9))
  qed
  with Cons show ?case by (auto simp: labels_def map_filter_simps split: option.split)
qed (simp add: labels_def map_filter_simps)

text \<open>
  A lease is shown under the label of its client when the configuration writes the identifier
  in lower case, and otherwise, also for an identifier in upper case, under the identifier.
\<close>

lemma lease_owner_named:
  assumes "distinct (map ce_client_id cs)" and "c \<in> set cs"
  shows "le_client_id l = ce_client_id c \<Longrightarrow> lease_owner cs l = unwrap_or (ce_label c) (ce_client_id c)"
    and "le_client_id l \<notin> ce_client_id ` set cs \<Longrightarrow> lease_owner cs l = le_client_id l"
proof -
  have "map_of (labels cs) k = Some v \<longleftrightarrow> (\<exists>c \<in> set cs. ce_client_id c = k \<and> ce_label c = Some v)" for k v
    using labelled labels_distinct [OF assms(1)] by (simp add: map_of_eq_Some_iff)
  note m = this
  show "lease_owner cs l = unwrap_or (ce_label c) (ce_client_id c)" if "le_client_id l = ce_client_id c"
  proof (cases "ce_label c")
    case None
    have "map_of (labels cs) (ce_client_id c) = None"
    proof (rule ccontr)
      assume "map_of (labels cs) (ce_client_id c) \<noteq> None"
      then obtain v where "map_of (labels cs) (ce_client_id c) = Some v" by blast
      then obtain c' where "c' \<in> set cs" "ce_client_id c' = ce_client_id c" "ce_label c' = Some v" using m by blast
      with assms None show False by (metis eq_key_imp_eq_value option.distinct(1) distinct_map inj_on_eq_iff)
    qed
    with that None show ?thesis by (simp add: lease_owner_def)
  next
    case (Some v)
    with m [of "ce_client_id c" v] assms(2) that show ?thesis by (auto simp: lease_owner_def)
  qed
  show "lease_owner cs l = le_client_id l" if "le_client_id l \<notin> ce_client_id ` set cs"
  proof -
    have "map_of (labels cs) (le_client_id l) = None" using m that by (metis image_eqI not_None_eq)
    then show ?thesis by (simp add: lease_owner_def)
  qed
qed

lemma upper_id: "from_hex (replicate 64 CHR ''A'') = Returns (Inr (ClientId (replicate 32 170)))"
  by code_simp

lemma upper_case_label_missed:
  "lease_owner [\<lparr>ce_client_id = replicate 64 CHR ''A'', ce_public_key = key, ce_label = Some name\<rparr>]
     \<lparr>le_source_ip = ip, le_client_id = to_hex (ClientId (replicate 32 170)), le_revoke_in_seconds = n\<rparr> =
   to_hex (ClientId (replicate 32 170))"
proof -
  have "to_hex (ClientId (replicate 32 170)) \<noteq> replicate 64 CHR ''A''" by code_simp
  then show ?thesis
    using lease_owner_named(2) [of "[\<lparr>ce_client_id = replicate 64 CHR ''A'', ce_public_key = key, ce_label = Some name\<rparr>]"]
    by simp
qed

end
