(* ===== verification/Commands.thy ===== *)
theory Commands
  imports Enrolment Report Server_Properties Client_Properties
begin

text \<open>
  The two programs as they are called: the dispatch of \<open>run_cli\<close> in \<open>signedpulse-server/src/cli.rs\<close>
  and \<open>signedpulse-client/src/cli.rs\<close>, and \<open>run\<close>, which loads the configuration of the server, builds its
  executors and starts it. A command is what \<open>clap\<close> has parsed; the result is the file system's states, the lines
  printed and how the process ends. What the commands ask of the operating system is the record of
  the call.
\<close>

subsection \<open>Starting the server\<close>

datatype run_error =
    NoConfig load_error
  | NoSocket string
  | NoServer start_error
  | NoClient client_error
  | Setup setup_error
  | Edit edit_result
  | Files io_error
  | Failed string
  | Stopped forever_error

text \<open>
  \<open>run\<close> up to the receive loop: the configuration's text, when the file can be read, and the error of
  binding the socket.
\<close>

definition start_server ::
  "primitives \<Rightarrow> (string \<Rightarrow> (string, server_config) res) \<Rightarrow> instant \<Rightarrow> string option \<Rightarrow> string option \<Rightarrow>
   (run_error, server) res may_panic" where
  "start_server P parse now bind_error text =
     (case load_config parse validate_server text of
        Panics \<Rightarrow> Panics
      | Returns (Inl e) \<Rightarrow> Returns (Inl (NoConfig e))
      | Returns (Inr cfg) \<Rightarrow>
          (case bind_error of
             Some e \<Rightarrow> Returns (Inl (NoSocket e))
           | None \<Rightarrow>
               (case from_config P now cfg (grant_executor cfg) (revoke_executor cfg) of
                  Panics \<Rightarrow> Panics
                | Returns (Inl e) \<Rightarrow> Returns (Inl (NoServer e))
                | Returns (Inr s) \<Rightarrow> Returns (Inr s))))"

subsection \<open>One-shot runs of the client\<close>

text \<open>The results of all targets, in order; a target is tried whatever became of the ones before it.\<close>

fun target_results ::
  "primitives \<Rightarrow> client \<Rightarrow> (server_target \<Rightarrow> cycle_env) \<Rightarrow> mode \<Rightarrow> bool \<Rightarrow> string option \<Rightarrow> server_target list \<Rightarrow>
   (server_target \<times> (client_error, unit) res) list may_panic" where
  "target_results P c W mode retry override [] = Returns []"
| "target_results P c W mode retry override (t # ts) =
     (case cycle P c t (W t) (attempts_for retry t) mode override of
        Panics \<Rightarrow> Panics
      | Returns r \<Rightarrow>
          (case target_results P c W mode retry override ts of
             Panics \<Rightarrow> Panics
           | Returns rs \<Rightarrow> Returns ((t, r) # rs)))"

text \<open>\<open>show_error\<close> is the text of an error; a failure is marked with a dash of three bytes.\<close>

definition target_line :: "(client_error \<Rightarrow> string) \<Rightarrow> mode \<Rightarrow> server_target \<times> (client_error, unit) res \<Rightarrow> string" where
  "target_line show_error mode tr =
     (let (t, r) = tr in
      t_name t @ '' ('' @ t_server_addr t @ ''): '' @
      (case r of
         Inr _ \<Rightarrow> (case mode of Renew \<Rightarrow> ''ok'' | Release \<Rightarrow> ''released'')
       | Inl e \<Rightarrow> ''FAILED '' @ [CHR 0xE2, CHR 0x80, CHR 0x94] @ '' '' @ show_error e))"

definition failed :: "server_target \<times> (client_error, unit) res \<Rightarrow> bool" where
  "failed tr \<longleftrightarrow> isl (snd tr)"

lemma failed_simps [simp]: "failed (t, Inl e)" "\<not> failed (t, Inr u)"
  by (simp_all add: failed_def)

definition one_shot ::
  "(client_error \<Rightarrow> string) \<Rightarrow> primitives \<Rightarrow> client \<Rightarrow> (server_target \<Rightarrow> cycle_env) \<Rightarrow> mode \<Rightarrow> bool \<Rightarrow> string option \<Rightarrow>
   (string list \<times> (run_error, unit) res) may_panic" where
  "one_shot show_error P c W mode retry override =
     (case target_results P c W mode retry override (ct_targets c) of
        Panics \<Rightarrow> Panics
      | Returns rs \<Rightarrow>
          (let failures = length (filter failed rs) in
           Returns (map (target_line show_error mode) rs,
             if 0 < failures
             then Inl (Failed (show_nat failures @ ''/'' @ show_nat (length (ct_targets c)) @ '' server(s) did not respond''))
             else Inr ())))"

text \<open>The two descriptions of a run over the targets agree.\<close>

lemma failures_results:
  "failures P c W mode retry override ts =
     (case target_results P c W mode retry override ts of
        Panics \<Rightarrow> Panics | Returns rs \<Rightarrow> Returns (map fst (filter failed rs)))"
  by (induction ts) (auto split: may_panic.split sum.split)

lemma one_shot_run_targets:
  "one_shot show_error P c W mode retry override = Returns (ls, r) \<Longrightarrow>
   (r = Inr () \<longleftrightarrow> run_targets P c W mode retry override = Returns (Inr ())) \<and>
   (\<forall>k. run_targets P c W mode retry override = Returns (Inl k) \<longrightarrow>
      r = Inl (Failed (show_nat k @ ''/'' @ show_nat (length (ct_targets c)) @ '' server(s) did not respond'')))"
  by (auto simp: one_shot_def run_targets_def failures_results Let_def split: may_panic.splits if_splits)

lemma target_results_are:
  "target_results P c W mode retry override ts = Returns rs \<longleftrightarrow>
     list_all2 (\<lambda>t tr. fst tr = t \<and> cycle P c t (W t) (attempts_for retry t) mode override = Returns (snd tr)) ts rs"
proof (induction ts arbitrary: rs)
  case (Cons t ts)
  show ?case by (auto simp: list_all2_Cons1 Cons.IH [symmetric] split: may_panic.splits)
qed auto

text \<open>
  C32: A one-shot run tries every target in the order of the configuration, whatever became of the others, once for
  \<open>pulse\<close> and \<open>bye\<close> and with its retries for \<open>ping\<close>; it prints one line for each, and the process succeeds
  exactly when every target has answered.
\<close>

theorem one_shot_reports_every_target:
  assumes "one_shot show_error P c W mode retry override = Returns (ls, r)"
  shows "\<exists>rs. ls = map (target_line show_error mode) rs \<and> map fst rs = ct_targets c \<and>
    (\<forall>(t, result) \<in> set rs. cycle P c t (W t) (if retry then max (t_retries t) 1 else 1) mode override = Returns result) \<and>
    (r = Inr () \<longleftrightarrow> (\<forall>(t, result) \<in> set rs. result = Inr ()))"
proof -
  from assms obtain rs where rs: "target_results P c W mode retry override (ct_targets c) = Returns rs"
    and ls: "ls = map (target_line show_error mode) rs" and r: "r = Inr () \<longleftrightarrow> filter failed rs = []"
    by (auto simp: one_shot_def Let_def split: may_panic.splits if_splits)
  from rs have l: "list_all2 (\<lambda>t tr. fst tr = t \<and> cycle P c t (W t) (attempts_for retry t) mode override = Returns (snd tr))
      (ct_targets c) rs" by (simp only: target_results_are)
  then have "map fst rs = ct_targets c"
    by (auto simp: list_all2_conv_all_nth intro: nth_equalityI)
  moreover have "\<forall>(t, result) \<in> set rs. cycle P c t (W t) (if retry then max (t_retries t) 1 else 1) mode override = Returns result"
    using l by (fastforce simp: list_all2_conv_all_nth in_set_conv_nth attempts_for_def)
  moreover have "result = Inr () \<longleftrightarrow> \<not> failed (t, result)" for t and result :: "(client_error, unit) res"
    by (cases result) simp_all
  then have "r = Inr () \<longleftrightarrow> (\<forall>(t, result) \<in> set rs. result = Inr ())"
    unfolding r filter_empty_conv by fastforce
  ultimately show ?thesis using ls by blast
qed

theorem one_shot_reports_every_target_witness:
  "\<exists>ls r. one_shot (\<lambda>_. ''e'') demo demo_client (\<lambda>_. \<lparr>y_run = SpawnError, y_socket = False, y_attempts = \<lambda>_. demo_attempt\<rparr>) Renew False None =
       Returns (ls, r) \<and> length ls = 1 \<and> r \<noteq> Inr ()"
proof -
  let ?W = "\<lambda>_. \<lparr>y_run = SpawnError, y_socket = False, y_attempts = \<lambda>_. demo_attempt\<rparr>"
  have c: "cycle demo demo_client demo_target (?W demo_target) 1 Renew None = Returns (Inl SocketFailed)"
    by (simp add: cycle_def run_cycle_def cycle_param_def generate_param_def demo_target_def)
  have t: "ct_targets demo_client = [demo_target]" by (simp add: demo_client_def)
  obtain ls r where o: "one_shot (\<lambda>_. ''e'') demo demo_client ?W Renew False None = Returns (ls, r)"
    using c by (auto simp: one_shot_def t attempts_for_def Let_def)
  from one_shot_reports_every_target [OF o, unfolded t] obtain rs where rs: "ls = map (target_line (\<lambda>_. ''e'') Renew) rs"
    "map fst rs = [demo_target]"
    "\<forall>(t, result) \<in> set rs. cycle demo demo_client t (?W t) (if False then max (t_retries t) 1 else 1) Renew None = Returns result"
    "r = Inr () \<longleftrightarrow> (\<forall>(t, result) \<in> set rs. result = Inr ())" by (elim exE conjE) (rule that)
  then obtain result where one: "rs = [(demo_target, result)]" by (cases rs) auto
  with rs(3) c have "result = Inl SocketFailed" by simp
  with one rs(1,4) have "length ls = 1 \<and> r \<noteq> Inr ()" by simp
  with o show ?thesis by blast
qed

subsection \<open>What the server needs to start\<close>

lemma load_clients_result:
  "\<forall>c \<in> set cs. \<exists>i. from_hex (ce_client_id c) = Returns (Inr i) \<Longrightarrow>
   (\<forall>c \<in> set cs. \<exists>k. load_verifying_key P (ce_public_key c) = Inr k) \<and>
     (\<exists>m'. load_clients P cs m = Returns (Inr m') \<and>
        (\<forall>c \<in> set cs. \<exists>i. from_hex (ce_client_id c) = Returns (Inr i) \<and> map_of m' i \<noteq> None) \<and>
        (\<forall>i. map_of m i \<noteq> None \<longrightarrow> map_of m' i \<noteq> None)) \<or>
   (\<exists>c \<in> set cs. \<exists>e. load_verifying_key P (ce_public_key c) = Inl e \<and>
      load_clients P cs m = Returns (Inl (BadClientKey (ce_client_id c) e)))"
proof (induction cs arbitrary: m)
  case (Cons c cs)
  then obtain i where i: "from_hex (ce_client_id c) = Returns (Inr i)" by auto
  show ?case
  proof (cases "load_verifying_key P (ce_public_key c)")
    case (Inl e)
    with i show ?thesis by auto
  next
    case (Inr k)
    let ?m = "hm_put i \<lparr>ci_verifying_key = k, ci_name = unwrap_or (ce_label c) (ce_client_id c)\<rparr> m"
    have "map_of ?m i \<noteq> None" "\<forall>j. map_of m j \<noteq> None \<longrightarrow> map_of ?m j \<noteq> None" by simp_all
    with Cons.IH [of ?m] Cons.prems i Inr show ?thesis by auto
  qed
qed auto



subsection \<open>The server's commands\<close>

text \<open>
  What a call gets from outside: the parsers, the routes and random bytes, the file system's and the operating
  system's answers, the processes, the service manager, the environment variables and the clocks.
\<close>

record 'a call_env =
  x_socket :: "string \<Rightarrow> (ip_addr \<times> nat) option"
  x_routes :: "ip_addr option list"
  x_random :: bytes
  x_seed :: bytes
  x_write :: write_env
  x_os :: os_env
  x_home :: "string option"
  x_exec :: string
  x_macos :: bool
  x_machine :: "'a machine"
  x_to_json :: "'a \<Rightarrow> string"
  x_xdg :: "string option"
  x_query :: query_env
  x_terminal :: bool
  x_no_color :: bool
  x_unix :: int
  x_instant :: instant
  x_bind_error :: "string option"

datatype server_call =
    ServerInit init_args
  | AddClient add_client_args
  | InstallServer bool bool
  | ServerStatus bool
  | Serve

type_synonym 'r ended = "files list \<times> string list \<times> (run_error, 'r) res may_panic"

definition finished :: "files list \<Rightarrow> string list \<Rightarrow> 'r \<Rightarrow> 'r ended" where
  "finished states ls r = (states, ls, Returns (Inr r))"

definition stopped :: "files list \<Rightarrow> run_error \<Rightarrow> 'r ended" where
  "stopped states e = (states, [], Returns (Inl e))"

text \<open>\<open>init_client\<close> on the file, with its report.\<close>

definition init_client_command :: "primitives \<Rightarrow> 'a call_env \<Rightarrow> client_init_args \<Rightarrow> string \<Rightarrow> files \<Rightarrow> unit ended" where
  "init_client_command P X args path fs =
     (case init_client P (x_socket X) (x_random X) (x_seed X) (fs path \<noteq> None) args of
        Panics \<Rightarrow> ([fs], [], Panics)
      | Returns (Inl e) \<Rightarrow> stopped [fs] (Setup e)
      | Returns (Inr config) \<Rightarrow>
          (case write_config_file (x_write X) path config True fs of
             (states, Inl e) \<Rightarrow> stopped states (Files e)
           | (states, Inr _) \<Rightarrow>
               finished states
                 (client_init_report path (resolved_id (x_random X) args) (snd (generate_keypair P (x_seed X))) (ci_label args)) ()))"

definition install_command :: "'a call_env \<Rightarrow> bool \<Rightarrow> service_spec \<times> service_target \<Rightarrow> files \<Rightarrow> 'r \<Rightarrow> 'r ended" where
  "install_command X print_only st fs r =
     (case install_service (x_os X) (x_home X) (x_write X) print_only st fs of
        (fs', _, Inl e) \<Rightarrow> stopped [fs, fs'] (Failed e)
      | (fs', _, Inr ls) \<Rightarrow> finished [fs, fs'] ls r)"

text \<open>The daemon's pid file; a failure is only logged.\<close>

definition pid_states :: "'a call_env \<Rightarrow> string \<Rightarrow> string option \<Rightarrow> files \<Rightarrow> files list" where
  "pid_states X component configured fs =
     fst (write_pidfile (x_write X) (pid_path (unwrap_or configured (default_state_path (x_xdg X) component))) fs)"

text \<open>The result of \<open>Serve\<close> is the server whose receive loop then runs.\<close>

definition server_cli ::
  "primitives \<Rightarrow> (string \<Rightarrow> (string, server_config) res) \<Rightarrow> server_snapshot call_env \<Rightarrow> server_call \<Rightarrow> string \<Rightarrow> files \<Rightarrow>
   server option ended" where
  "server_cli P parse X call path fs =
     (case call of
        ServerInit args \<Rightarrow>
          (case init_server_command P (x_random X) args (x_write X) path fs of
             (states, Inl (Inl e)) \<Rightarrow> stopped states (Setup e)
           | (states, Inl (Inr e)) \<Rightarrow> stopped states (Files e)
           | (states, Inr enc_public) \<Rightarrow>
               finished states
                 (server_init_report path (suggest_host (x_socket X) (x_routes X) (in_bind args)) (in_server_id args) enc_public)
                 None)
      | AddClient args \<Rightarrow>
          (case add_client_command P parse args (x_write X) path fs of
             (states, Panics) \<Rightarrow> (states, [], Panics)
           | (states, Returns (Edited n)) \<Rightarrow> finished states (add_client_report (ac_client_id args) n) None
           | (states, Returns r) \<Rightarrow> stopped states (Edit r))
      | InstallServer user print_only \<Rightarrow> install_command X print_only (server_service (x_exec X) path user) fs None
      | ServerStatus json \<Rightarrow>
          (case load_config parse validate_server (map_option fst (fs path)) of
             Panics \<Rightarrow> ([fs], [], Panics)
           | Returns (Inl e) \<Rightarrow> stopped [fs] (NoConfig e)
           | Returns (Inr cfg) \<Rightarrow>
               finished [fs]
                 (snd (status_command
                   (server_report (for_stdout (x_terminal X) (x_no_color X))
                     (query_service (x_query X) ''signedpulse-server'' ''com.signedpulse.server'') path cfg (x_unix X))
                   (x_to_json X) (x_machine X) (x_xdg X) ''server'' (ss_state_file (sc_server cfg)) json))
                 None)
      | Serve \<Rightarrow>
          (case start_server P parse (x_instant X) (x_bind_error X) (map_option fst (fs path)) of
             Panics \<Rightarrow> ([fs], [], Panics)
           | Returns (Inl e) \<Rightarrow> stopped [fs] e
           | Returns (Inr s) \<Rightarrow>
               finished (pid_states X ''server'' (ss_state_file (sc_server (sv_config s))) fs) [] (Some s)))"

subsection \<open>The client's commands\<close>

datatype client_call =
    ClientInit client_init_args
  | AddServer add_server_args
  | Pulse "string option"
  | Ping "string option"
  | ReleaseAll "string option"
  | GenerateKey
  | InstallClient bool bool
  | ClientStatus bool
  | Daemon

text \<open>
  A loaded client; \<open>W\<close> is what the world gives to the cycles of the targets and \<open>es\<close> what happens to the
  daemon's select loop, which the last result \<open>None\<close> of \<open>run_forever\<close> leaves running.
\<close>

definition with_client ::
  "primitives \<Rightarrow> (string \<Rightarrow> (string, client_section) res) \<Rightarrow> 'a call_env \<Rightarrow> string \<Rightarrow> files \<Rightarrow>
   (client_section \<Rightarrow> client \<Rightarrow> 'r ended) \<Rightarrow> 'r ended" where
  "with_client P parse X path fs run =
     (case load_config parse validate_client (map_option fst (fs path)) of
        Panics \<Rightarrow> ([fs], [], Panics)
      | Returns (Inl e) \<Rightarrow> stopped [fs] (NoConfig e)
      | Returns (Inr c) \<Rightarrow>
          (case client_from_config P (x_unix X) (wr_pid (x_write X)) c of
             Panics \<Rightarrow> ([fs], [], Panics)
           | Returns (Inl e) \<Rightarrow> stopped [fs] (NoClient e)
           | Returns (Inr cl) \<Rightarrow> run c cl))"

definition shot ::
  "files \<Rightarrow> (string list \<times> (run_error, unit) res) may_panic \<Rightarrow> 'r \<Rightarrow> 'r ended" where
  "shot fs result r =
     (case result of
        Panics \<Rightarrow> ([fs], [], Panics)
      | Returns (ls, Inl e) \<Rightarrow> ([fs], ls, Returns (Inl e))
      | Returns (ls, Inr _) \<Rightarrow> finished [fs] ls r)"

text \<open>The result is \<open>False\<close> for a daemon that is still running.\<close>

definition client_cli ::
  "primitives \<Rightarrow> (string \<Rightarrow> (string, client_section) res) \<Rightarrow> (client_error \<Rightarrow> string) \<Rightarrow>
   (server_target \<Rightarrow> cycle_env) \<Rightarrow> forever_event list \<Rightarrow> client_snapshot call_env \<Rightarrow> client_call \<Rightarrow> string \<Rightarrow> files \<Rightarrow>
   bool ended" where
  "client_cli P parse show_error W es X call path fs =
     (case call of
        ClientInit args \<Rightarrow> (let (states, ls, r) = init_client_command P X args path fs in
          (states, ls, case r of Panics \<Rightarrow> Panics | Returns (Inl e) \<Rightarrow> Returns (Inl e) | Returns (Inr _) \<Rightarrow> Returns (Inr True)))
      | AddServer args \<Rightarrow>
          (case add_server_command P parse (x_socket X) args (x_write X) path fs of
             (states, Panics) \<Rightarrow> (states, [], Panics)
           | (states, Returns (Edited n)) \<Rightarrow>
               finished states
                 (case load_config parse validate_client (map_option fst (last states path)) of
                    Returns (Inr updated) \<Rightarrow>
                      add_server_report P (as_name args) (unwrap_or (as_server_id args) (as_name args))
                        (normalize_addr (x_socket X) (as_server args)) updated
                  | _ \<Rightarrow> []) True
           | (states, Returns r) \<Rightarrow> stopped states (Edit r))
      | Pulse param \<Rightarrow> with_client P parse X path fs (\<lambda>c cl. shot fs (one_shot show_error P cl W Renew False param) True)
      | Ping param \<Rightarrow> with_client P parse X path fs (\<lambda>c cl. shot fs (one_shot show_error P cl W Renew True param) True)
      | ReleaseAll param \<Rightarrow> with_client P parse X path fs (\<lambda>c cl. shot fs (one_shot show_error P cl W Release False param) True)
      | GenerateKey \<Rightarrow> finished [fs] (generate_key_report P (x_seed X)) True
      | InstallClient user print_only \<Rightarrow>
          install_command X print_only (client_service (x_exec X) path user (x_macos X)) fs True
      | ClientStatus json \<Rightarrow>
          (case load_config parse validate_client (map_option fst (fs path)) of
             Panics \<Rightarrow> ([fs], [], Panics)
           | Returns (Inl e) \<Rightarrow> stopped [fs] (NoConfig e)
           | Returns (Inr c) \<Rightarrow>
               finished [fs]
                 (snd (status_command
                   (client_report (for_stdout (x_terminal X) (x_no_color X))
                     (query_service (x_query X) ''signedpulse-client'' ''com.signedpulse.client'') path c (x_unix X))
                   (x_to_json X) (x_machine X) (x_xdg X) ''client'' (cs_state_file c) json))
                 True)
      | Daemon \<Rightarrow>
          with_client P parse X path fs (\<lambda>c cl.
            let states = pid_states X ''client'' (cs_state_file c) fs in
            case run_forever P cl W es of
              None \<Rightarrow> finished states [] False
            | Some Panics \<Rightarrow> (states, [], Panics)
            | Some (Returns (Inl e)) \<Rightarrow> stopped states (Stopped e)
            | Some (Returns (Inr _)) \<Rightarrow> finished states [] True))"

subsection \<open>What the commands write\<close>

definition own_files :: "'a call_env \<Rightarrow> string \<Rightarrow> string set" where
  "own_files X path = {path, with_extension path (''tmp.'' @ show_nat (wr_pid (x_write X)))}"

definition only_changes :: "string set \<Rightarrow> files \<Rightarrow> files list \<Rightarrow> bool" where
  "only_changes F fs states \<longleftrightarrow> (\<forall>f \<in> set states. \<forall>q. f q \<noteq> fs q \<longrightarrow> q \<in> F)"

lemma only_changes_same [simp]: "only_changes F fs [fs]"
  by (simp add: only_changes_def)

lemma write_changes:
  "write_config_file (x_write X) path contents secret fs = (states, r) \<Longrightarrow> only_changes (own_files X path) fs states"
  by (auto simp: only_changes_def own_files_def write_config_file_def replace_file_def Let_def split: option.splits if_splits)

lemma edit_changes: "edit_config load edit k (x_write X) path fs = (states, r) \<Longrightarrow> only_changes (own_files X path) fs states"
  by (auto simp: edit_config_def Let_def dest: write_changes split: may_panic.splits sum.splits prod.splits)

text \<open>Reading commands leave every file as it is.\<close>

fun server_reads :: "server_call \<Rightarrow> bool" where
  "server_reads (ServerStatus json) = True"
| "server_reads (InstallServer user print_only) = print_only"
| "server_reads _ = False"

fun client_reads :: "client_call \<Rightarrow> bool" where
  "client_reads (ClientInit args) = False"
| "client_reads (AddServer args) = False"
| "client_reads (InstallClient user print_only) = print_only"
| "client_reads Daemon = False"
| "client_reads _ = True"

fun client_edits :: "client_call \<Rightarrow> bool" where
  "client_edits (ClientInit args) = True"
| "client_edits (AddServer args) = True"
| "client_edits _ = False"

fun server_edits :: "server_call \<Rightarrow> bool" where
  "server_edits (ServerInit args) = True"
| "server_edits (AddClient args) = True"
| "server_edits _ = False"

lemma with_client_reads: "(\<And>c cl. fst (run c cl) = [fs]) \<Longrightarrow> fst (with_client P parse X path fs run) = [fs]"
  by (auto simp: with_client_def stopped_def split: may_panic.split sum.split)

lemma shot_reads: "fst (shot fs result r) = [fs]"
  by (auto simp: shot_def finished_def split: may_panic.split prod.split sum.split)

lemma print_reads: "only_changes F fs (fst (install_command X True st fs r))"
  by (auto simp: install_command_def install_service_def finished_def only_changes_def split: prod.splits)

lemma server_reading: "server_reads call \<Longrightarrow> only_changes {} fs (fst (server_cli P parse X call path fs))"
  by (cases call)
     (auto simp: server_cli_def print_reads stopped_def finished_def split: may_panic.split sum.split)

lemma client_reading: "client_reads call \<Longrightarrow> only_changes {} fs (fst (client_cli P parse show_error W es X call path fs))"
  by (cases call)
     (auto simp: client_cli_def print_reads stopped_def finished_def with_client_reads shot_reads split: may_panic.split sum.split)

lemma server_editing: "server_edits call \<Longrightarrow> only_changes (own_files X path) fs (fst (server_cli P parse X call path fs))"
proof (cases call)
  case (ServerInit args)
  then show ?thesis
    by (auto simp: server_cli_def init_server_command_def stopped_def finished_def dest: write_changes split: sum.splits prod.splits)
next
  case (AddClient args)
  then show ?thesis
    by (auto simp: server_cli_def add_client_command_def stopped_def finished_def dest: edit_changes
        split: may_panic.splits edit_result.splits prod.splits)
qed simp_all

lemma client_editing: "client_edits call \<Longrightarrow> only_changes (own_files X path) fs (fst (client_cli P parse show_error W es X call path fs))"
proof (cases call)
  case (ClientInit args)
  then show ?thesis
    by (auto simp: client_cli_def init_client_command_def stopped_def finished_def Let_def dest: write_changes
        split: may_panic.splits sum.splits prod.splits)
next
  case (AddServer args)
  then show ?thesis
    by (auto simp: client_cli_def add_server_command_def stopped_def finished_def dest: edit_changes
        split: may_panic.splits edit_result.splits prod.splits)
qed simp_all



end
