(* ===== verification/Deploy.thy ===== *)
theory Deploy
  imports Service
begin

text \<open>
  \<open>cargo deploy\<close>, \<open>xtask/src/main.rs\<close>: it builds the two programs and installs them, or removes them.
  The file system has symbolic links here, because the installer must not write through one. Cargo, the
  operating system's refusals and the environment variables are fields of \<open>deploy_env\<close>.
\<close>

subsection \<open>Files and links\<close>

text \<open>A regular file with its contents and mode, or a symbolic link with the path to which it leads.\<close>

datatype node = Regular string nat | Symlink string

type_synonym tree = "string \<Rightarrow> node option"

datatype refusal = PermissionDenied | OtherError string

datatype remove_error = NotFound | Refused refusal

text \<open>
  The path at the end of the links, if they do not lead in a circle; the kernel follows 40 of them.
\<close>

fun follow :: "nat \<Rightarrow> tree \<Rightarrow> string \<Rightarrow> string option" where
  "follow 0 t p = None"
| "follow (Suc n) t p = (case t p of Some (Symlink q) \<Rightarrow> follow n t q | _ \<Rightarrow> Some p)"

definition MAX_LINKS :: nat where "MAX_LINKS = 41"

definition read_file :: "tree \<Rightarrow> string \<Rightarrow> (string \<times> nat) option" where
  "read_file t p =
     (case follow MAX_LINKS t p of
        None \<Rightarrow> None
      | Some q \<Rightarrow> (case t q of Some (Regular c m) \<Rightarrow> Some (c, m) | _ \<Rightarrow> None))"

record deploy_env =
  de_manifest_dir :: string
  de_target_var :: "string option"
  de_cargo_var :: "string option"
  de_build :: "string \<Rightarrow> string \<Rightarrow> string list \<Rightarrow> tree \<Rightarrow> (string, bool) res \<times> tree"
  de_mkdir :: "string \<Rightarrow> refusal option"
  de_remove :: "string \<Rightarrow> refusal option"
  de_copy :: "string \<Rightarrow> (refusal \<times> nat option) option"
  de_chmod :: "string \<Rightarrow> string option"

text \<open>\<open>std::fs::remove_file\<close> removes a link, not the file at its end.\<close>

definition remove_file :: "deploy_env \<Rightarrow> string \<Rightarrow> tree \<Rightarrow> tree \<times> (remove_error, unit) res" where
  "remove_file E p t =
     (case de_remove E p of
        Some r \<Rightarrow> (t, Inl (Refused r))
      | None \<Rightarrow> if t p = None then (t, Inl NotFound) else (t(p := None), Inr ()))"

text \<open>
  \<open>std::fs::copy\<close> writes to the file at the end of the target's links, with the mode of the source. A copy
  can fail before the target is opened, or after some bytes have been written; opening the target empties it,
  also when it is the source.
\<close>

definition copy_file :: "deploy_env \<Rightarrow> string \<Rightarrow> string \<Rightarrow> tree \<Rightarrow> tree \<times> (refusal, unit) res" where
  "copy_file E src dst t =
     (case (read_file t src, follow MAX_LINKS t dst, de_copy E dst) of
        (None, _, _) \<Rightarrow> (t, Inl (OtherError ''No such file or directory (os error 2)''))
      | (_, None, _) \<Rightarrow> (t, Inl (OtherError ''Too many levels of symbolic links (os error 40)''))
      | (_, _, Some (r, None)) \<Rightarrow> (t, Inl r)
      | (Some (c, m), Some q, failure) \<Rightarrow>
          (let text = (if follow MAX_LINKS t src = Some q then [] else c) in
           case failure of
             Some (r, k) \<Rightarrow> (t(q \<mapsto> Regular (take (case k of Some n \<Rightarrow> n | None \<Rightarrow> 0) text) m), Inl r)
           | None \<Rightarrow> (t(q \<mapsto> Regular text m), Inr ())))"

text \<open>493 is the mode 0755.\<close>

definition set_executable :: "deploy_env \<Rightarrow> string \<Rightarrow> tree \<Rightarrow> tree \<times> (string, unit) res" where
  "set_executable E p t =
     (case de_chmod E p of
        Some e \<Rightarrow> (t, Inl e)
      | None \<Rightarrow>
          (case follow MAX_LINKS t p of
             None \<Rightarrow> (t, Inl ''Too many levels of symbolic links (os error 40)'')
           | Some q \<Rightarrow>
               (case t q of
                  Some (Regular c m) \<Rightarrow> (t(q \<mapsto> Regular c 493), Inr ())
                | _ \<Rightarrow> (t, Inl ''No such file or directory (os error 2)''))))"

subsection \<open>Arguments and paths\<close>

definition BINARIES :: "string list" where
  "BINARIES = [''signedpulse-server'', ''signedpulse-client'']"

record deploy_args =
  da_prefix :: string
  da_bindir :: "string option"
  da_destdir :: string
  da_no_build :: bool
  da_uninstall :: bool

definition default_args :: deploy_args where
  "default_args = \<lparr>da_prefix = ''/usr/local'', da_bindir = None, da_destdir = '''', da_no_build = False, da_uninstall = False\<rparr>"

text \<open>Cargo passes \<open>deploy\<close> as the first argument after the program's name.\<close>

definition drop_deploy :: "string list \<Rightarrow> string list" where
  "drop_deploy raw = map snd (filter (\<lambda>(i, a). \<not> (i = 1 \<and> a = ''deploy'')) (enumerate 0 raw))"

text \<open>
  \<open>Path::strip_prefix\<close> by the root: what is left has no empty component and no \<open>.\<close> at either end.
\<close>

fun trim_path :: "string \<Rightarrow> string" where
  "trim_path [] = []"
| "trim_path (c # p) =
     (if c = CHR ''/'' \<or> c = CHR ''.'' \<and> (p = [] \<or> hd p = CHR ''/'') then trim_path p else c # p)"

definition strip_root :: "string \<Rightarrow> string option" where
  "strip_root p = (if starts_with p ''/'' then Some (rev (trim_path (rev (trim_path p)))) else None)"

definition join_destdir :: "string \<Rightarrow> string \<Rightarrow> string" where
  "join_destdir destdir path =
     (if destdir = [] then path else path_join destdir (case strip_root path of Some p \<Rightarrow> p | None \<Rightarrow> path))"

text \<open>\<open>Path::parent\<close>: none for the root and the empty path.\<close>

definition parent :: "string \<Rightarrow> string option" where
  "parent p =
     (if drop_tail (rev p) = [] then None
      else let d = directory_part p; body = rev (drop_tail (rev d))
           in Some (if body = [] \<and> d \<noteq> [] then ''/'' else body))"

definition workspace_root :: "deploy_env \<Rightarrow> string may_panic" where
  "workspace_root E = (case parent (de_manifest_dir E) of None \<Rightarrow> Panics | Some p \<Rightarrow> Returns p)"

definition target_dir :: "deploy_env \<Rightarrow> string \<Rightarrow> string" where
  "target_dir E root = (case de_target_var E of Some d \<Rightarrow> d | None \<Rightarrow> path_join root ''target'')"

definition bindir_of :: "deploy_args \<Rightarrow> string" where
  "bindir_of args =
     join_destdir (da_destdir args)
       (case da_bindir args of Some b \<Rightarrow> b | None \<Rightarrow> path_join (da_prefix args) ''bin'')"

subsection \<open>Building and installing\<close>

datatype deploy_error =
    BuildNotRun string
  | BuildFailed
  | Missing string
  | DeniedAt string
  | FailedAt string string
  | ModeNotSet string

primrec permission_hint :: "refusal \<Rightarrow> string \<Rightarrow> deploy_error" where
  "permission_hint PermissionDenied path = DeniedAt path"
| "permission_hint (OtherError e) path = FailedAt path e"

definition build_arguments :: "string list" where
  "build_arguments = [''build'', ''--release''] @ concat (map (\<lambda>b. [''-p'', b]) BINARIES)"

definition build_release :: "deploy_env \<Rightarrow> string \<Rightarrow> tree \<Rightarrow> tree \<times> (deploy_error, unit) res" where
  "build_release E root t =
     (case de_build E (case de_cargo_var E of Some c \<Rightarrow> c | None \<Rightarrow> ''cargo'') root build_arguments t of
        (Inl e, t) \<Rightarrow> (t, Inl (BuildNotRun e))
      | (Inr success, t) \<Rightarrow> (t, if success then Inr () else Inl BuildFailed))"

text \<open>The lines that were printed, last the result.\<close>

type_synonym deployed = "tree \<times> string list \<times> (deploy_error, unit) res"

fun uninstall_all :: "deploy_env \<Rightarrow> string \<Rightarrow> string list \<Rightarrow> tree \<Rightarrow> deployed" where
  "uninstall_all E bindir [] t = (t, [], Inr ())"
| "uninstall_all E bindir (bin # bins) t =
     (let path = path_join bindir bin in
      case remove_file E path t of
        (t, Inr _) \<Rightarrow> (let (t, ls, r) = uninstall_all E bindir bins t in (t, (''removed '' @ path) # ls, r))
      | (t, Inl NotFound) \<Rightarrow> uninstall_all E bindir bins t
      | (t, Inl (Refused e)) \<Rightarrow> (t, [], Inl (permission_hint e path)))"

definition exists_file :: "tree \<Rightarrow> string \<Rightarrow> bool" where
  "exists_file t p = (case follow MAX_LINKS t p of Some q \<Rightarrow> t q \<noteq> None | None \<Rightarrow> False)"

text \<open>One turn of the installing loop.\<close>

definition install_binary :: "deploy_env \<Rightarrow> string \<Rightarrow> string \<Rightarrow> string \<Rightarrow> tree \<Rightarrow> tree \<times> (deploy_error, unit) res" where
  "install_binary E target bindir bin t =
     (let src = path_join (path_join target ''release'') bin; dst = path_join bindir bin in
      if \<not> exists_file t src then (t, Inl (Missing src))
      else case remove_file E dst t of
        (t, Inl (Refused e)) \<Rightarrow> (t, Inl (permission_hint e dst))
      | (t, _) \<Rightarrow>
          (case copy_file E src dst t of
             (t, Inl e) \<Rightarrow> (t, Inl (permission_hint e dst))
           | (t, Inr _) \<Rightarrow>
               (case set_executable E dst t of
                  (t, Inl e) \<Rightarrow> (t, Inl (ModeNotSet e))
                | (t, Inr _) \<Rightarrow> (t, Inr ()))))"

fun install_all :: "deploy_env \<Rightarrow> string \<Rightarrow> string \<Rightarrow> string list \<Rightarrow> tree \<Rightarrow> deployed" where
  "install_all E target bindir [] t = (t, [], Inr ())"
| "install_all E target bindir (bin # bins) t =
     (case install_binary E target bindir bin t of
        (t, Inl e) \<Rightarrow> (t, [], Inl e)
      | (t, Inr _) \<Rightarrow>
          (let (t, ls, r) = install_all E target bindir bins t
           in (t, (''installed '' @ path_join bindir bin) # ls, r)))"

definition deploy :: "deploy_env \<Rightarrow> deploy_args \<Rightarrow> tree \<Rightarrow> deployed may_panic" where
  "deploy E args t =
     (case workspace_root E of
        Panics \<Rightarrow> Panics
      | Returns root \<Rightarrow> Returns
          (let bindir = bindir_of args in
           if da_uninstall args then uninstall_all E bindir BINARIES t
           else case (if da_no_build args then (t, Inr ()) else build_release E root t) of
             (t, Inl e) \<Rightarrow> (t, [], Inl e)
           | (t, Inr _) \<Rightarrow>
               (case de_mkdir E bindir of
                  Some r \<Rightarrow> (t, [], Inl (permission_hint r bindir))
                | None \<Rightarrow> install_all E (target_dir E root) bindir BINARIES t)))"

subsection \<open>What one turn of a loop changes\<close>

lemma follow_here [simp]: "\<forall>q. t p \<noteq> Some (Symlink q) \<Longrightarrow> follow MAX_LINKS t p = Some p"
  by (auto simp: MAX_LINKS_def eval_nat_numeral split: option.split node.split)

lemma remove_cases:
  obtains (refused) e where "remove_file E p t = (t, Inl (Refused e))" "de_remove E p = Some e"
  | (gone) r where "remove_file E p t = (t(p := None), r)" "de_remove E p = None" "r = (if t p = None then Inl NotFound else Inr ())"
proof (cases "de_remove E p")
  case None
  then show thesis by (intro gone) (auto simp: remove_file_def)
next
  case (Some e)
  then show thesis by (intro refused) (auto simp: remove_file_def)
qed

lemma copy_touches:
  assumes "copy_file E src dst t = (t', r)" and "t dst = None" and "q \<noteq> dst"
  shows "t' q = t q"
  using assms by (auto simp: copy_file_def Let_def split: option.splits prod.splits)

lemma copy_regular: "copy_file E src dst t = (t', Inr u) \<Longrightarrow> t dst = None \<Longrightarrow> \<exists>c m. t' dst = Some (Regular c m)"
  by (auto simp: copy_file_def Let_def split: option.splits prod.splits)

lemma executable_touches:
  assumes "set_executable E p t = (t', r)" and "\<forall>l. t p \<noteq> Some (Symlink l)" and "q \<noteq> p"
  shows "t' q = t q"
  using assms by (auto simp: set_executable_def split: option.splits node.splits)

lemma install_touches:
  assumes "install_binary E target bindir bin t = (t', r)" and "q \<noteq> path_join bindir bin"
  shows "t' q = t q"
proof -
  let ?src = "path_join (path_join target ''release'') bin" and ?dst = "path_join bindir bin"
  show ?thesis
  proof (cases "exists_file t ?src")
    case True
    show ?thesis
    proof (cases rule: remove_cases [of E ?dst t])
      case (refused e)
      with True assms show ?thesis by (simp add: install_binary_def)
    next
      case (gone x)
      obtain t1 y where c: "copy_file E ?src ?dst (t(?dst := None)) = (t1, y)" by fastforce
      obtain t2 z where m: "set_executable E ?dst t1 = (t2, z)" by fastforce
      have t1: "t1 q = t q" using copy_touches [OF c] assms(2) by simp
      have "t2 q = t1 q" if "y = Inr u" for u
        using that copy_regular [of E ?src ?dst "t(?dst := None)" t1 u] executable_touches [OF m _ assms(2)] c by auto
      with True gone c m t1 assms(1) show ?thesis
        by (auto simp: install_binary_def split: sum.splits if_splits)
    qed
  qed (use assms in \<open>simp add: install_binary_def\<close>)
qed

lemma install_all_touches:
  "install_all E target bindir bins t = (t', ls, r) \<Longrightarrow> q \<notin> path_join bindir ` set bins \<Longrightarrow> t' q = t q"
proof (induction bins arbitrary: t ls)
  case (Cons bin bins)
  obtain t1 x where i: "install_binary E target bindir bin t = (t1, x)" by fastforce
  with install_touches [OF i, of q] Cons show ?case by (fastforce split: sum.splits prod.splits)
qed simp

lemma uninstall_touches:
  "uninstall_all E bindir bins t = (t', ls, r) \<Longrightarrow> q \<notin> path_join bindir ` set bins \<Longrightarrow> t' q = t q"
proof (induction bins arbitrary: t ls)
  case (Cons bin bins)
  show ?case
  proof (cases rule: remove_cases [of E "path_join bindir bin" t])
    case (refused e)
    with Cons show ?thesis by simp
  next
    case (gone x)
    then obtain ls' where u: "uninstall_all E bindir bins (t(path_join bindir bin := None)) = (t', ls', r)"
      using Cons.prems(1) by (cases "t (path_join bindir bin)") (auto simp: Let_def split: prod.splits)
    from Cons.IH [OF u] Cons.prems(2) show ?thesis by simp
  qed
qed simp

text \<open>The tree from which the installer starts, after the build.\<close>

definition built :: "deploy_env \<Rightarrow> deploy_args \<Rightarrow> tree \<Rightarrow> tree" where
  "built E args t =
     (if da_uninstall args \<or> da_no_build args then t
      else case workspace_root E of Panics \<Rightarrow> t | Returns root \<Rightarrow> fst (build_release E root t))"

definition targets :: "deploy_args \<Rightarrow> string list" where
  "targets args = map (path_join (bindir_of args)) BINARIES"

lemma deploy_touches:
  assumes "deploy E args t = Returns (t', ls, r)" and "q \<notin> set (targets args)"
  shows "t' q = built E args t q"
proof -
  obtain root where root: "workspace_root E = Returns root" using assms(1) by (auto simp: deploy_def split: may_panic.splits)
  have q: "q \<notin> path_join (bindir_of args) ` set BINARIES" using assms(2) by (simp add: targets_def)
  obtain t1 x where b: "(if da_no_build args then (t, Inr ()) else build_release E root t) = (t1, x)" by fastforce
  show ?thesis
  proof (cases "da_uninstall args")
    case True
    with assms(1) root uninstall_touches [OF _ q] show ?thesis by (simp add: deploy_def built_def Let_def)
  next
    case False
    then have t1: "built E args t = t1" using b root by (auto simp: built_def)
    from False assms(1) root b install_all_touches [OF _ q] show ?thesis
      by (auto simp: deploy_def Let_def t1 split: sum.splits option.splits)
  qed
qed

subsection \<open>Installing and removing when nothing is refused\<close>

definition source_path :: "deploy_env \<Rightarrow> string \<Rightarrow> string \<Rightarrow> string" where
  "source_path E root bin = path_join (path_join (target_dir E root) ''release'') bin"

definition permits :: "deploy_env \<Rightarrow> deploy_args \<Rightarrow> bool" where
  "permits E args \<longleftrightarrow> de_mkdir E (bindir_of args) = None \<and>
     (\<forall>p \<in> set (targets args). de_remove E p = None \<and> de_copy E p = None \<and> de_chmod E p = None)"

text \<open>The programs are there as regular files, outside the directory to which they are installed.\<close>

definition programs_built :: "deploy_env \<Rightarrow> string \<Rightarrow> deploy_args \<Rightarrow> (string \<Rightarrow> string) \<Rightarrow> tree \<Rightarrow> bool" where
  "programs_built E root args code t \<longleftrightarrow>
     (da_no_build args \<or> snd (build_release E root t) = Inr ()) \<and>
     (\<forall>b \<in> set BINARIES. (\<exists>m. built E args t (source_path E root b) = Some (Regular (code b) m)) \<and>
        source_path E root b \<notin> set (targets args))"

lemma install_works:
  assumes "t (source_path E root bin) = Some (Regular c m)" and "source_path E root bin \<noteq> path_join bindir bin"
    and "de_remove E (path_join bindir bin) = None" "de_copy E (path_join bindir bin) = None" "de_chmod E (path_join bindir bin) = None"
  shows "install_binary E (target_dir E root) bindir bin t = (t(path_join bindir bin \<mapsto> Regular c 493), Inr ())"
proof -
  let ?src = "source_path E root bin" and ?dst = "path_join bindir bin"
  have "remove_file E ?dst t = (t(?dst := None), if t ?dst = None then Inl NotFound else Inr ())"
    by (cases rule: remove_cases [of E ?dst t]) (use assms(3) in simp_all)
  moreover have "exists_file t ?src" using assms(1) by (simp add: exists_file_def)
  moreover have "copy_file E ?src ?dst (t(?dst := None)) = (t(?dst \<mapsto> Regular c m), Inr ())"
    using assms(1,2,4) by (simp add: copy_file_def read_file_def Let_def)
  moreover have "set_executable E ?dst (t(?dst \<mapsto> Regular c m)) = (t(?dst \<mapsto> Regular c 493), Inr ())"
    using assms(5) by (simp add: set_executable_def)
  ultimately show ?thesis by (simp add: install_binary_def Let_def flip: source_path_def split: if_splits)
qed

lemma targets_distinct: "path_join d ''signedpulse-server'' \<noteq> path_join d ''signedpulse-client''"
  by (simp add: path_join_def starts_with_def)

lemma deploy_done:
  assumes "workspace_root E = Returns root" and "\<not> da_uninstall args" and "permits E args"
    and "programs_built E root args code t"
  shows "deploy E args t = Returns
    ((built E args t)(path_join (bindir_of args) ''signedpulse-server'' \<mapsto> Regular (code ''signedpulse-server'') 493,
        path_join (bindir_of args) ''signedpulse-client'' \<mapsto> Regular (code ''signedpulse-client'') 493),
     map (\<lambda>p. ''installed '' @ p) (targets args), Inr ())"
proof -
  let ?d = "bindir_of args" and ?t = "built E args t" and ?s = "''signedpulse-server''" and ?c = "''signedpulse-client''"
  obtain m n where src: "?t (source_path E root ?s) = Some (Regular (code ?s) m)" "?t (source_path E root ?c) = Some (Regular (code ?c) n)"
      "source_path E root ?s \<notin> set (targets args)" "source_path E root ?c \<notin> set (targets args)"
    using assms(4) by (auto simp: programs_built_def BINARIES_def)
  have ok: "de_remove E (path_join ?d b) = None" "de_copy E (path_join ?d b) = None" "de_chmod E (path_join ?d b) = None"
    if "b \<in> {?s, ?c}" for b
    using assms(3) that by (auto simp: permits_def targets_def BINARIES_def)
  have one: "install_binary E (target_dir E root) ?d ?s ?t = (?t(path_join ?d ?s \<mapsto> Regular (code ?s) 493), Inr ())"
    by (rule install_works [of _ E root ?s "code ?s" m])
       (use src(1,3) ok [of ?s] in \<open>auto simp: targets_def BINARIES_def\<close>)
  have two: "install_binary E (target_dir E root) ?d ?c (?t(path_join ?d ?s \<mapsto> Regular (code ?s) 493)) =
      (?t(path_join ?d ?s \<mapsto> Regular (code ?s) 493, path_join ?d ?c \<mapsto> Regular (code ?c) 493), Inr ())"
    by (rule install_works [of _ E root ?c "code ?c" n])
       (use src(2,4) ok [of ?c] in \<open>auto simp: targets_def BINARIES_def\<close>)
  have built: "(if da_no_build args then (t, Inr ()) else build_release E root t) = (?t, Inr ())"
    using assms(1,2,4) by (cases "build_release E root t") (auto simp: built_def programs_built_def)
  have "de_mkdir E ?d = None" using assms(3) by (simp add: permits_def)
  with assms(1,2) built show ?thesis
    by (simp add: deploy_def Let_def one two BINARIES_def targets_def)
qed

lemma uninstall_done:
  assumes "workspace_root E = Returns root" and "da_uninstall args" and "\<forall>p \<in> set (targets args). de_remove E p = None"
  shows "deploy E args t = Returns
    (t(path_join (bindir_of args) ''signedpulse-server'' := None, path_join (bindir_of args) ''signedpulse-client'' := None),
     map (\<lambda>p. ''removed '' @ p) (filter (\<lambda>p. t p \<noteq> None) (targets args)), Inr ())"
  using assms targets_distinct [of "bindir_of args"]
  by (auto simp: deploy_def Let_def BINARIES_def targets_def remove_file_def fun_upd_idem_iff split: option.splits)

subsection \<open>Staging\<close>

lemma trim_path_tail: "\<exists>a. p = a @ trim_path p"
proof (induction p)
  case (Cons c p)
  then obtain a where "p = a @ trim_path p" by blast
  then show ?case by (auto intro: exI [of _ "c # a"])
qed simp

lemma trim_path_head: "\<not> starts_with (trim_path p) ''/''"
  by (induction p) (auto simp: starts_with_def)

lemma strip_root_relative: "strip_root p = Some q \<Longrightarrow> \<not> starts_with q ''/''"
proof -
  assume "strip_root p = Some q"
  then have q: "q = rev (trim_path (rev (trim_path p)))" by (simp add: strip_root_def split: if_splits)
  obtain a where "rev (trim_path p) = a @ trim_path (rev (trim_path p))" using trim_path_tail by blast
  then have "trim_path p = q @ rev a" by (metis q rev_append rev_rev_ident)
  with trim_path_head [of p] show ?thesis by (cases q) (auto simp: starts_with_def)
qed

lemma path_join_below: "\<not> starts_with b ''/'' \<Longrightarrow> \<exists>r. path_join a b = a @ r"
  by (auto simp: path_join_def)

lemma staged: "destdir \<noteq> [] \<Longrightarrow> \<exists>r. join_destdir destdir p = destdir @ r"
proof -
  assume d: "destdir \<noteq> []"
  have "\<not> starts_with (case strip_root p of Some q \<Rightarrow> q | None \<Rightarrow> p) ''/''"
  proof (cases "strip_root p")
    case None
    then have "\<not> starts_with p ''/''" unfolding strip_root_def by (metis option.distinct(1))
    with None show ?thesis by simp
  next
    case (Some q)
    with strip_root_relative [OF Some] show ?thesis by simp
  qed
  from path_join_below [OF this] d show ?thesis unfolding join_destdir_def by simp
qed

lemma targets_staged: "da_destdir args \<noteq> [] \<Longrightarrow> p \<in> set (targets args) \<Longrightarrow> \<exists>r. p = da_destdir args @ r"
proof -
  assume "da_destdir args \<noteq> []" and p: "p \<in> set (targets args)"
  then obtain r where r: "bindir_of args = da_destdir args @ r" using staged by (auto simp: bindir_of_def)
  from p obtain b where "p = path_join (bindir_of args) b" "\<not> starts_with b ''/''"
    by (auto simp: targets_def BINARIES_def starts_with_def)
  with path_join_below [of b "bindir_of args"] r show ?thesis by auto
qed

subsection \<open>Properties\<close>

definition demo_deploy :: deploy_env where
  "demo_deploy = \<lparr>de_manifest_dir = ''/src/xtask'', de_target_var = None, de_cargo_var = None,
     de_build = \<lambda>c root args t. (Inr True, t), de_mkdir = \<lambda>_. None, de_remove = \<lambda>_. None, de_copy = \<lambda>_. None, de_chmod = \<lambda>_. None\<rparr>"

definition demo_tree :: tree where
  "demo_tree = [''/src/target/release/signedpulse-server'' \<mapsto> Regular ''S'' 509,
     ''/src/target/release/signedpulse-client'' \<mapsto> Regular ''C'' 509, ''/etc/passwd'' \<mapsto> Regular ''root'' 420]"

lemma demo_root: "workspace_root demo_deploy = Returns ''/src''"
  by code_simp

lemma demo_targets: "targets (default_args\<lparr>da_no_build := True\<rparr>) = [''/usr/local/bin/signedpulse-server'', ''/usr/local/bin/signedpulse-client'']"
  by code_simp



text \<open>
  C37: When both programs have been built and the operating system refuses nothing, \<open>cargo deploy\<close> installs exactly
  them, as new regular files that everybody may run, in the place of old files and links, and says so; where there was
  nothing before, \<open>--uninstall\<close> brings back the tree as it was.
\<close>

theorem deploy_round_trip:
  assumes "workspace_root E = Returns root" and "\<not> da_uninstall args" and "permits E args"
    and "programs_built E root args code t"
  shows "\<exists>t'. deploy E args t = Returns (t', map (\<lambda>p. ''installed '' @ p) (targets args), Inr ()) \<and>
    map t' (targets args) = map (\<lambda>b. Some (Regular (code b) 493)) BINARIES \<and>
    ((\<forall>p \<in> set (targets args). built E args t p = None) \<longrightarrow>
       deploy E (args\<lparr>da_uninstall := True\<rparr>) t' =
         Returns (built E args t, map (\<lambda>p. ''removed '' @ p) (targets args), Inr ()))"
proof -
  let ?d = "bindir_of args" and ?s = "''signedpulse-server''" and ?c = "''signedpulse-client''" and ?t = "built E args t"
  let ?t' = "?t(path_join ?d ?s \<mapsto> Regular (code ?s) 493, path_join ?d ?c \<mapsto> Regular (code ?c) 493)"
  have bd: "bindir_of (args\<lparr>da_uninstall := True\<rparr>) = ?d" by (simp add: bindir_of_def split: option.split)
  then have tg: "targets (args\<lparr>da_uninstall := True\<rparr>) = targets args" by (simp add: targets_def)
  have files: "map ?t' (targets args) = map (\<lambda>b. Some (Regular (code b) 493)) BINARIES"
    using targets_distinct [of ?d] by (simp add: targets_def BINARIES_def)
  have "deploy E (args\<lparr>da_uninstall := True\<rparr>) ?t' =
      Returns (?t'(path_join ?d ?s := None, path_join ?d ?c := None),
        map (\<lambda>p. ''removed '' @ p) (filter (\<lambda>p. ?t' p \<noteq> None) (targets args)), Inr ())"
    using uninstall_done [OF assms(1), of "args\<lparr>da_uninstall := True\<rparr>" ?t'] assms(3) by (simp add: bd tg permits_def)
  moreover have "filter (\<lambda>p. ?t' p \<noteq> None) (targets args) = targets args"
    using targets_distinct [of ?d] by (simp add: targets_def BINARIES_def)
  moreover have "?t'(path_join ?d ?s := None, path_join ?d ?c := None) = ?t"
    if "\<forall>p \<in> set (targets args). ?t p = None"
    using that by (auto simp: targets_def BINARIES_def fun_eq_iff)
  ultimately show ?thesis using deploy_done [OF assms] files by (intro exI [of _ ?t']) simp
qed

theorem deploy_round_trip_witness:
  "\<exists>t'. deploy demo_deploy (default_args\<lparr>da_no_build := True\<rparr>) demo_tree =
       Returns (t', [''installed /usr/local/bin/signedpulse-server'', ''installed /usr/local/bin/signedpulse-client''], Inr ()) \<and>
     t' ''/usr/local/bin/signedpulse-client'' = Some (Regular ''C'' 493)"
proof -
  let ?args = "default_args\<lparr>da_no_build := True\<rparr>"
  define code where "code b = (if b = ''signedpulse-server'' then ''S'' else ''C'')" for b :: string
  have src: "source_path demo_deploy ''/src'' ''signedpulse-server'' = ''/src/target/release/signedpulse-server''"
    "source_path demo_deploy ''/src'' ''signedpulse-client'' = ''/src/target/release/signedpulse-client''"
    by code_simp+
  have "programs_built demo_deploy ''/src'' ?args code demo_tree"
    by (simp add: programs_built_def built_def BINARIES_def src demo_targets demo_tree_def code_def)
  moreover have "permits demo_deploy ?args" by (simp add: permits_def demo_deploy_def)
  moreover have "\<not> da_uninstall ?args" by (simp add: default_args_def)
  ultimately obtain t' where "deploy demo_deploy ?args demo_tree = Returns (t', map (\<lambda>p. ''installed '' @ p) (targets ?args), Inr ())"
      "map t' (targets ?args) = map (\<lambda>b. Some (Regular (code b) 493)) BINARIES"
    using deploy_round_trip [OF demo_root] by blast
  then show ?thesis by (intro exI [of _ t']) (simp add: demo_targets BINARIES_def code_def)
qed

text \<open>
  The packages that \<open>cargo build\<close> is asked for, and the package that has both programs: \<open>[[bin]]\<close> in
  \<open>crates/signedpulse/Cargo.toml\<close>. \<open>cargo build -p\<close> builds the targets of the selected packages and of no other
  package a program.
\<close>

fun selected :: "string list \<Rightarrow> string list" where
  "selected (a # b # xs) = (if a = ''-p'' then b # selected xs else selected (b # xs))"
| "selected xs = []"

definition package_of :: "string \<Rightarrow> string" where
  "package_of bin = ''signedpulse''"

definition builds_selected :: "deploy_env \<Rightarrow> string \<Rightarrow> bool" where
  "builds_selected E root \<longleftrightarrow>
     (\<forall>c words t. \<forall>b \<in> set BINARIES. package_of b \<in> set (selected words) \<or>
        snd (de_build E c root words t) (source_path E root b) = t (source_path E root b))"



text \<open>The first argument that cargo adds for an external command is dropped, and no other.\<close>

lemma drop_deploy_simps:
  "drop_deploy (prog # ''deploy'' # xs) = prog # xs"
  "x \<noteq> ''deploy'' \<Longrightarrow> drop_deploy (prog # x # xs) = prog # x # xs"
proof -
  have *: "map snd (filter (\<lambda>(i, a). \<not> (i = 1 \<and> a = ''deploy'')) (enumerate (Suc (Suc k)) xs)) = xs" for xs :: "string list" and k
    by (induction xs arbitrary: k) simp_all
  show "drop_deploy (prog # ''deploy'' # xs) = prog # xs" using * [of 0 xs] by (simp add: drop_deploy_def)
  show "x \<noteq> ''deploy'' \<Longrightarrow> drop_deploy (prog # x # xs) = prog # x # xs" using * [of 0 xs] by (simp add: drop_deploy_def)
qed

end
